(* ===== verification/Prelude.thy ===== *)
theory Prelude
  imports Main "HOL-Library.Word" "HOL-Library.Signed_Division" "HOL-Library.Sublist" "HOL-Library.AList"
begin

text \<open>
  What every theory of the development shares: the parts of the Go language and of its standard
  library that the sources use (panics, 64-bit \<open>int\<close>, byte slices over a store of backing arrays,
  the functions of package \<open>strings\<close>, \<open>encoding/hex\<close> and \<open>strconv\<close>), the generic lemmas on
  lists, maps and words, and the collections \<open>go_defs\<close> and \<open>slice_defs\<close>.
\<close>

unbundle bit_operations_syntax

named_theorems go_defs \<open>definitions of Go primitives that proofs unfold\<close>
named_theorems slice_defs \<open>definitions of the slice operations over the store\<close>

type_synonym byte = "8 word"
type_synonym uint16 = "16 word"
type_synonym uint32 = "32 word"
type_synonym uint64 = "64 word"

section \<open>Panics\<close>

text \<open>
  A Go function either returns or panics. A panic carries the reason, so that the branches of
  a function stay apart.
\<close>

datatype panic =
    IndexOutOfRange
  | SliceOutOfRange
  | MakeOutOfRange
  | NegativeShift
  | NilDereference
  | ClosedChannel
  | UserPanic string

datatype 'a outcome = Return 'a | Panic panic

definition outcome_bind :: "'a outcome \<Rightarrow> ('a \<Rightarrow> 'b outcome) \<Rightarrow> 'b outcome" where
  "outcome_bind m f = (case m of Return x \<Rightarrow> f x | Panic p \<Rightarrow> Panic p)"

lemma outcome_bind_simps [simp]:
  "outcome_bind (Return x) f = f x"
  "outcome_bind (Panic p) f = Panic p"
  by (simp_all add: outcome_bind_def)

lemma outcome_bind_Return_iff:
  "outcome_bind m f = Return y \<longleftrightarrow> (\<exists>x. m = Return x \<and> f x = Return y)"
  by (cases m) simp_all

section \<open>Lists\<close>

lemma split_first: "a @ c # s = b @ c # t \<Longrightarrow> c \<notin> set a \<Longrightarrow> c \<notin> set b \<Longrightarrow> a = b \<and> s = t"
proof (induction a arbitrary: b)
  case Nil
  then show ?case by (cases b) auto
next
  case (Cons x a)
  then show ?case by (cases b) auto
qed

section \<open>Bytes of a string\<close>

definition char_code :: "char \<Rightarrow> nat" where
  "char_code c = of_char c"

definition hex_digit :: "nat \<Rightarrow> char" where
  "hex_digit d = (if d < 10 then char_of (48 + d) else char_of (87 + d))"

text \<open>\<open>hex.EncodeToString\<close>, which is also the verb \<open>%x\<close> on bytes.\<close>

definition EncodeToString :: "byte list \<Rightarrow> string" where
  "EncodeToString b = concat (map (\<lambda>x. [hex_digit (unat x div 16), hex_digit (unat x mod 16)]) b)"

lemma byte_less: "unat (x :: byte) < 256"
proof -
  have "unat x < 2 ^ LENGTH(8)" by (rule unsigned_less)
  then show ?thesis by simp
qed

section \<open>Signed 64-bit integers\<close>

text \<open>The value of an \<open>int\<close> expression after wrap-around at 64 bits.\<close>

definition wrap64 :: "int \<Rightarrow> int" where
  "wrap64 k = signed_take_bit 63 k"

lemma wrap64_id [simp]: "- (2 ^ 63) \<le> k \<Longrightarrow> k < 2 ^ 63 \<Longrightarrow> wrap64 k = k"
  by (simp add: wrap64_def signed_take_bit_int_eq_self)

text \<open>Go's \<open>/\<close> and \<open>%\<close> truncate towards zero: the library's \<open>sdiv\<close> and \<open>smod\<close>.\<close>

lemma sdiv_nonneg: "0 \<le> a \<Longrightarrow> 0 < b \<Longrightarrow> (a :: int) sdiv b = a div b"
  by (cases "a = 0") (simp_all add: signed_divide_int_def)

lemma smod_nonneg: "0 \<le> a \<Longrightarrow> 0 < b \<Longrightarrow> (a :: int) smod b = a mod b"
  by (cases "a = 0") (simp_all add: signed_modulo_int_def)

text \<open>A shift \<open>1 << k\<close> of a byte by an \<open>int\<close>: a negative count panics.\<close>

definition shl1_byte :: "int \<Rightarrow> byte outcome" where
  "shl1_byte k = (if k < 0 then Panic NegativeShift else Return (push_bit (nat k) 1))"

section \<open>Slices over a store of backing arrays\<close>

text \<open>
  A slice is a window into a backing array. Arrays live in a store indexed by addresses; address
  \<open>0\<close> is the nil pointer. A slice expression shares the array, \<open>append\<close> writes into the spare
  capacity when there is enough and allocates otherwise. The capacity of a reallocated array is
  left to the runtime by the language, so it is an argument (\<open>grow\<close>) of \<open>append\<close>.
\<close>

record slice =
  s_ptr :: nat
  s_off :: nat
  s_len :: nat
  s_cap :: nat

record 'a store =
  mem :: "nat \<Rightarrow> 'a list"
  next_addr :: nat

definition nil_slice :: slice where
  "nil_slice = \<lparr>s_ptr = 0, s_off = 0, s_len = 0, s_cap = 0\<rparr>"

definition wf_slice :: "'a store \<Rightarrow> slice \<Rightarrow> bool" where
  "wf_slice h s \<longleftrightarrow> s_ptr s < next_addr h \<and> s_len s \<le> s_cap s
     \<and> s_off s + s_cap s \<le> length (mem h (s_ptr s))"

text \<open>The elements a slice shows.\<close>

definition elems :: "'a store \<Rightarrow> slice \<Rightarrow> 'a list" where
  "elems h s = take (s_len s) (drop (s_off s) (mem h (s_ptr s)))"

text \<open>\<open>s[lo:hi]\<close>: the bounds are checked against the capacity, not the length.\<close>

definition reslice :: "slice \<Rightarrow> int \<Rightarrow> int \<Rightarrow> slice outcome" where
  "reslice s lo hi =
     (if 0 \<le> lo \<and> lo \<le> hi \<and> hi \<le> int (s_cap s)
      then Return (s\<lparr>s_off := s_off s + nat lo, s_len := nat (hi - lo), s_cap := s_cap s - nat lo\<rparr>)
      else Panic SliceOutOfRange)"

definition read_at :: "'a store \<Rightarrow> slice \<Rightarrow> int \<Rightarrow> 'a outcome" where
  "read_at h s i =
     (if 0 \<le> i \<and> i < int (s_len s) then Return (mem h (s_ptr s) ! (s_off s + nat i))
      else Panic IndexOutOfRange)"

definition write_at :: "'a store \<Rightarrow> slice \<Rightarrow> int \<Rightarrow> 'a \<Rightarrow> 'a store outcome" where
  "write_at h s i v =
     (if 0 \<le> i \<and> i < int (s_len s)
      then Return (h\<lparr>mem := (mem h)(s_ptr s := (mem h (s_ptr s))[s_off s + nat i := v])\<rparr>)
      else Panic IndexOutOfRange)"

text \<open>\<open>make([]T, n)\<close> with the zero value \<open>z\<close>.\<close>

definition make_list :: "'a \<Rightarrow> int \<Rightarrow> 'a list outcome" where
  "make_list z n = (if n < 0 then Panic MakeOutOfRange else Return (replicate (nat n) z))"

definition blit :: "'a list \<Rightarrow> nat \<Rightarrow> 'a list \<Rightarrow> 'a list" where
  "blit a k xs = take k a @ xs @ drop (k + length xs) a"

definition append_slice ::
  "(nat \<Rightarrow> nat \<Rightarrow> nat) \<Rightarrow> 'a \<Rightarrow> 'a store \<Rightarrow> slice \<Rightarrow> 'a list \<Rightarrow> 'a store \<times> slice" where
  "append_slice grow z h s xs =
     (let n = s_len s + length xs in
      if n \<le> s_cap s
      then (h\<lparr>mem := (mem h)(s_ptr s := blit (mem h (s_ptr s)) (s_off s + s_len s) xs)\<rparr>,
            s\<lparr>s_len := n\<rparr>)
      else let c = max n (grow (s_cap s) n) in
           (h\<lparr>mem := (mem h)(next_addr h := elems h s @ xs @ replicate (c - n) z),
              next_addr := Suc (next_addr h)\<rparr>,
            \<lparr>s_ptr = next_addr h, s_off = 0, s_len = n, s_cap = c\<rparr>))"

lemmas [slice_defs] = wf_slice_def elems_def reslice_def read_at_def write_at_def make_list_def

lemma length_blit [simp]: "k + length xs \<le> length a \<Longrightarrow> length (blit a k xs) = length a"
  by (simp add: blit_def)

lemma length_elems [simp]: "wf_slice h s \<Longrightarrow> length (elems h s) = s_len s"
  by (auto simp: wf_slice_def elems_def)

lemma read_at_elems:
  assumes "wf_slice h s" and "0 \<le> i" and "i < int (s_len s)"
  shows "read_at h s i = Return (elems h s ! nat i)"
  using assms by (auto simp: read_at_def elems_def wf_slice_def)

lemma write_at_elems:
  assumes "wf_slice h s" and "0 \<le> i" and "i < int (s_len s)"
  obtains h' where "write_at h s i v = Return h'" and "wf_slice h' s"
    and "elems h' s = (elems h s)[nat i := v]"
    and "\<forall>p. p \<noteq> s_ptr s \<longrightarrow> mem h' p = mem h p" and "next_addr h' = next_addr h"
proof
  let ?h = "h\<lparr>mem := (mem h)(s_ptr s := (mem h (s_ptr s))[s_off s + nat i := v])\<rparr>"
  show "write_at h s i v = Return ?h"
    using assms by (simp add: write_at_def)
  show "wf_slice ?h s"
    using assms by (simp add: wf_slice_def)
  show "elems ?h s = (elems h s)[nat i := v]"
    using assms by (auto simp: elems_def wf_slice_def take_update_swap drop_update_swap)
qed simp_all

text \<open>
  What \<open>append\<close> promises whichever way it goes: the result shows the old elements followed by the
  new ones, and it is a well-formed slice of the new store.
\<close>

lemma append_slice_elems:
  assumes "wf_slice h s" and "append_slice grow z h s xs = (h', s')"
  shows "elems h' s' = elems h s @ xs" and "wf_slice h' s'"
    and "s_len s' = s_len s + length xs"
  using assms
  by (auto simp: append_slice_def Let_def wf_slice_def elems_def blit_def take_add [symmetric]
        min_absorb2 drop_take split: if_splits)

section \<open>Strings\<close>

text \<open>Package \<open>strings\<close>, on byte strings.\<close>

definition HasPrefix :: "string \<Rightarrow> string \<Rightarrow> bool" where
  "HasPrefix s p = (take (length p) s = p)"

definition HasSuffix :: "string \<Rightarrow> string \<Rightarrow> bool" where
  "HasSuffix s p = (length p \<le> length s \<and> drop (length s - length p) s = p)"

fun Contains :: "string \<Rightarrow> string \<Rightarrow> bool" where
  "Contains [] p = (p = [])"
| "Contains (c # s) p = (HasPrefix (c # s) p \<or> Contains s p)"

lemma HasPrefix_iff: "HasPrefix s p \<longleftrightarrow> (\<exists>t. s = p @ t)"
  unfolding HasPrefix_def by (metis append_eq_conv_conj append_take_drop_id)

lemma HasSuffix_iff: "HasSuffix s p \<longleftrightarrow> (\<exists>t. s = t @ p)"
proof
  assume h: "HasSuffix s p"
  then have "s = take (length s - length p) s @ p"
    unfolding HasSuffix_def by (metis append_take_drop_id)
  then show "\<exists>t. s = t @ p" by blast
qed (auto simp: HasSuffix_def)

lemma Contains_iff: "Contains s p \<longleftrightarrow> (\<exists>a b. s = a @ p @ b)"
proof (induction s)
  case Nil
  show ?case by auto
next
  case (Cons c s)
  have "(\<exists>a b. c # s = a @ p @ b) \<longleftrightarrow> (\<exists>b. c # s = p @ b) \<or> (\<exists>a b. s = a @ p @ b)"
    by (metis (no_types) Cons_eq_append_conv append_Cons append_Nil)
  then show ?case by (simp add: Cons.IH HasPrefix_iff)
qed

section \<open>Maps that are iterated over\<close>

text \<open>
  A Go map that the code ranges over is an association list with distinct keys; its order stands
  for the order of the iteration, which the language leaves open.
\<close>

lemma set_delete: "set (AList.delete k xs) = {(a, b) \<in> set xs. a \<noteq> k}"
  by (auto simp: AList.delete_eq)

lemma distinct_delete: "distinct (map f xs) \<Longrightarrow> distinct (map f (AList.delete k xs))"
  by (simp add: AList.delete_eq distinct_map_filter)

lemma distinct_snd_update:
  "distinct (map snd xs) \<Longrightarrow> v \<notin> snd ` set xs \<Longrightarrow> distinct (map snd (AList.update k v xs))"
proof (induction xs)
  case (Cons x xs)
  have "snd ` set (AList.update k v xs) \<subseteq> insert v (snd ` set xs)"
    by (induction xs) (auto split: if_splits)
  with Cons show ?case by (cases x) auto
qed simp

lemma update_mem:
  assumes "(a, b) \<in> set (AList.update k v xs)" and "distinct (map fst xs)"
  shows "(a, b) = (k, v) \<or> (a \<noteq> k \<and> (a, b) \<in> set xs)"
proof -
  have "distinct (map fst (AList.update k v xs))" using assms(2) by (rule distinct_update)
  with assms(1) have "map_of (AList.update k v xs) a = Some b" by simp
  then show ?thesis by (auto simp: update_conv' split: if_splits dest: map_of_SomeD)
qed

end
