(* ===== verification/Bytesutil.thy ===== *)
theory Bytesutil
  imports Prelude
begin

text \<open>
  Package \<open>bytesutil\<close> (\<open>bytesutil/bytes.go\<close>): fixed-width little- and big-endian encodings of
  integers, padding and truncation, and bit lists. Functions that only read their argument or
  return a freshly allocated slice work on byte lists; the ones that write through a slice of the
  caller (\<open>FromBytes4\<close>, \<open>PadTo\<close>, \<open>SetBit\<close>, \<open>ClearBit\<close>, \<open>ReverseBytes32Slice\<close>) work on the
  store, where sharing is visible. A nil slice is \<open>None\<close> where the code tells it from an empty one.
\<close>

section \<open>Package encoding/binary and builtin copy\<close>

text \<open>The eight bytes of an integer, least significant first.\<close>

definition le_bytes :: "uint64 \<Rightarrow> byte list" where
  "le_bytes x = map (\<lambda>k. ucast (drop_bit (8 * k) x)) [0..<8]"

primrec le_join :: "byte list \<Rightarrow> 'l::len word" where
  "le_join [] = 0"
| "le_join (b # bs) = ucast b OR push_bit 8 (le_join bs)"

definition LittleEndian_PutUint64 :: "byte list \<Rightarrow> uint64 \<Rightarrow> byte list outcome" where
  "LittleEndian_PutUint64 b x =
     (if length b < 8 then Panic IndexOutOfRange else Return (blit b 0 (le_bytes x)))"

definition LittleEndian_Uint64 :: "byte list \<Rightarrow> uint64 outcome" where
  "LittleEndian_Uint64 b =
     (if length b < 8 then Panic IndexOutOfRange else Return (le_join (take 8 b)))"

definition LittleEndian_Uint16 :: "byte list \<Rightarrow> uint16 outcome" where
  "LittleEndian_Uint16 b =
     (if length b < 2 then Panic IndexOutOfRange else Return (le_join (take 2 b)))"

definition BigEndian_PutUint64 :: "byte list \<Rightarrow> uint64 \<Rightarrow> byte list outcome" where
  "BigEndian_PutUint64 b x =
     (if length b < 8 then Panic IndexOutOfRange else Return (blit b 0 (rev (le_bytes x))))"

definition BigEndian_Uint64 :: "byte list \<Rightarrow> uint64 outcome" where
  "BigEndian_Uint64 b =
     (if length b < 8 then Panic IndexOutOfRange else Return (le_join (rev (take 8 b))))"

text \<open>\<open>b[:hi]\<close> of a slice whose capacity is its length.\<close>

definition prefix_to :: "'a list \<Rightarrow> int \<Rightarrow> 'a list outcome" where
  "prefix_to b hi =
     (if 0 \<le> hi \<and> hi \<le> int (length b) then Return (take (nat hi) b) else Panic SliceOutOfRange)"

definition go_copy :: "'a list \<Rightarrow> 'a list \<Rightarrow> 'a list" where
  "go_copy dst src = take (length dst) src @ drop (length src) dst"

lemmas [go_defs] = LittleEndian_PutUint64_def LittleEndian_Uint64_def LittleEndian_Uint16_def
  BigEndian_PutUint64_def BigEndian_Uint64_def prefix_to_def go_copy_def blit_def make_list_def

section \<open>Integers to bytes and back\<close>

definition ToBytes :: "uint64 \<Rightarrow> int \<Rightarrow> byte list outcome" where
  "ToBytes x length' =
     (let makeLength = (if length' < 8 then 8 else length') in
      outcome_bind (make_list 0 makeLength) (\<lambda>bytes.
      outcome_bind (LittleEndian_PutUint64 bytes x) (\<lambda>bytes.
      prefix_to bytes length')))"

definition Bytes1 :: "uint64 \<Rightarrow> byte list outcome" where
  "Bytes1 x =
     outcome_bind (make_list 0 8) (\<lambda>bytes.
     outcome_bind (LittleEndian_PutUint64 bytes x) (\<lambda>bytes. prefix_to bytes 1))"

definition Bytes2 :: "uint64 \<Rightarrow> byte list outcome" where
  "Bytes2 x =
     outcome_bind (make_list 0 8) (\<lambda>bytes.
     outcome_bind (LittleEndian_PutUint64 bytes x) (\<lambda>bytes. prefix_to bytes 2))"

definition Bytes3 :: "uint64 \<Rightarrow> byte list outcome" where
  "Bytes3 x =
     outcome_bind (make_list 0 8) (\<lambda>bytes.
     outcome_bind (LittleEndian_PutUint64 bytes x) (\<lambda>bytes. prefix_to bytes 3))"

definition Bytes4 :: "uint64 \<Rightarrow> byte list outcome" where
  "Bytes4 x =
     outcome_bind (make_list 0 8) (\<lambda>bytes.
     outcome_bind (LittleEndian_PutUint64 bytes x) (\<lambda>bytes. prefix_to bytes 4))"

definition Bytes8 :: "uint64 \<Rightarrow> byte list outcome" where
  "Bytes8 x = outcome_bind (make_list 0 8) (\<lambda>bytes. LittleEndian_PutUint64 bytes x)"

definition Bytes32 :: "uint64 \<Rightarrow> byte list outcome" where
  "Bytes32 x = outcome_bind (make_list 0 32) (\<lambda>bytes. LittleEndian_PutUint64 bytes x)"

text \<open>
  \<open>FromBytes4\<close> appends four zero bytes to \<open>x[:4]\<close>: with spare capacity the append lands in the
  caller's array.
\<close>

definition FromBytes4 ::
  "(nat \<Rightarrow> nat \<Rightarrow> nat) \<Rightarrow> byte store \<Rightarrow> slice \<Rightarrow> (byte store \<times> uint64) outcome" where
  "FromBytes4 grow h x =
     outcome_bind (make_list 0 4) (\<lambda>empty4bytes.
     outcome_bind (reslice x 0 4) (\<lambda>x4.
       let (h', y) = append_slice grow 0 h x4 empty4bytes in
       outcome_bind (LittleEndian_Uint64 (elems h' y)) (\<lambda>v. Return (h', v))))"

definition FromBytes8 :: "byte list \<Rightarrow> uint64 outcome" where
  "FromBytes8 x = LittleEndian_Uint64 x"

definition ToBytes4 :: "byte list \<Rightarrow> byte list" where
  "ToBytes4 x = go_copy (replicate 4 0) x"

definition ToBytes32 :: "byte list \<Rightarrow> byte list" where
  "ToBytes32 x = go_copy (replicate 32 0) x"

definition ToBytes48 :: "byte list \<Rightarrow> byte list" where
  "ToBytes48 x = go_copy (replicate 48 0) x"

definition ToBytes64 :: "byte list \<Rightarrow> byte list" where
  "ToBytes64 x = go_copy (replicate 64 0) x"

definition ToBool :: "byte \<Rightarrow> bool" where
  "ToBool x \<longleftrightarrow> x AND 1 = 1"

text \<open>The argument's capacity beyond its length decides whether \<open>x[:2]\<close> panics.\<close>

definition FromBytes2 :: "byte store \<Rightarrow> slice \<Rightarrow> uint16 outcome" where
  "FromBytes2 h x = outcome_bind (reslice x 0 2) (\<lambda>y. LittleEndian_Uint16 (elems h y))"

definition FromBool :: "bool \<Rightarrow> byte" where
  "FromBool x = (if x then 1 else 0)"

definition FromBytes48 :: "byte list \<Rightarrow> byte list" where
  "FromBytes48 x = x"

definition FromBytes48Array :: "byte list list \<Rightarrow> byte list list" where
  "FromBytes48Array x = map (\<lambda>i. x ! i) [0..<length x]"

definition Trunc :: "byte list \<Rightarrow> byte list" where
  "Trunc x = (if length x > 6 then take 6 x else x)"

definition ToLowInt64 :: "byte list \<Rightarrow> int outcome" where
  "ToLowInt64 x =
     (let x = (if length x > 8 then take 8 x else x) in
      outcome_bind (LittleEndian_Uint64 x) (\<lambda>v. Return (sint v)))"

definition SafeCopyBytes :: "byte list option \<Rightarrow> byte list option" where
  "SafeCopyBytes cp =
     (case cp of
        Some cp \<Rightarrow> (let copied = replicate (length cp) 0 in Some (go_copy copied cp))
      | None \<Rightarrow> None)"

definition Copy2dBytes :: "byte list option list option \<Rightarrow> byte list option list option" where
  "Copy2dBytes ary = (case ary of Some ary \<Rightarrow> Some (map SafeCopyBytes ary) | None \<Rightarrow> None)"

text \<open>The loop of \<open>ReverseBytes32Slice\<close>: swap \<open>arr[i]\<close> and \<open>arr[j]\<close>, move inwards.\<close>

function reverse_loop :: "'a store \<Rightarrow> slice \<Rightarrow> int \<Rightarrow> int \<Rightarrow> 'a store outcome" where
  "reverse_loop h arr i j =
     (if i < j then
        outcome_bind (read_at h arr j) (\<lambda>aj.
        outcome_bind (read_at h arr i) (\<lambda>ai.
        outcome_bind (write_at h arr i aj) (\<lambda>h.
        outcome_bind (write_at h arr j ai) (\<lambda>h.
        reverse_loop h arr (i + 1) (j - 1)))))
      else Return h)"
  by pat_completeness auto
termination
  by (relation "measure (\<lambda>(h, arr, i, j). nat (j - i))") auto

declare reverse_loop.simps [simp del]

definition ReverseBytes32Slice ::
  "byte list store \<Rightarrow> slice \<Rightarrow> (byte list store \<times> slice) outcome" where
  "ReverseBytes32Slice h arr =
     outcome_bind (reverse_loop h arr 0 (int (s_len arr) - 1)) (\<lambda>h. Return (h, arr))"

definition PadTo ::
  "(nat \<Rightarrow> nat \<Rightarrow> nat) \<Rightarrow> byte store \<Rightarrow> slice \<Rightarrow> int \<Rightarrow> (byte store \<times> slice) outcome" where
  "PadTo grow h b size' =
     (if int (s_len b) > size' then Return (h, b)
      else outcome_bind (make_list 0 (size' - int (s_len b))) (\<lambda>z. Return (append_slice grow 0 h b z)))"

section \<open>Bit lists\<close>

definition SetBit ::
  "(nat \<Rightarrow> nat \<Rightarrow> nat) \<Rightarrow> byte store \<Rightarrow> slice \<Rightarrow> int \<Rightarrow> (byte store \<times> slice) outcome" where
  "SetBit grow h b i =
     outcome_bind
       (if i \<ge> int (s_len b) * 8 then
          let n = wrap64 (i + (8 - i smod 8)) sdiv 8 in
          outcome_bind (make_list 0 (n - int (s_len b))) (\<lambda>z. Return (append_slice grow 0 h b z))
        else Return (h, b))
       (\<lambda>(h, b).
     outcome_bind (shl1_byte (i smod 8)) (\<lambda>bit.
     outcome_bind (read_at h b (i sdiv 8)) (\<lambda>v.
     outcome_bind (write_at h b (i sdiv 8) (v OR bit)) (\<lambda>h. Return (h, b)))))"

definition ClearBit :: "byte store \<Rightarrow> slice \<Rightarrow> int \<Rightarrow> (byte store \<times> slice) outcome" where
  "ClearBit h b i =
     (if i \<ge> int (s_len b) * 8 then Return (h, b)
      else
        outcome_bind (shl1_byte (i smod 8)) (\<lambda>bit.
        outcome_bind (read_at h b (i sdiv 8)) (\<lambda>v.
        outcome_bind (write_at h b (i sdiv 8) (v AND NOT bit)) (\<lambda>h. Return (h, b)))))"

definition MakeEmptyBitlists :: "int \<Rightarrow> byte list outcome" where
  "MakeEmptyBitlists i = make_list 0 (wrap64 (i + (8 - i smod 8)) sdiv 8)"

text \<open>\<open>bits.Len8\<close>: the number of bits needed to represent the byte.\<close>

fun bit_len :: "nat \<Rightarrow> nat" where
  "bit_len n = (if n = 0 then 0 else Suc (bit_len (n div 2)))"

declare bit_len.simps [simp del]

definition Len8 :: "byte \<Rightarrow> nat" where
  "Len8 x = bit_len (unat x)"

text \<open>The loops run from index \<open>n - 1\<close> down to \<open>0\<close>.\<close>

fun highest_loop :: "byte list \<Rightarrow> nat \<Rightarrow> int" where
  "highest_loop b 0 = 0"
| "highest_loop b (Suc i) = (if b ! i = 0 then highest_loop b i else int (Len8 (b ! i) + i * 8))"

definition HighestBitIndex :: "byte list \<Rightarrow> string + int" where
  "HighestBitIndex b =
     (if length b = 0 then Inl ''input list can't be empty or nil''
      else Inr (highest_loop b (length b)))"

fun highest_at_loop :: "byte list \<Rightarrow> int \<Rightarrow> byte \<Rightarrow> nat \<Rightarrow> int" where
  "highest_at_loop b index msk 0 = 0"
| "highest_at_loop b index msk (Suc i) =
     (let msk = (if index sdiv 8 > int i then 255 else msk);
          masked = b ! i AND msk;
          minBitsMasked = Len8 masked in
      if b ! i = 0 \<or> (minBitsMasked = 0 \<and> index sdiv 8 \<le> int i)
      then highest_at_loop b index msk i
      else int (minBitsMasked + i * 8))"

definition HighestBitIndexAt :: "byte list option \<Rightarrow> int \<Rightarrow> (string + int) outcome" where
  "HighestBitIndexAt b index =
     (case b of
        None \<Rightarrow> Return (Inl ''input list can't be empty or nil'')
      | Some b \<Rightarrow>
          if length b = 0 then Return (Inl ''input list can't be empty or nil'')
          else
            let start = index sdiv 8;
                start = (if start \<ge> int (length b) then int (length b) - 1 else start) in
            outcome_bind (shl1_byte (index smod 8)) (\<lambda>m.
            Return (Inr (highest_at_loop b index (m - 1) (nat (start + 1))))))"

section \<open>Conversions\<close>

definition Uint64ToBytesLittleEndian :: "uint64 \<Rightarrow> byte list outcome" where
  "Uint64ToBytesLittleEndian i =
     outcome_bind (make_list 0 8) (\<lambda>buf. LittleEndian_PutUint64 buf i)"

definition Uint64ToBytesBigEndian :: "uint64 \<Rightarrow> byte list outcome" where
  "Uint64ToBytesBigEndian i = outcome_bind (make_list 0 8) (\<lambda>buf. BigEndian_PutUint64 buf i)"

definition BytesToUint64BigEndian :: "byte list \<Rightarrow> uint64 outcome" where
  "BytesToUint64BigEndian b = (if length b < 8 then Return 0 else BigEndian_Uint64 b)"

section \<open>Byte order lemmas\<close>

lemma length_le_bytes [simp]: "length (le_bytes x) = 8"
  by (simp add: le_bytes_def)

lemma nth_le_bytes [simp]: "k < 8 \<Longrightarrow> le_bytes x ! k = ucast (drop_bit (8 * k) x)"
  by (simp add: le_bytes_def)

lemma bit_le_join:
  "bit (le_join bs :: 'l::len word) n \<longleftrightarrow>
     n < LENGTH('l) \<and> n div 8 < length bs \<and> bit (bs ! (n div 8)) (n mod 8)"
proof (induction bs arbitrary: n)
  case Nil
  show ?case by simp
next
  case (Cons b bs)
  show ?case
  proof (cases "n < 8")
    case True
    then show ?thesis
      by (auto simp: bit_or_iff bit_push_bit_iff bit_ucast_iff)
  next
    case False
    then have "n div 8 = Suc ((n - 8) div 8)" and "(n - 8) mod 8 = n mod 8"
      by (simp_all add: le_div_geq le_mod_geq)
    moreover have "\<not> bit b n"
      using False bit_imp_le_length [of b n] by auto
    ultimately show ?thesis
      using False Cons.IH [of "n - 8"] by (auto simp: bit_or_iff bit_push_bit_iff bit_ucast_iff)
  qed
qed

text \<open>Joining the first \<open>k\<close> bytes of an integer keeps its low \<open>8 * k\<close> bits.\<close>

lemma le_join_take_le_bytes: "le_join (take k (le_bytes x)) = take_bit (8 * k) x"
proof (rule bit_word_eqI)
  fix n assume "n < LENGTH(64)"
  then have n: "n div 8 < 8" by simp
  have "n mod 8 < 8" by simp
  moreover have "8 * (n div 8) + n mod 8 = n" by simp
  moreover have "n div 8 < k \<longleftrightarrow> n < 8 * k" by (simp add: div_less_iff_less_mult mult.commute)
  ultimately show "bit (le_join (take k (le_bytes x)) :: uint64) n \<longleftrightarrow> bit (take_bit (8 * k) x) n"
    using n \<open>n < LENGTH(64)\<close>
    by (auto simp: bit_le_join bit_take_bit_iff bit_ucast_iff bit_drop_bit_eq min_def)
qed

lemma le_join_le_bytes: "le_join (le_bytes x) = x"
  using le_join_take_le_bytes [of 8 x] take_bit_length_eq [of x] by simp

lemma le_join_append_zeros: "le_join (bs @ replicate n 0) = le_join bs"
  by (rule bit_word_eqI) (auto simp: bit_le_join nth_append)

lemma le_bytes_le_join: "length bs = 8 \<Longrightarrow> le_bytes (le_join bs) = bs"
proof (rule nth_equalityI)
  fix k assume bs: "length bs = 8" and "k < length (le_bytes (le_join bs))"
  then have k: "k < 8" by simp
  have "ucast (drop_bit (8 * k) (le_join bs :: uint64)) = bs ! k"
  proof (rule bit_word_eqI)
    fix n assume n: "n < LENGTH(8)"
    then have "(8 * k + n) div 8 = k" and "(8 * k + n) mod 8 = n" by simp_all
    moreover have "8 * k + n < 64" using k n by simp
    ultimately show "bit (ucast (drop_bit (8 * k) (le_join bs :: uint64)) :: byte) n \<longleftrightarrow> bit (bs ! k) n"
      using bs k n by (simp add: bit_ucast_iff bit_drop_bit_eq bit_le_join)
  qed
  then show "le_bytes (le_join bs) ! k = bs ! k" using k by simp
qed simp

section \<open>Behaviour of the encoders\<close>

lemma ToBytes_eq:
  "ToBytes x n =
     (if n < 0 then Panic SliceOutOfRange
      else Return (take (nat n) (le_bytes x @ replicate (nat n - 8) 0)))"
  by (auto simp: ToBytes_def go_defs Let_def nat_le_iff min_def)

lemma Bytes8_eq [simp]: "Bytes8 x = Return (le_bytes x)"
  by (simp add: Bytes8_def go_defs)

lemma LittleEndian_Uint64_le_bytes:
  "LittleEndian_Uint64 (le_bytes x @ zs) = Return x"
  by (simp add: LittleEndian_Uint64_def le_join_le_bytes)

text \<open>
  \<open>ToBytes\<close> with a length of at least 0 returns exactly that many bytes, which hold the low
  \<open>8 * n\<close> bits of the integer in little-endian order, so \<open>FromBytes8\<close> gives the integer back when
  the length is 8 or more; a negative length panics.
\<close>

theorem ToBytes_correct:
  "if n < 0 then ToBytes x n = Panic SliceOutOfRange
   else \<exists>bs. ToBytes x n = Return bs \<and> length bs = nat n
     \<and> le_join bs = take_bit (8 * nat n) x
     \<and> (8 \<le> n \<longrightarrow> FromBytes8 bs = Return x)"
proof (cases "n < 0 \<or> n \<ge> 8")
  case True
  have "64 \<le> 8 * nat n \<Longrightarrow> take_bit (8 * nat n) x = x"
    by (rule take_bit_word_eq_self) simp
  with True show ?thesis
    by (auto simp: ToBytes_eq le_join_append_zeros le_join_le_bytes FromBytes8_def
        LittleEndian_Uint64_le_bytes)
next
  case False
  then show ?thesis
    by (auto simp: ToBytes_eq le_join_append_zeros le_join_take_le_bytes)
qed

theorem ToBytes_correct_witness:
  "\<exists>bs. ToBytes 258 10 = Return bs \<and> length bs = 10 \<and> FromBytes8 bs = Return 258"
  using ToBytes_correct [of 10 258] by auto

text \<open>
  The big-endian encoder and decoder are inverse to each other, and the decoder returns 0
  instead of panicking on fewer than eight bytes.
\<close>

theorem BigEndian_roundtrip:
  "(\<exists>bs. Uint64ToBytesBigEndian x = Return bs \<and> length bs = 8 \<and> BytesToUint64BigEndian bs = Return x)
   \<and> (length b < 8 \<longrightarrow> BytesToUint64BigEndian b = Return 0)
   \<and> (length b = 8 \<longrightarrow> (\<exists>y. BytesToUint64BigEndian b = Return y
        \<and> Uint64ToBytesBigEndian y = Return b))"
proof -
  have enc: "Uint64ToBytesBigEndian y = Return (rev (le_bytes y))" for y
    by (simp add: Uint64ToBytesBigEndian_def go_defs)
  have "rev (le_bytes (le_join (rev b))) = b" if "length b = 8"
    using that le_bytes_le_join [of "rev b"] by simp
  then show ?thesis
    by (simp add: enc BytesToUint64BigEndian_def BigEndian_Uint64_def le_join_le_bytes)
qed

theorem BigEndian_roundtrip_witness:
  "BytesToUint64BigEndian [1, 2] = Return 0
   \<and> (\<exists>y. BytesToUint64BigEndian [1, 2, 3, 4, 5, 6, 7, 8] = Return y
        \<and> Uint64ToBytesBigEndian y = Return [1, 2, 3, 4, 5, 6, 7, 8])"
  using BigEndian_roundtrip [of 0 "[1, 2]"] BigEndian_roundtrip [of 0 "[1, 2, 3, 4, 5, 6, 7, 8]"]
  by simp

section \<open>Writes through the argument: FromBytes4, PadTo, ReverseBytes32Slice\<close>

text \<open>
  \<open>FromBytes4\<close> reads the little-endian value of the first four bytes, but when the slice has
  spare capacity for eight bytes it overwrites bytes 4 to 7 of the caller's backing array with zero;
  only a slice whose capacity is below eight is left as it was.
\<close>

theorem FromBytes4_clobbers:
  assumes "wf_slice h x" and "4 \<le> s_cap x"
  shows "\<exists>h'. FromBytes4 grow h x = Return (h', le_join (take 4 (drop (s_off x) (mem h (s_ptr x)))))
    \<and> (if s_cap x < 8 then \<forall>p < next_addr h. mem h' p = mem h p
       else mem h' (s_ptr x) = blit (mem h (s_ptr x)) (s_off x + 4) [0, 0, 0, 0])"
proof -
  let ?x4 = "x\<lparr>s_len := 4\<rparr>"
  obtain h' y where app: "append_slice grow 0 h ?x4 (replicate 4 0) = (h', y)"
    by fastforce
  have wf: "wf_slice h ?x4"
    using assms by (simp add: wf_slice_def)
  have el: "elems h' y = take 4 (drop (s_off x) (mem h (s_ptr x))) @ replicate 4 0"
    using append_slice_elems(1) [OF wf app] by (simp add: elems_def)
  have len: "length (take 4 (drop (s_off x) (mem h (s_ptr x)))) = 4"
    using assms by (auto simp: wf_slice_def)
  have "FromBytes4 grow h x = Return (h', le_join (take 4 (drop (s_off x) (mem h (s_ptr x)))))"
    using assms app el len
    by (simp add: FromBytes4_def reslice_def make_list_def LittleEndian_Uint64_def
        le_join_append_zeros nat_eq_iff)
  moreover have "if s_cap x < 8 then \<forall>p < next_addr h. mem h' p = mem h p
       else mem h' (s_ptr x) = blit (mem h (s_ptr x)) (s_off x + 4) [0, 0, 0, 0]"
    using app by (auto simp: append_slice_def Let_def numeral_eq_Suc split: if_splits)
  ultimately show ?thesis by blast
qed

theorem FromBytes4_clobbers_witness:
  "\<exists>h'. FromBytes4 (\<lambda>_ n. n) \<lparr>mem = (\<lambda>_. [])(1 := [1, 0, 0, 0, 5, 6, 7, 8]), next_addr = 2\<rparr>
       \<lparr>s_ptr = 1, s_off = 0, s_len = 8, s_cap = 8\<rparr> = Return (h', 1)
     \<and> mem h' 1 = [1, 0, 0, 0, 0, 0, 0, 0]"
proof -
  let ?h = "\<lparr>mem = (\<lambda>_. [])(1 := [1, 0, 0, 0, 5, 6, 7, 8 :: byte]), next_addr = 2\<rparr>"
  let ?x = "\<lparr>s_ptr = 1, s_off = 0, s_len = 8, s_cap = 8\<rparr>"
  have "wf_slice ?h ?x" and "4 \<le> s_cap ?x" by (simp_all add: wf_slice_def)
  from FromBytes4_clobbers [OF this, of "\<lambda>_ n. n"] show ?thesis by (simp add: blit_def)
qed

text \<open>One swap of the reversal loop, on the list the slice shows.\<close>

lemma swap_step:
  assumes "wf_slice h s" and "0 \<le> i" and "i < j" and "j < int (s_len s)"
  obtains h' where "wf_slice h' s"
    and "elems h' s = (elems h s)[nat i := elems h s ! nat j, nat j := elems h s ! nat i]"
    and "\<forall>p. p \<noteq> s_ptr s \<longrightarrow> mem h' p = mem h p"
    and "reverse_loop h s i j = reverse_loop h' s (i + 1) (j - 1)"
proof -
  have ij: "0 \<le> j" "i < int (s_len s)" using assms by simp_all
  obtain h1 where h1: "write_at h s i (elems h s ! nat j) = Return h1" "wf_slice h1 s"
      "elems h1 s = (elems h s)[nat i := elems h s ! nat j]" "\<forall>p. p \<noteq> s_ptr s \<longrightarrow> mem h1 p = mem h p"
    using write_at_elems [OF assms(1,2) ij(2)] by metis
  obtain h2 where h2: "write_at h1 s j (elems h s ! nat i) = Return h2" "wf_slice h2 s"
      "elems h2 s = (elems h1 s)[nat j := elems h s ! nat i]" "\<forall>p. p \<noteq> s_ptr s \<longrightarrow> mem h2 p = mem h1 p"
    using write_at_elems [OF h1(2) ij(1) assms(4)] by metis
  show thesis
  proof (rule that)
    show "reverse_loop h s i j = reverse_loop h2 s (i + 1) (j - 1)"
      using assms ij h1(1) h2(1)
      by (subst reverse_loop.simps) (simp add: read_at_elems)
  qed (use h1 h2 in auto)
qed

lemma reverse_loop_elems:
  assumes "wf_slice h s" and "i + j = int (s_len s) - 1" and "0 \<le> i" and "i \<le> j + 1"
  shows "\<exists>h'. reverse_loop h s i j = Return h' \<and> wf_slice h' s
    \<and> (\<forall>p. p \<noteq> s_ptr s \<longrightarrow> mem h' p = mem h p)
    \<and> elems h' s = map (\<lambda>k. if int k < i \<or> j < int k then elems h s ! k
                            else elems h s ! (s_len s - 1 - k)) [0..<s_len s]"
  using assms
proof (induction "nat (j - i)" arbitrary: h i j rule: less_induct)
  case less
  show ?case
  proof (cases "i < j")
    case False
    have "elems h s = map (\<lambda>k. if int k < i \<or> j < int k then elems h s ! k
                            else elems h s ! (s_len s - 1 - k)) [0..<s_len s]"
      by (rule nth_equalityI) (use less.prems False in \<open>auto intro!: arg_cong [where f = "nth _"]\<close>)
    with False less.prems show ?thesis by (subst reverse_loop.simps) simp
  next
    case True
    with less.prems have j: "j < int (s_len s)" by simp
    obtain h1 where h1: "wf_slice h1 s" "\<forall>p. p \<noteq> s_ptr s \<longrightarrow> mem h1 p = mem h p"
        "reverse_loop h s i j = reverse_loop h1 s (i + 1) (j - 1)"
      and el: "elems h1 s = (elems h s)[nat i := elems h s ! nat j, nat j := elems h s ! nat i]"
      using swap_step [OF less.prems(1,3) True j] by metis
    obtain h2 where h2: "reverse_loop h1 s (i + 1) (j - 1) = Return h2" "wf_slice h2 s"
      "\<forall>p. p \<noteq> s_ptr s \<longrightarrow> mem h2 p = mem h1 p"
      and el2: "elems h2 s = map (\<lambda>k. if int k < i + 1 \<or> j - 1 < int k then elems h1 s ! k
                            else elems h1 s ! (s_len s - 1 - k)) [0..<s_len s]"
      using less.hyps [of "j - 1" "i + 1" h1] True less.prems h1(1) by auto
    have "elems h2 s = map (\<lambda>k. if int k < i \<or> j < int k then elems h s ! k
                            else elems h s ! (s_len s - 1 - k)) [0..<s_len s]"
      unfolding el2
    proof (rule map_cong [OF refl])
      fix k assume "k \<in> set [0..<s_len s]"
      then have k: "k < s_len s" by simp
      have len: "length (elems h s) = s_len s" using less.prems by simp
      have mirror: "nat j = s_len s - 1 - nat i" "nat i = s_len s - 1 - nat j"
        using less.prems by linarith+
      consider "int k < i \<or> j < int k" | "k = nat i" | "k = nat j" | "i < int k" "int k < j"
        using less.prems by linarith
      then show "(if int k < i + 1 \<or> j - 1 < int k then elems h1 s ! k
              else elems h1 s ! (s_len s - 1 - k))
          = (if int k < i \<or> j < int k then elems h s ! k else elems h s ! (s_len s - 1 - k))"
      proof cases
        case 1
        then have "k \<noteq> nat i" "k \<noteq> nat j" "int k < i + 1 \<or> j - 1 < int k"
          using less.prems True by linarith+
        with 1 show ?thesis by (simp add: el)
      next
        case 2
        then have "\<not> (int k < i \<or> j < int k)" "int k < i + 1" "nat j \<noteq> k" "k < length (elems h s)"
          using less.prems True j len by linarith+
        with mirror(1) 2 show ?thesis by (simp add: el)
      next
        case 3
        then have "\<not> (int k < i \<or> j < int k)" "j - 1 < int k" "k < length (elems h s)"
          using less.prems True j len by linarith+
        with mirror(2) 3 show ?thesis by (simp add: el)
      next
        case 4
        then have "s_len s - 1 - k \<noteq> nat i" "s_len s - 1 - k \<noteq> nat j"
          using less.prems by linarith+
        with 4 show ?thesis by (simp add: el)
      qed
    qed
    with h1 h2 show ?thesis by auto
  qed
qed

text \<open>
  \<open>ReverseBytes32Slice\<close> returns the slice it was given, now showing its elements in reverse
  order, never panics, and writes to no other array.
\<close>

theorem ReverseBytes32Slice_correct:
  assumes "wf_slice h arr"
  shows "\<exists>h'. ReverseBytes32Slice h arr = Return (h', arr) \<and> elems h' arr = rev (elems h arr)
    \<and> (\<forall>p. p \<noteq> s_ptr arr \<longrightarrow> mem h' p = mem h p)"
proof -
  obtain h' where h': "reverse_loop h arr 0 (int (s_len arr) - 1) = Return h'"
      "\<forall>p. p \<noteq> s_ptr arr \<longrightarrow> mem h' p = mem h p"
    and el: "elems h' arr = map (\<lambda>k. if int k < 0 \<or> int (s_len arr) - 1 < int k then elems h arr ! k
                  else elems h arr ! (s_len arr - 1 - k)) [0..<s_len arr]"
    using reverse_loop_elems [OF assms, of 0 "int (s_len arr) - 1"] by auto
  have "elems h' arr = rev (elems h arr)"
    by (rule nth_equalityI) (use assms in \<open>auto simp: el rev_nth\<close>)
  with h' show ?thesis by (simp add: ReverseBytes32Slice_def)
qed

theorem ReverseBytes32Slice_correct_witness:
  "\<exists>h'. ReverseBytes32Slice \<lparr>mem = (\<lambda>_. [])(1 := [[1], [2], [3]]), next_addr = 2\<rparr>
       \<lparr>s_ptr = 1, s_off = 0, s_len = 3, s_cap = 3\<rparr>
     = Return (h', \<lparr>s_ptr = 1, s_off = 0, s_len = 3, s_cap = 3\<rparr>)
     \<and> elems h' \<lparr>s_ptr = 1, s_off = 0, s_len = 3, s_cap = 3\<rparr> = [[3], [2], [1]]"
  using ReverseBytes32Slice_correct [of "\<lparr>mem = (\<lambda>_. [])(1 := [[1], [2], [3]]), next_addr = 2\<rparr>"
      "\<lparr>s_ptr = 1, s_off = 0, s_len = 3, s_cap = 3\<rparr>"]
  by (auto simp: wf_slice_def elems_def)

section \<open>Bit lists\<close>

text \<open>The abstract value of a bit list: bit \<open>k\<close> is bit \<open>k mod 8\<close> of byte \<open>k div 8\<close>.\<close>

definition bit_at :: "byte list \<Rightarrow> nat \<Rightarrow> bool" where
  "bit_at b k \<longleftrightarrow> k div 8 < length b \<and> bit (b ! (k div 8)) (k mod 8)"

lemma bit_at_bound: "bit_at b k \<Longrightarrow> k < 8 * length b"
  unfolding bit_at_def by linarith

lemma bit_at_zeros [simp]: "\<not> bit_at (replicate n 0) k"
  by (simp add: bit_at_def)

lemma bit_at_append_zeros [simp]: "bit_at (b @ replicate n 0) k = bit_at b k"
  by (auto simp: bit_at_def nth_append)

lemma bit_mask_byte: "bit (2 ^ (i mod 8) :: byte) n \<longleftrightarrow> n = i mod 8"
  by (auto simp: bit_exp_iff)

lemma bit_position: "k div 8 = i div 8 \<and> k mod 8 = i mod 8 \<longleftrightarrow> k = (i :: nat)"
  by (metis div_mult_mod_eq)

lemma bit_at_or:
  "i div 8 < length b \<Longrightarrow>
   bit_at (b[i div 8 := b ! (i div 8) OR 2 ^ (i mod 8)]) k \<longleftrightarrow> k = i \<or> bit_at b k"
  using bit_position [of k i]
  by (auto simp: bit_at_def nth_list_update bit_or_iff bit_mask_byte)

lemma bit_at_and_not:
  "i div 8 < length b \<Longrightarrow>
   bit_at (b[i div 8 := b ! (i div 8) AND NOT (2 ^ (i mod 8))]) k \<longleftrightarrow> k \<noteq> i \<and> bit_at b k"
  using bit_position [of k i]
  by (auto simp: bit_at_def nth_list_update bit_and_iff bit_not_iff bit_mask_byte)

lemma grown_length:
  "0 \<le> i \<Longrightarrow> i < 2 ^ 62 \<Longrightarrow> wrap64 (i + (8 - i smod 8)) sdiv 8 = i div 8 + 1"
  by (simp add: smod_nonneg sdiv_nonneg) presburger

text \<open>Setting a bit inside the list.\<close>

lemma write_bit:
  assumes "wf_slice h b" and "0 \<le> i" and "i < int (s_len b) * 8"
  obtains h' where "wf_slice h' b"
    and "elems h' b = (elems h b)[nat i div 8 := f (elems h b ! (nat i div 8)) (push_bit (nat i mod 8) 1)]"
    and "outcome_bind (shl1_byte (i smod 8)) (\<lambda>bit.
         outcome_bind (read_at h b (i sdiv 8)) (\<lambda>v.
         outcome_bind (write_at h b (i sdiv 8) (f v bit)) (\<lambda>h. Return (h, b)))) = Return (h', b)"
proof -
  have idx: "0 \<le> i div 8" "i div 8 < int (s_len b)" using assms by auto
  have n: "nat (i div 8) = nat i div 8" "nat (i mod 8) = nat i mod 8"
    using assms(2) by (simp_all add: nat_div_distrib nat_mod_distrib)
  obtain h' where h': "write_at h b (i div 8) (f (elems h b ! nat (i div 8)) (push_bit (nat (i mod 8)) 1)) = Return h'"
      "wf_slice h' b"
      "elems h' b = (elems h b)[nat (i div 8) := f (elems h b ! nat (i div 8)) (push_bit (nat (i mod 8)) 1)]"
    by (rule write_at_elems [OF assms(1) idx])
  have sg: "i smod 8 = i mod 8" "i sdiv 8 = i div 8"
    using assms(2) by (simp_all add: smod_nonneg sdiv_nonneg)
  have sh: "shl1_byte (i mod 8) = Return (push_bit (nat (i mod 8)) 1)"
    by (simp add: shl1_byte_def not_less)
  show thesis
  proof (rule that [OF h'(2)])
    show "elems h' b = (elems h b)[nat i div 8 := f (elems h b ! (nat i div 8)) (push_bit (nat i mod 8) 1)]"
      using h'(3) unfolding n .
    show "outcome_bind (shl1_byte (i smod 8)) (\<lambda>bit.
         outcome_bind (read_at h b (i sdiv 8)) (\<lambda>v.
         outcome_bind (write_at h b (i sdiv 8) (f v bit)) (\<lambda>h. Return (h, b)))) = Return (h', b)"
      unfolding sg sh outcome_bind_simps read_at_elems [OF assms(1) idx] h'(1) ..
  qed
qed

lemma SetBit_spec:
  assumes "wf_slice h b" and "0 \<le> i" and "i < 2 ^ 62"
  shows "\<exists>h' b'. SetBit grow h b i = Return (h', b') \<and> wf_slice h' b'
    \<and> s_len b' = max (s_len b) (nat i div 8 + 1)
    \<and> (\<forall>k. bit_at (elems h' b') k \<longleftrightarrow> k = nat i \<or> bit_at (elems h b) k)"
proof -
  let ?n = "nat (i div 8 + 1 - int (s_len b))"
  define hb where "hb = (if i \<ge> int (s_len b) * 8 then append_slice grow 0 h b (replicate ?n 0) else (h, b))"
  obtain h1 b1 where hb1: "hb = (h1, b1)" by fastforce
  have n: "int (s_len b) * 8 \<le> i \<Longrightarrow> int (s_len b) \<le> i div 8" by simp
  have wf1: "wf_slice h1 b1" and len1: "s_len b1 = max (s_len b) (nat i div 8 + 1)"
    and bits1: "\<forall>k. bit_at (elems h1 b1) k = bit_at (elems h b) k"
    using hb1 assms n append_slice_elems [OF assms(1), of grow 0 "replicate ?n 0" h1 b1]
    by (auto simp: hb_def max_def nat_div_distrib split: if_splits)
  have in1: "i < int (s_len b1) * 8"
    using len1 assms(2) by (simp add: max_def) arith
  have idx: "nat i div 8 < length (elems h1 b1)"
    using wf1 len1 by simp
  obtain h2 where h2: "wf_slice h2 b1"
      "elems h2 b1 = (elems h1 b1)[nat i div 8 := elems h1 b1 ! (nat i div 8) OR push_bit (nat i mod 8) 1]"
      "outcome_bind (shl1_byte (i smod 8)) (\<lambda>bit.
         outcome_bind (read_at h1 b1 (i sdiv 8)) (\<lambda>v.
         outcome_bind (write_at h1 b1 (i sdiv 8) (v OR bit)) (\<lambda>h. Return (h, b1)))) = Return (h2, b1)"
    by (rule write_bit [OF wf1 assms(2) in1, where f = "(OR)"])
  have "SetBit grow h b i = Return (h2, b1)"
    using h2(3) hb1 n assms
    by (auto simp: SetBit_def hb_def grown_length make_list_def Let_def split: if_splits)
  then show ?thesis
    using h2 len1 bits1 idx by (auto simp: bit_at_or)
qed

text \<open>
  \<open>SetBit\<close> at an index of at least 0 returns a bit list in which exactly the bit at the index
  is new: it grows the list to hold the index when needed, never shrinks it and changes no other bit.
\<close>

theorem SetBit_correct:
  assumes "wf_slice h b" and "0 \<le> i" and "i < 2 ^ 62"
  shows "\<exists>h' b'. SetBit grow h b i = Return (h', b') \<and> wf_slice h' b'
    \<and> s_len b' = max (s_len b) (nat i div 8 + 1)
    \<and> (\<forall>k. bit_at (elems h' b') k \<longleftrightarrow> k = nat i \<or> bit_at (elems h b) k)"
  using assms by (rule SetBit_spec)

theorem SetBit_correct_witness:
  "\<exists>h' b'. SetBit (\<lambda>_ n. n) \<lparr>mem = (\<lambda>_. [])(1 := [5]), next_addr = 2\<rparr>
        \<lparr>s_ptr = 1, s_off = 0, s_len = 1, s_cap = 1\<rparr> 9 = Return (h', b') \<and> s_len b' = 2
     \<and> bit_at (elems h' b') 9"
  using SetBit_correct [of "\<lparr>mem = (\<lambda>_. [])(1 := [5]), next_addr = 2\<rparr>"
      "\<lparr>s_ptr = 1, s_off = 0, s_len = 1, s_cap = 1\<rparr>" 9 "\<lambda>_ n. n"]
  by (auto simp: wf_slice_def)

lemma ClearBit_spec:
  assumes "wf_slice h b" and "0 \<le> i"
  shows "\<exists>h'. ClearBit h b i = Return (h', b) \<and> wf_slice h' b
    \<and> (\<forall>k. bit_at (elems h' b) k \<longleftrightarrow> k \<noteq> nat i \<and> bit_at (elems h b) k)"
proof (cases "int (s_len b) * 8 \<le> i")
  case True
  then have "\<not> bit_at (elems h b) (nat i)"
    using assms by (simp add: bit_at_def) arith
  with True show ?thesis
    using assms by (auto simp: ClearBit_def)
next
  case False
  then have lt: "i < int (s_len b) * 8" by simp
  obtain h' where "wf_slice h' b"
      "elems h' b = (elems h b)[nat i div 8 := elems h b ! (nat i div 8) AND NOT (push_bit (nat i mod 8) 1)]"
      "outcome_bind (shl1_byte (i smod 8)) (\<lambda>bit.
         outcome_bind (read_at h b (i sdiv 8)) (\<lambda>v.
         outcome_bind (write_at h b (i sdiv 8) (v AND NOT bit)) (\<lambda>h. Return (h, b)))) = Return (h', b)"
    by (rule write_bit [OF assms lt, where f = "\<lambda>v bit. v AND NOT bit"])
  moreover have "nat i div 8 < length (elems h b)"
    using False assms by simp
  ultimately show ?thesis
    using False by (auto simp: ClearBit_def bit_at_and_not)
qed

text \<open>
  The contract of a growing bit set: what reading a bit gives after setting or clearing one. The
  client's lemmas below are proved from the contract alone.
\<close>

locale bit_set =
  fixes get :: "'s \<Rightarrow> nat \<Rightarrow> bool"
    and set_bit' :: "'s \<Rightarrow> nat \<Rightarrow> 's"
    and clear :: "'s \<Rightarrow> nat \<Rightarrow> 's"
    and ok :: "nat \<Rightarrow> bool"
    and inv :: "'s \<Rightarrow> bool"
  assumes inv_set: "inv s \<Longrightarrow> ok i \<Longrightarrow> inv (set_bit' s i)"
    and inv_clear: "inv s \<Longrightarrow> inv (clear s i)"
    and get_set: "inv s \<Longrightarrow> ok i \<Longrightarrow> get (set_bit' s i) k \<longleftrightarrow> k = i \<or> get s k"
    and get_clear: "inv s \<Longrightarrow> get (clear s i) k \<longleftrightarrow> k \<noteq> i \<and> get s k"
begin

lemma inv_fold_set: "inv s \<Longrightarrow> (\<forall>i \<in> set is. ok i) \<Longrightarrow> inv (foldl set_bit' s is)"
  by (induction "is" arbitrary: s) (auto intro: inv_set)

lemma get_fold_set:
  "inv s \<Longrightarrow> (\<forall>i \<in> set is. ok i) \<Longrightarrow> get (foldl set_bit' s is) k \<longleftrightarrow> k \<in> set is \<or> get s k"
  by (induction "is" arbitrary: s) (auto simp: get_set inv_set)

lemma get_fold_clear:
  "inv s \<Longrightarrow> get (foldl clear s js) k \<longleftrightarrow> k \<notin> set js \<and> get s k"
  by (induction js arbitrary: s) (auto simp: get_clear inv_clear)

lemma get_build:
  assumes "inv s" and "\<forall>i \<in> set is. ok i" and "\<And>k. \<not> get s k"
  shows "get (foldl clear (foldl set_bit' s is) js) k \<longleftrightarrow> k \<in> set is - set js"
  using assms by (auto simp: get_fold_clear get_fold_set inv_fold_set)

end

text \<open>The model as a state machine over (store, slice) pairs; a panic leaves the pair as it is.\<close>

definition apply_outcome :: "'s \<Rightarrow> 's outcome \<Rightarrow> 's" where
  "apply_outcome s r = (case r of Return t \<Rightarrow> t | Panic _ \<Rightarrow> s)"

definition set_bit_state ::
  "(nat \<Rightarrow> nat \<Rightarrow> nat) \<Rightarrow> byte store \<times> slice \<Rightarrow> nat \<Rightarrow> byte store \<times> slice" where
  "set_bit_state grow s i = apply_outcome s (SetBit grow (fst s) (snd s) (int i))"

definition clear_bit_state :: "byte store \<times> slice \<Rightarrow> nat \<Rightarrow> byte store \<times> slice" where
  "clear_bit_state s i = apply_outcome s (ClearBit (fst s) (snd s) (int i))"

definition get_bit_state :: "byte store \<times> slice \<Rightarrow> nat \<Rightarrow> bool" where
  "get_bit_state s k = bit_at (elems (fst s) (snd s)) k"

interpretation bitlist: bit_set get_bit_state "set_bit_state grow" clear_bit_state
  "\<lambda>i. int i < 2 ^ 62" "\<lambda>s. wf_slice (fst s) (snd s)" for grow
proof
  fix s :: "byte store \<times> slice" and i k :: nat
  assume wf: "wf_slice (fst s) (snd s)"
  obtain h' where h': "ClearBit (fst s) (snd s) (int i) = Return (h', snd s)" "wf_slice h' (snd s)"
      "\<forall>k. bit_at (elems h' (snd s)) k \<longleftrightarrow> k \<noteq> i \<and> bit_at (elems (fst s) (snd s)) k"
    using ClearBit_spec [OF wf, of "int i"] by simp blast
  show "wf_slice (fst (clear_bit_state s i)) (snd (clear_bit_state s i))"
    and "get_bit_state (clear_bit_state s i) k \<longleftrightarrow> k \<noteq> i \<and> get_bit_state s k"
    using h' by (simp_all add: clear_bit_state_def get_bit_state_def apply_outcome_def)
  assume i: "int i < 2 ^ 62"
  obtain h' b' where h': "SetBit grow (fst s) (snd s) (int i) = Return (h', b')" "wf_slice h' b'"
      "\<forall>k. bit_at (elems h' b') k \<longleftrightarrow> k = i \<or> bit_at (elems (fst s) (snd s)) k"
    using SetBit_spec [OF wf _ i, of grow] by simp blast
  show "wf_slice (fst (set_bit_state grow s i)) (snd (set_bit_state grow s i))"
    and "get_bit_state (set_bit_state grow s i) k \<longleftrightarrow> k = i \<or> get_bit_state s k"
    using h' by (simp_all add: set_bit_state_def get_bit_state_def apply_outcome_def)
qed

text \<open>A fresh bit list from \<open>MakeEmptyBitlists\<close>, placed in an empty store.\<close>

definition bitlist_state :: "byte list \<Rightarrow> byte store \<times> slice" where
  "bitlist_state b = (\<lparr>mem = (\<lambda>_. [])(1 := b), next_addr = 2\<rparr>,
                      \<lparr>s_ptr = 1, s_off = 0, s_len = length b, s_cap = length b\<rparr>)"

lemma bitlist_state_wf: "wf_slice (fst (bitlist_state b)) (snd (bitlist_state b))"
  by (simp add: bitlist_state_def wf_slice_def)

lemma elems_bitlist_state [simp]: "elems (fst (bitlist_state b)) (snd (bitlist_state b)) = b"
  by (simp add: bitlist_state_def elems_def)

text \<open>
  C29. Starting from the empty bit list of \<open>MakeEmptyBitlists\<close>, setting the bits of a list of
  indices (in any order, growing as needed) and then clearing the bits of another list leaves set
  exactly the indices of the first list that are not in the second.
\<close>

theorem bitlist_build:
  assumes "0 \<le> n" and "n < 2 ^ 62" and "\<forall>i \<in> set is. int i < 2 ^ 62"
  shows "\<exists>b. MakeEmptyBitlists n = Return b \<and> length b = nat n div 8 + 1 \<and>
    (\<forall>k. get_bit_state (foldl clear_bit_state (foldl (set_bit_state grow) (bitlist_state b) is) js) k
       \<longleftrightarrow> k \<in> set is - set js)"
proof -
  have len: "nat (n div 8 + 1) = nat n div 8 + 1"
    using assms(1) by (simp add: nat_add_distrib nat_div_distrib)
  let ?b = "replicate (nat n div 8 + 1) (0 :: byte)"
  have "MakeEmptyBitlists n = Return ?b"
    using assms by (simp add: MakeEmptyBitlists_def grown_length make_list_def len)
  moreover have "\<not> get_bit_state (bitlist_state ?b) k" for k
    unfolding get_bit_state_def elems_bitlist_state by (rule bit_at_zeros)
  ultimately show ?thesis
    using bitlist.get_build [OF bitlist_state_wf assms(3)] by auto
qed

theorem bitlist_build_witness:
  "\<exists>b. MakeEmptyBitlists 5 = Return b \<and> length b = 1 \<and>
    (\<forall>k. get_bit_state (foldl clear_bit_state
        (foldl (set_bit_state (\<lambda>_ n. n)) (bitlist_state b) [3, 20]) [3]) k \<longleftrightarrow> k \<in> {20})"
  using bitlist_build [of 5 "[3, 20]" "\<lambda>_ n. n" "[3]"] by auto

section \<open>The highest set bit\<close>

lemma bit_len_0 [simp]: "bit_len 0 = 0"
  by (simp add: bit_len.simps)

text \<open>\<open>bit_len n\<close> is one more than the position of the highest set bit.\<close>

lemma bit_len_highest:
  "0 < n \<Longrightarrow> 0 < bit_len n \<and> bit n (bit_len n - 1) \<and> (\<forall>k. bit n k \<longrightarrow> k < bit_len n)"
proof (induction n rule: bit_len.induct)
  case (1 n)
  show ?case
  proof (cases "n = 1")
    case True
    then show ?thesis
      by (simp add: bit_len.simps bit_Suc_0_iff)
  next
    case False
    with "1.prems" have pos: "0 < n div 2" by (simp add: div_greater_zero_iff)
    from pos have IH: "0 < bit_len (n div 2)" "bit (n div 2) (bit_len (n div 2) - 1)"
      "\<forall>k. bit (n div 2) k \<longrightarrow> k < bit_len (n div 2)"
      using "1.IH" "1.prems" by blast+
    have len: "bit_len n = Suc (bit_len (n div 2))"
      using "1.prems" by (simp add: bit_len.simps [of n])
    have "bit n (Suc (bit_len (n div 2) - 1))"
      using IH(2) by (simp add: bit_Suc)
    moreover have "k < bit_len n" if "bit n k" for k
      using that IH len by (cases k) (auto simp: bit_Suc)
    ultimately show ?thesis
      using len IH(1) by simp
  qed
qed

lemma bit_unat: "bit (unat (x :: byte)) n = bit x n"
  by (simp add: bit_unsigned_iff)

lemma Len8_0_iff [simp]: "Len8 x = 0 \<longleftrightarrow> x = 0"
  using bit_len_highest [of "unat x"] by (cases "x = 0") (auto simp: Len8_def unat_gt_0)

lemma Len8_highest:
  assumes "x \<noteq> 0"
  shows "0 < Len8 x" and "bit x (Len8 x - 1)" and "bit x k \<Longrightarrow> k < Len8 x" and "Len8 x \<le> 8"
proof -
  have h: "0 < Len8 x \<and> bit x (Len8 x - 1) \<and> (\<forall>k. bit x k \<longrightarrow> k < Len8 x)"
    using bit_len_highest [of "unat x"] assms by (simp add: Len8_def unat_gt_0 bit_unat)
  then show "0 < Len8 x" and "bit x (Len8 x - 1)" and "bit x k \<Longrightarrow> k < Len8 x" by blast+
  from h have "Len8 x - 1 < 8" using bit_imp_le_length [of x "Len8 x - 1"] by simp
  then show "Len8 x \<le> 8" by simp
qed

text \<open>
  The specification: the one-based position of the highest bit set among the bits below \<open>m\<close>, and
  0 if there is none.
\<close>

definition is_highest :: "byte list \<Rightarrow> nat \<Rightarrow> int \<Rightarrow> bool" where
  "is_highest b m r \<longleftrightarrow>
     (if \<exists>k < m. bit_at b k then 0 < r \<and> nat r - 1 < m \<and> bit_at b (nat r - 1)
        \<and> (\<forall>k < m. bit_at b k \<longrightarrow> int k < r)
      else r = 0)"

lemma is_highest_0 [simp]: "is_highest b 0 0"
  by (simp add: is_highest_def)

text \<open>Skipping positions that are not set.\<close>

lemma is_highest_skip:
  "is_highest b m r \<Longrightarrow> m \<le> m' \<Longrightarrow> (\<And>k. m \<le> k \<Longrightarrow> k < m' \<Longrightarrow> \<not> bit_at b k) \<Longrightarrow> is_highest b m' r"
  by (auto simp: is_highest_def not_le split: if_splits) (meson less_le_trans not_le)+

text \<open>The highest bit of the masked byte \<open>i\<close> is the answer when the mask keeps the bits below \<open>w\<close>.\<close>

lemma is_highest_byte:
  assumes "i < length b" and "w \<le> 8" and "\<And>n. bit y n \<longleftrightarrow> n < w \<and> bit (b ! i) n" and "y \<noteq> 0"
  shows "is_highest b (8 * i + w) (int (Len8 y + i * 8))"
proof -
  define c where "c = Len8 y - 1"
  let ?k = "8 * i + c"
  have L: "0 < Len8 y" "Len8 y \<le> 8" "bit y (Len8 y - 1)"
    using Len8_highest [OF assms(4)] by blast+
  then have w: "Len8 y - 1 < w" and at: "bit (b ! i) (Len8 y - 1)" using assms(3) by blast+
  have "c < 8" using L by (simp add: c_def)
  then have "?k div 8 = i" "?k mod 8 = c" by simp_all
  then have bit: "bit_at b ?k" using assms(1) at by (simp add: bit_at_def c_def)
  have below: "k < Len8 y + 8 * i" if "k < 8 * i + w" "bit_at b k" for k
  proof (cases "k div 8 = i")
    case True
    then have "k = 8 * i + k mod 8" by (metis mult_div_mod_eq)
    moreover from this that(1) have "k mod 8 < w" by linarith
    then have "bit y (k mod 8)" using assms(3) that(2) True by (simp add: bit_at_def)
    ultimately show ?thesis using Len8_highest(3) [OF assms(4)] by (metis add.commute add_less_cancel_right)
  next
    case False
    have "k div 8 < i + 1" using that(1) assms(2) by simp
    with False have "k div 8 < i" by simp
    then show ?thesis by simp
  qed
  have k: "nat (int (Len8 y + i * 8)) - 1 = ?k" "?k < 8 * i + w" using L(1) w by (simp_all add: c_def)
  then have ex: "\<exists>k < 8 * i + w. bit_at b k" using bit by blast
  have "int k < int (Len8 y + i * 8)" if "k < 8 * i + w" "bit_at b k" for k
    using below [OF that] by simp
  then show ?thesis
    using bit ex L(1) k unfolding is_highest_def by simp
qed

lemma zero_byte_bits: "b ! i = 0 \<Longrightarrow> 8 * i \<le> k \<Longrightarrow> k < 8 * Suc i \<Longrightarrow> \<not> bit_at b k"
  by (auto simp: bit_at_def) (metis bit_0_eq bot_apply div_nat_eqI mult.commute mult_Suc_right bot_bool_def)

lemma highest_loop_spec: "n \<le> length b \<Longrightarrow> is_highest b (8 * n) (highest_loop b n)"
proof (induction n)
  case (Suc i)
  show ?case
  proof (cases "b ! i = 0")
    case True
    with Suc show ?thesis
      by (auto intro!: is_highest_skip [of b "8 * i"] dest: zero_byte_bits)
  next
    case False
    then have "is_highest b (8 * i + 8) (int (Len8 (b ! i) + i * 8))"
      using Suc.prems by (intro is_highest_byte) (auto dest: bit_imp_le_length)
    with False show ?thesis by (simp add: algebra_simps)
  qed
qed simp

text \<open>
  \<open>HighestBitIndex\<close> fails on an empty list, and otherwise returns the one-based position of
  the highest set bit, or 0 when no bit is set.
\<close>

theorem HighestBitIndex_correct:
  "case HighestBitIndex b of
     Inl e \<Rightarrow> b = []
   | Inr r \<Rightarrow> b \<noteq> [] \<and> is_highest b (8 * length b) r"
  using highest_loop_spec [of "length b" b] by (auto simp: HighestBitIndex_def)

lemma mask_below: "w < 8 \<Longrightarrow> bit ((push_bit w 1 :: byte) - 1) n \<longleftrightarrow> n < w"
  using bit_mask_iff [of w n, where ?'a = "8 word"] by (auto simp: mask_eq_exp_minus_1)

lemma and_255 [simp]: "(x :: byte) AND 255 = x"
  using take_bit_length_eq [of x] by (simp add: take_bit_eq_mask mask_eq_exp_minus_1)

text \<open>Below the byte of the index the mask is 255 and the loop is that of \<open>HighestBitIndex\<close>.\<close>

lemma highest_at_loop_below:
  "int n \<le> index sdiv 8 \<Longrightarrow> highest_at_loop b index m n = highest_loop b n"
proof (induction n arbitrary: m)
  case (Suc i)
  then have "index sdiv 8 > int i" by simp
  with Suc show ?case by (simp add: Let_def)
qed simp

lemma highest_at_loop_spec:
  assumes "0 \<le> index" and "n = nat (index div 8)" and "n < length b"
  shows "is_highest b (nat index) (highest_at_loop b index (push_bit (nat (index mod 8)) 1 - 1) (Suc n))"
proof -
  define w where "w = nat (index mod 8)"
  define y where "y = b ! n AND (push_bit w 1 - 1)"
  have w: "w < 8" by (simp add: w_def)
  have idx: "nat index = 8 * n + w"
    using assms(1,2) by (simp add: w_def nat_div_distrib nat_mod_distrib)
  have bits: "bit y k \<longleftrightarrow> k < w \<and> bit (b ! n) k" for k
    unfolding y_def bit_and_iff mask_below [OF w] by auto
  have sd: "index sdiv 8 = int n" using assms by (simp add: sdiv_nonneg)
  show ?thesis
  proof (cases "y = 0")
    case True
    have "\<not> bit_at b k" if "8 * n \<le> k" "k < 8 * n + w" for k
    proof -
      have "k div 8 = n" using that w by (simp add: div_nat_eqI)
      moreover from this have "k = 8 * n + k mod 8" by (metis mult_div_mod_eq)
      then have "k mod 8 < w" using that(2) by linarith
      ultimately show ?thesis using bits [of "k mod 8"] True by (simp add: bit_at_def)
    qed
    moreover have "is_highest b (8 * n) (highest_loop b n)"
      using highest_loop_spec assms(3) by simp
    ultimately have "is_highest b (8 * n + w) (highest_loop b n)"
      by (auto intro: is_highest_skip)
    with True show ?thesis
      by (simp add: Let_def sd idx y_def w_def highest_at_loop_below)
  next
    case False
    then have "b ! n \<noteq> 0" by (auto simp: y_def)
    moreover have "is_highest b (8 * n + w) (int (Len8 y + n * 8))"
      using is_highest_byte [OF assms(3) _ bits False] w by simp
    ultimately show ?thesis
      using False by (simp add: Let_def sd idx y_def w_def)
  qed
qed

text \<open>
  \<open>HighestBitIndexAt\<close> with an index of at least 0 returns, on a non-empty list, the highest
  one-based position that is at most the index (0 when no such bit is set), and an error on a nil
  or empty list.
\<close>

theorem HighestBitIndexAt_correct:
  assumes "0 \<le> index"
  shows "case b of
      None \<Rightarrow> \<exists>e. HighestBitIndexAt b index = Return (Inl e)
    | Some bs \<Rightarrow>
        if bs = [] then \<exists>e. HighestBitIndexAt b index = Return (Inl e)
        else \<exists>r. HighestBitIndexAt b index = Return (Inr r) \<and> is_highest bs (nat index) r"
proof (cases b)
  case None
  then show ?thesis by (simp add: HighestBitIndexAt_def)
next
  case (Some bs)
  have sh: "shl1_byte (index smod 8) = Return (push_bit (nat (index mod 8)) 1)"
    using assms by (simp add: shl1_byte_def smod_nonneg not_less)
  show ?thesis
  proof (cases "index div 8 < int (length bs)")
    case True
    then have "is_highest bs (nat index)
        (highest_at_loop bs index (push_bit (nat (index mod 8)) 1 - 1) (Suc (nat (index div 8))))"
      using assms by (intro highest_at_loop_spec) auto
    moreover have "nat (index div 8 + 1) = Suc (nat (index div 8))" using assms by simp
    ultimately show ?thesis
      using Some True sh assms by (auto simp: HighestBitIndexAt_def sdiv_nonneg Let_def not_le)
  next
    case False
    then have "is_highest bs (8 * length bs) (highest_loop bs (length bs))"
      and le: "8 * length bs \<le> nat index"
      using highest_loop_spec [of "length bs" bs] assms by auto
    then have "is_highest bs (nat index) (highest_loop bs (length bs))"
      by (rule is_highest_skip) (auto dest: bit_at_bound)
    moreover have "highest_at_loop bs index m (length bs) = highest_loop bs (length bs)" for m
      using False assms by (intro highest_at_loop_below) (simp add: sdiv_nonneg)
    ultimately show ?thesis
      using Some False sh assms by (auto simp: HighestBitIndexAt_def sdiv_nonneg Let_def)
  qed
qed

theorem HighestBitIndexAt_correct_witness:
  "\<exists>r. HighestBitIndexAt (Some [255, 1]) 6 = Return (Inr r) \<and> is_highest [255, 1] 6 r"
  using HighestBitIndexAt_correct [of 6 "Some [255, 1]"] by simp

end
