(* ===== verification/Json.thy ===== *)
theory Json
  imports Prelude
begin

text \<open>
  The parts of package \<open>encoding/json\<close> (and of \<open>strconv\<close> and \<open>fmt\<close>) that the JSON-RPC sources use,
  on JSON texts as byte strings. A \<open>json.RawMessage\<close> holds the bytes of one value that the decoder
  has already syntax-checked; the functions here split such a text into its parts the way the
  decoder does (members of an object, elements of an array, the content of a string literal), and
  the last sections give the encoder for strings, arrays and objects with its round-trip lemmas.
\<close>

section \<open>Decimal numbers\<close>

definition digit_char :: "nat \<Rightarrow> char" where
  "digit_char d = char_of (48 + d)"

fun dec_nat :: "nat \<Rightarrow> string" where
  "dec_nat n = (if n < 10 then [digit_char n] else dec_nat (n div 10) @ [digit_char (n mod 10)])"

declare dec_nat.simps [simp del]

definition dec_int :: "int \<Rightarrow> string" where
  "dec_int k = (if k < 0 then CHR ''-'' # dec_nat (nat (- k)) else dec_nat (nat k))"

definition is_digit :: "char \<Rightarrow> bool" where
  "is_digit c \<longleftrightarrow> 48 \<le> char_code c \<and> char_code c \<le> 57"

definition parse_digits :: "string \<Rightarrow> nat option" where
  "parse_digits s =
     (if s \<noteq> [] \<and> list_all is_digit s then Some (foldl (\<lambda>n c. 10 * n + (char_code c - 48)) 0 s)
      else None)"

text \<open>\<open>strconv.ParseInt(s, 10, 64)\<close> on the text of a JSON number.\<close>

definition parse_int64 :: "string \<Rightarrow> int option" where
  "parse_int64 s =
     (case s of
        c # t \<Rightarrow>
          (case (if c = CHR ''-'' then map_option (\<lambda>n. - int n) (parse_digits t)
                 else map_option int (parse_digits s)) of
             Some k \<Rightarrow> if - (2 ^ 63) \<le> k \<and> k < 2 ^ 63 then Some k else None
           | None \<Rightarrow> None)
      | [] \<Rightarrow> None)"

section \<open>Splitting a text into values\<close>

definition is_ws :: "char \<Rightarrow> bool" where
  "is_ws c \<longleftrightarrow> char_code c \<in> {32, 9, 10, 13}"

definition skip_ws :: "string \<Rightarrow> string" where
  "skip_ws s = dropWhile is_ws s"

definition quote_char :: char where "quote_char = CHR 0x22"
definition backslash :: char where "backslash = CHR 0x5C"

text \<open>
  The number of bytes of a string literal after its opening quote, with the closing quote. The flag
  says that the previous byte was the backslash of an escape.
\<close>

fun string_end :: "bool \<Rightarrow> string \<Rightarrow> nat" where
  "string_end e [] = 0"
| "string_end True (c # s) = Suc (string_end False s)"
| "string_end False (c # s) = (if c = quote_char then 1 else Suc (string_end (c = backslash) s))"

datatype scan_state = Outside | InString | InEscape

text \<open>
  The number of bytes of an array or object after its opening bracket, up to the bracket that brings
  the nesting depth to 0.
\<close>

fun nested_end :: "nat \<Rightarrow> scan_state \<Rightarrow> string \<Rightarrow> nat" where
  "nested_end n st [] = 0"
| "nested_end n InEscape (c # s) = Suc (nested_end n InString s)"
| "nested_end n InString (c # s) =
     Suc (nested_end n (if c = quote_char then Outside else if c = backslash then InEscape else InString) s)"
| "nested_end n Outside (c # s) =
     (if c = quote_char then Suc (nested_end n InString s)
      else if c = CHR ''{'' \<or> c = CHR ''['' then Suc (nested_end (Suc n) Outside s)
      else if c = CHR ''}'' \<or> c = CHR '']'' then
        (if n \<le> 1 then 1 else Suc (nested_end (n - 1) Outside s))
      else Suc (nested_end n Outside s))"

definition is_delim :: "char \<Rightarrow> bool" where
  "is_delim c \<longleftrightarrow> is_ws c \<or> c \<in> {CHR '','', CHR '']'', CHR ''}'', CHR '':''}"

text \<open>The number of bytes of a value after its first byte \<open>c\<close>.\<close>

definition value_end :: "char \<Rightarrow> string \<Rightarrow> nat" where
  "value_end c t =
     (if c = quote_char then string_end False t
      else if c = CHR ''{'' \<or> c = CHR ''['' then nested_end 1 Outside t
      else length (takeWhile (\<lambda>d. \<not> is_delim d) t))"

text \<open>The first value of a text and what follows it; \<open>None\<close> at the end of the text.\<close>

definition next_value :: "string \<Rightarrow> (string \<times> string) option" where
  "next_value s =
     (case skip_ws s of
        [] \<Rightarrow> None
      | c # t \<Rightarrow> Some (c # take (value_end c t) t, drop (value_end c t) t))"

lemma skip_ws_length: "length (skip_ws s) \<le> length s"
  by (simp add: skip_ws_def length_dropWhile_le)

lemma next_value_shorter: "next_value s = Some (v, r) \<Longrightarrow> length r < length s"
  using skip_ws_length [of s] by (auto simp: next_value_def split: list.splits)

text \<open>The separator (a comma or a colon) in front of the next part, if there is one.\<close>

definition skip_sep :: "char \<Rightarrow> string \<Rightarrow> string" where
  "skip_sep d s = (case skip_ws s of c # t \<Rightarrow> if c = d then t else c # t | [] \<Rightarrow> [])"

lemma skip_sep_length: "length (skip_sep d s) \<le> length s"
  using skip_ws_length [of s] by (cases "skip_ws s") (auto simp: skip_sep_def)

text \<open>\<open>dec.More()\<close> inside an array or object: there is a next part before the closing bracket.\<close>

definition more :: "string \<Rightarrow> bool" where
  "more s = (case skip_ws s of [] \<Rightarrow> False | c # _ \<Rightarrow> c \<noteq> CHR '']'' \<and> c \<noteq> CHR ''}'')"

text \<open>The elements of an array, given the text after its opening bracket.\<close>

function array_elems :: "string \<Rightarrow> string list" where
  "array_elems s =
     (if more s then
        (case next_value s of
           None \<Rightarrow> []
         | Some (v, r) \<Rightarrow> v # array_elems (skip_sep CHR '','' r))
      else [])"
  by pat_completeness auto
termination
proof (relation "measure length")
  fix s v r and p :: "string \<times> string"
  assume "next_value s = Some p" and "(v, r) = p"
  then have "length r < length s" by (auto dest: next_value_shorter)
  then show "(skip_sep CHR '','' r, s) \<in> measure length"
    using le_less_trans [OF skip_sep_length] by auto
qed simp

declare array_elems.simps [simp del]

text \<open>The members of an object: the key's literal and the value, in order.\<close>

function object_members :: "string \<Rightarrow> (string \<times> string) list" where
  "object_members s =
     (if more s then
        (case next_value s of
           None \<Rightarrow> []
         | Some (k, r) \<Rightarrow>
             (case next_value (skip_sep CHR '':'' r) of
                None \<Rightarrow> []
              | Some (v, r') \<Rightarrow> (k, v) # object_members (skip_sep CHR '','' r')))
      else [])"
  by pat_completeness auto
termination
proof (relation "measure length")
  fix s k r v r' and p p' :: "string \<times> string"
  assume "next_value s = Some p" "(k, r) = p" "next_value (skip_sep CHR '':'' r) = Some p'" "(v, r') = p'"
  then have "length r < length s" "length r' < length (skip_sep CHR '':'' r)"
    by (auto dest: next_value_shorter)
  then show "(skip_sep CHR '','' r', s) \<in> measure length"
    using skip_sep_length [of "CHR '',''" r'] skip_sep_length [of "CHR '':''" r] by simp
qed simp

declare object_members.simps [simp del]

section \<open>String literals\<close>

text \<open>UTF-8: the encoding of a code point, and the width of the valid sequence at the head of a
  string (0 when it is not valid).\<close>

definition encode_rune :: "nat \<Rightarrow> string" where
  "encode_rune r =
     (if r < 128 then [char_of r]
      else if r < 2048 then [char_of (192 + r div 64), char_of (128 + r mod 64)]
      else if r < 65536 then
        [char_of (224 + r div 4096), char_of (128 + r div 64 mod 64), char_of (128 + r mod 64)]
      else [char_of (240 + r div 262144), char_of (128 + r div 4096 mod 64),
            char_of (128 + r div 64 mod 64), char_of (128 + r mod 64)])"

definition in_range :: "nat \<Rightarrow> nat \<Rightarrow> char \<Rightarrow> bool" where
  "in_range lo hi c \<longleftrightarrow> lo \<le> char_code c \<and> char_code c \<le> hi"

definition utf8_width :: "string \<Rightarrow> nat" where
  "utf8_width s =
     (case s of
        [] \<Rightarrow> 0
      | c # t \<Rightarrow>
          let b = char_code c;
              n = (if b < 128 then 1 else if 194 \<le> b \<and> b \<le> 223 then 2
                   else if 224 \<le> b \<and> b \<le> 239 then 3 else if 240 \<le> b \<and> b \<le> 244 then 4 else 0);
              lo = (if b = 224 then 160 else if b = 240 then 144 else 128);
              hi = (if b = 237 then 159 else if b = 244 then 143 else 191) in
          if n = 0 \<or> length t < n - 1 then 0
          else if n = 1 then 1
          else if in_range lo hi (t ! 0) \<and> list_all (in_range 128 191) (take (n - 2) (drop 1 t)) then n
          else 0)"

definition hex_val :: "char \<Rightarrow> nat option" where
  "hex_val c =
     (let b = char_code c in
      if 48 \<le> b \<and> b \<le> 57 then Some (b - 48)
      else if 97 \<le> b \<and> b \<le> 102 then Some (b - 87)
      else if 65 \<le> b \<and> b \<le> 70 then Some (b - 55)
      else None)"

text \<open>The four hexadecimal digits of an escape \<open>\uXXXX\<close> at the head of a string, after the \<open>u\<close>.\<close>

definition get_u4 :: "string \<Rightarrow> nat option" where
  "get_u4 s =
     (case map hex_val (take 4 s) of
        [Some a, Some b, Some c, Some d] \<Rightarrow> Some (4096 * a + 256 * b + 16 * c + d)
      | _ \<Rightarrow> None)"

text \<open>The code point of an escape and the number of bytes it takes after the \<open>u\<close>: a surrogate pair
  takes two escapes, a lone surrogate is the replacement character.\<close>

definition unescape_u :: "string \<Rightarrow> (nat \<times> nat) option" where
  "unescape_u s =
     (case get_u4 s of
        None \<Rightarrow> None
      | Some r \<Rightarrow>
          if 55296 \<le> r \<and> r < 57344 then
            (if take 2 (drop 4 s) = [backslash, CHR ''u''] then
               (case get_u4 (drop 6 s) of
                  Some r1 \<Rightarrow>
                    if r < 56320 \<and> 56320 \<le> r1 \<and> r1 < 57344
                    then Some ((r - 55296) * 1024 + (r1 - 56320) + 65536, 10)
                    else Some (65533, 4)
                | None \<Rightarrow> Some (65533, 4))
             else Some (65533, 4))
          else Some (r, 4))"

definition simple_escape :: "char \<Rightarrow> char" where
  "simple_escape c =
     (if c = CHR ''b'' then CHR 0x08 else if c = CHR ''f'' then CHR 0x0C
      else if c = CHR ''n'' then CHR 0x0A else if c = CHR ''r'' then CHR 0x0D
      else if c = CHR ''t'' then CHR 0x09 else c)"

text \<open>The content of a string literal, from the text after its opening quote.\<close>

function unquote_body :: "string \<Rightarrow> string" where
  "unquote_body [] = []"
| "unquote_body (c # s) =
     (if c = quote_char then []
      else if c = backslash then
        (case s of
           [] \<Rightarrow> []
         | d # t \<Rightarrow>
             if d = CHR ''u'' then
               (case unescape_u t of
                  Some (r, k) \<Rightarrow> encode_rune r @ unquote_body (drop k t)
                | None \<Rightarrow> unquote_body t)
             else simple_escape d # unquote_body t)
      else if char_code c < 128 then c # unquote_body s
      else
        (let w = utf8_width (c # s) in
         if w = 0 then encode_rune 65533 @ unquote_body s
         else take w (c # s) @ unquote_body (drop (w - 1) s)))"
  by pat_completeness auto
termination
  by (relation "measure length") auto

declare unquote_body.simps(2) [simp del]

text \<open>Decoding a value into a Go string: only a string literal gives one.\<close>

definition as_string :: "string \<Rightarrow> string option" where
  "as_string v = (case v of c # t \<Rightarrow> if c = quote_char then Some (unquote_body t) else None | [] \<Rightarrow> None)"

text \<open>The encoder's escape of one byte below 128 (HTML escaping is on by default).\<close>

definition escape_ascii :: "char \<Rightarrow> string" where
  "escape_ascii c =
     (if c = quote_char \<or> c = backslash then [backslash, c]
      else if c = CHR 0x0A then [backslash, CHR ''n'']
      else if c = CHR 0x0D then [backslash, CHR ''r'']
      else if c = CHR 0x09 then [backslash, CHR ''t'']
      else if char_code c < 32 \<or> c = CHR ''<'' \<or> c = CHR ''>'' \<or> c = CHR ''&'' then
        [backslash, CHR ''u'', CHR ''0'', CHR ''0'', hex_digit (char_code c div 16), hex_digit (char_code c mod 16)]
      else [c])"

function quote_body :: "string \<Rightarrow> string" where
  "quote_body [] = []"
| "quote_body (c # s) =
     (if char_code c < 128 then escape_ascii c @ quote_body s
      else
        (let w = utf8_width (c # s) in
         if w = 0 then backslash # ''ufffd'' @ quote_body s
         else if take w (c # s) = encode_rune 8232 then backslash # ''u2028'' @ quote_body (drop (w - 1) s)
         else if take w (c # s) = encode_rune 8233 then backslash # ''u2029'' @ quote_body (drop (w - 1) s)
         else take w (c # s) @ quote_body (drop (w - 1) s)))"
  by pat_completeness auto
termination
  by (relation "measure length") auto

definition json_quote :: "string \<Rightarrow> string" where
  "json_quote s = quote_char # quote_body s @ [quote_char]"

fun join :: "string \<Rightarrow> string list \<Rightarrow> string" where
  "join sep [] = []"
| "join sep [x] = x"
| "join sep (x # y # xs) = x @ sep @ join sep (y # xs)"

definition encode_array :: "string list \<Rightarrow> string" where
  "encode_array vs = CHR ''['' # join '','' vs @ '']''"

definition encode_object :: "(string \<times> string) list \<Rightarrow> string" where
  "encode_object kvs = CHR ''{'' # join '','' (map (\<lambda>(k, v). json_quote k @ '':'' @ v) kvs) @ ''}''"

text \<open>
  \<open>json.Compact\<close> with HTML escaping, which the encoder applies to a \<open>RawMessage\<close>: white space
  outside strings goes, and \<open><\<close>, \<open>>\<close>, \<open>&\<close>, U+2028 and U+2029 are escaped.
\<close>

fun compact :: "scan_state \<Rightarrow> string \<Rightarrow> string" where
  "compact st [] = []"
| "compact st (c # s) =
     (if c = CHR ''<'' \<or> c = CHR ''>'' \<or> c = CHR ''&'' then
        backslash # CHR ''u'' # CHR ''0'' # CHR ''0'' # hex_digit (char_code c div 16) # hex_digit (char_code c mod 16)
          # compact (if st = InEscape then InString else st) s
      else if st = Outside \<and> is_ws c then compact Outside s
      else if c = CHR 0xE2 \<and> take 2 s = tl (encode_rune 8232) then backslash # ''u2028'' @ compact st (drop 2 s)
      else if c = CHR 0xE2 \<and> take 2 s = tl (encode_rune 8233) then backslash # ''u2029'' @ compact st (drop 2 s)
      else c # compact
        (case st of
           Outside \<Rightarrow> if c = quote_char then InString else Outside
         | InEscape \<Rightarrow> InString
         | InString \<Rightarrow> if c = quote_char then Outside else if c = backslash then InEscape else InString) s)"

section \<open>Complete values\<close>

definition is_lit_char :: "char \<Rightarrow> bool" where
  "is_lit_char c \<longleftrightarrow> is_digit c \<or> in_range 97 122 c \<or> c \<in> {CHR ''E'', CHR ''+'', CHR ''-'', CHR ''.''}"

text \<open>
  A text that is one value: a closed string literal, a bracketed text whose last byte closes its
  first, or a number or name.
\<close>

definition is_value :: "string \<Rightarrow> bool" where
  "is_value v =
     (case v of
        [] \<Rightarrow> False
      | c # t \<Rightarrow>
          if c = quote_char then string_end False (t @ '','') = length t
          else if c = CHR ''{'' \<or> c = CHR ''['' then nested_end 1 Outside (t @ '','') = length t
          else list_all is_lit_char v)"

lemma string_end_append:
  "string_end e (t @ [x]) = length t \<Longrightarrow> string_end e (t @ s) = length t"
proof (induction e t rule: string_end.induct)
  case (1 e)
  then show ?case by (cases e) (simp_all split: if_splits)
qed (auto split: if_splits)

lemma string_in_nested:
  "string_end e (t @ [x]) = length t \<Longrightarrow>
   nested_end n (if e then InEscape else InString) (t @ s) = length t + nested_end n Outside s"
proof (induction e t rule: string_end.induct)
  case (1 e)
  then show ?case by (cases e) (simp_all split: if_splits)
next
  case (2 c t)
  then show ?case by simp
next
  case (3 c t)
  then show ?case by (cases "c = quote_char") (auto split: if_splits)
qed

lemma nested_end_pos: "0 < nested_end n st (c # s)"
  by (cases st) auto

lemma nested_in_nested:
  "nested_end m st (t @ [x]) = length t \<Longrightarrow> 1 \<le> m \<Longrightarrow>
   nested_end (m + n) st (t @ s) = length t + (if n = 0 then 0 else nested_end n Outside s)"
proof (induction m st t arbitrary: n rule: nested_end.induct)
  case (1 m st)
  then show ?case using nested_end_pos [of m st x "[]"] by simp
next
  case (4 m c t)
  let ?open = "c = CHR ''{'' \<or> c = CHR ''[''" and ?close = "c = CHR ''}'' \<or> c = CHR '']''"
  consider "c = quote_char" | "c \<noteq> quote_char" ?open | "c \<noteq> quote_char" "\<not> ?open" ?close "m = 1"
    | "c \<noteq> quote_char" "\<not> ?open" ?close "1 < m" | "c \<noteq> quote_char" "\<not> ?open" "\<not> ?close"
    using "4.prems"(2) by linarith
  then show ?case
  proof cases
    case 1
    then show ?thesis using "4.IH"(1) "4.prems" by simp
  next
    case 2
    then show ?thesis using "4.IH"(2) "4.prems" by simp
  next
    case 3
    then have "t = []" using "4.prems" by simp
    with 3 show ?thesis by (cases n) simp_all
  next
    case 4
    then have "nested_end (m - 1) Outside (t @ [x]) = length t" using "4.prems" by simp
    with 4 have "nested_end (m - 1 + n) Outside (t @ s)
        = length t + (if n = 0 then 0 else nested_end n Outside s)"
      using "4.IH"(3) by simp
    with 4 show ?thesis by simp
  next
    case 5
    then show ?thesis using "4.IH"(4) "4.prems" by simp
  qed
qed auto

lemma lit_char_simps:
  assumes "is_lit_char c"
  shows "c \<noteq> quote_char" "c \<noteq> CHR ''{''" "c \<noteq> CHR ''[''" "c \<noteq> CHR ''}''" "c \<noteq> CHR '']''" "\<not> is_delim c"
  using assms
  by (auto simp: is_lit_char_def is_digit_def in_range_def quote_char_def is_delim_def is_ws_def
      char_code_def)

lemma nested_end_literal:
  "list_all is_lit_char v \<Longrightarrow> nested_end n Outside (v @ s) = length v + nested_end n Outside s"
  by (induction v) (auto simp: lit_char_simps)

text \<open>A complete value inside an array or object is stepped over as a whole.\<close>

lemma value_in_nested:
  assumes "is_value v" and "1 \<le> n"
  shows "nested_end n Outside (v @ s) = length v + nested_end n Outside s"
proof -
  obtain c t where v: "v = c # t" using assms(1) by (cases v) (auto simp: is_value_def)
  consider "c = quote_char" | "c \<noteq> quote_char" "c = CHR ''{'' \<or> c = CHR ''[''" | "list_all is_lit_char v"
    using assms(1) by (auto simp: is_value_def v split: if_splits)
  then show ?thesis
  proof cases
    case 1
    then have "string_end False (t @ '','') = length t" using assms(1) by (simp add: is_value_def v)
    from string_in_nested [OF this, of n s] 1 show ?thesis by (simp add: v)
  next
    case 2
    then have "nested_end 1 Outside (t @ '','') = length t" using assms(1) by (auto simp: is_value_def v)
    from nested_in_nested [OF this, of n s] 2 assms(2) show ?thesis by (auto simp: v)
  next
    case 3
    then show ?thesis by (rule nested_end_literal)
  qed
qed

lemma value_head:
  assumes "is_value v"
  shows "v \<noteq> []" and "\<not> is_ws (hd v)" and "hd v \<noteq> CHR '']''" and "hd v \<noteq> CHR ''}''" and "hd v \<noteq> CHR '',''"
    and "hd v \<noteq> CHR '':''"
  using assms lit_char_simps [of "hd v"]
  by (cases v; auto simp: is_value_def quote_char_def is_ws_def char_code_def is_delim_def
      split: if_splits)+

lemma skip_ws_id: "s \<noteq> [] \<Longrightarrow> \<not> is_ws (hd s) \<Longrightarrow> skip_ws s = s"
  by (cases s) (simp_all add: skip_ws_def)

lemma skip_ws_value [simp]: "is_value v \<Longrightarrow> skip_ws (v @ s) = v @ s"
  using value_head by (intro skip_ws_id) auto

lemma more_value [simp]: "is_value v \<Longrightarrow> more (v @ s)"
  using value_head [of v] by (cases v) (auto simp: more_def skip_ws_id)

text \<open>The decoder splits off exactly the value in front of a delimiter.\<close>

lemma next_value_value:
  assumes "is_value v" and "s = [] \<or> is_delim (hd s)"
  shows "next_value (v @ s) = Some (v, s)"
proof -
  obtain c t where v: "v = c # t" using value_head(1) [OF assms(1)] by (cases v) auto
  have "value_end c (t @ s) = length t"
  proof (cases "c = quote_char \<or> c = CHR ''{'' \<or> c = CHR ''[''")
    case True
    then show ?thesis
      using assms(1) string_end_append [of False t "CHR '',''" s]
        nested_in_nested [of 1 Outside t "CHR '',''" 0 s]
      by (auto simp: value_end_def is_value_def v split: if_splits)
  next
    case False
    then have "list_all is_lit_char t" using assms(1) by (simp add: is_value_def v)
    then have "list_all (\<lambda>d. \<not> is_delim d) t" by (auto simp: list_all_iff lit_char_simps)
    then have "takeWhile (\<lambda>d. \<not> is_delim d) (t @ s) = t @ takeWhile (\<lambda>d. \<not> is_delim d) s"
      by (auto simp: list_all_iff)
    moreover have "takeWhile (\<lambda>d. \<not> is_delim d) s = []" using assms(2) by (cases s) auto
    ultimately show ?thesis using False by (simp add: value_end_def)
  qed
  then show ?thesis
    using assms(1) skip_ws_value [of v s] by (simp add: next_value_def v)
qed

lemma delim_chars [simp]: "is_delim CHR '',''" "is_delim CHR '']''" "is_delim CHR ''}''" "is_delim CHR '':''"
  by (simp_all add: is_delim_def)

lemma ws_chars [simp]: "\<not> is_ws CHR '',''" "\<not> is_ws CHR '']''" "\<not> is_ws CHR ''}''" "\<not> is_ws CHR '':''"
  by (simp_all add: is_ws_def char_code_def)

lemma skip_sep_hit [simp]:
  "skip_sep CHR '','' (CHR '','' # s) = s" "skip_sep CHR '':'' (CHR '':'' # s) = s"
  "skip_sep CHR '','' (CHR '']'' # s) = CHR '']'' # s" "skip_sep CHR '','' (CHR ''}'' # s) = CHR ''}'' # s"
  by (simp_all add: skip_sep_def skip_ws_def)

lemma more_closing [simp]: "\<not> more (CHR '']'' # s)" "\<not> more (CHR ''}'' # s)"
  by (simp_all add: more_def skip_ws_def)

text \<open>Decoding an encoded array gives its elements back.\<close>

lemma array_elems_join:
  "list_all is_value vs \<Longrightarrow> array_elems (join '','' vs @ CHR '']'' # s) = vs"
proof (induction "'',''" vs rule: join.induct)
  case 1
  then show ?case by (simp add: array_elems.simps)
next
  case (2 x)
  then show ?case
    by (simp add: array_elems.simps [of "x @ _"] next_value_value array_elems.simps [of "CHR '']'' # _"])
next
  case (3 x y xs)
  then show ?case
    by (simp add: array_elems.simps [of "x @ _"] next_value_value)
qed

lemma object_members_join:
  "(\<forall>(k, v) \<in> set kvs. is_value (json_quote k) \<and> is_value v) \<Longrightarrow>
   object_members (join '','' (map (\<lambda>(k, v). json_quote k @ '':'' @ v) kvs) @ CHR ''}'' # s)
     = map (\<lambda>(k, v). (json_quote k, v)) kvs"
proof (induction kvs rule: induct_list012)
  case 1
  then show ?case by (simp add: object_members.simps)
next
  case (2 x)
  obtain k v where x: "x = (k, v)" by (cases x)
  with 2 show ?case
    by (simp add: object_members.simps [of "json_quote k @ _"] next_value_value
        object_members.simps [of "CHR ''}'' # _"])
next
  case (3 x y xs)
  obtain k v where x: "x = (k, v)" by (cases x)
  obtain k' v' where y: "y = (k', v')" by (cases y)
  from 3 x show ?case
    by (simp add: y object_members.simps [of "json_quote k @ _"] next_value_value)
qed

text \<open>Encoded arrays and objects are complete values.\<close>

lemma nested_end_join:
  "list_all is_value vs \<Longrightarrow> nested_end 1 Outside (join '','' vs @ s) = length (join '','' vs) + nested_end 1 Outside s"
proof (induction "'',''" vs rule: join.induct)
  case (3 x y xs)
  then show ?case by (simp add: value_in_nested quote_char_def)
qed (simp_all add: value_in_nested)

lemma is_value_encode_array: "list_all is_value vs \<Longrightarrow> is_value (encode_array vs)"
  using nested_end_join [of vs "'']'' @ '',''"]
  by (simp add: is_value_def encode_array_def quote_char_def)

section \<open>Round trip of string literals\<close>

definition ascii :: "string \<Rightarrow> bool" where
  "ascii s \<longleftrightarrow> list_all (\<lambda>c. char_code c < 128) s"

lemma ascii_simps: "ascii []" "ascii (c # s) \<longleftrightarrow> char_code c < 128 \<and> ascii s"
  by (simp_all add: ascii_def)

lemma char_code_of [simp]: "n < 256 \<Longrightarrow> char_code (char_of n) = n"
  by (simp add: char_code_def)

lemma char_of_code [simp]: "char_of (char_code c) = c"
  by (simp add: char_code_def)

lemma hex_val_digit [simp]: "d < 16 \<Longrightarrow> hex_val (hex_digit d) = Some d"
  by (simp add: hex_val_def hex_digit_def)

lemma hex_digit_plain: "d < 16 \<Longrightarrow> hex_digit d \<noteq> quote_char \<and> hex_digit d \<noteq> backslash"
proof -
  assume d: "d < 16"
  have "hex_val quote_char = None" "hex_val backslash = None"
    by (simp_all add: hex_val_def quote_char_def backslash_def char_code_def)
  with hex_val_digit [OF d] show ?thesis by force
qed

lemma unescape_u_byte:
  assumes "b < 128"
  shows "unescape_u (CHR ''0'' # CHR ''0'' # hex_digit (b div 16) # hex_digit (b mod 16) # s) = Some (b, 4)"
proof -
  have "hex_val CHR ''0'' = Some 0" by (simp add: hex_val_def char_code_def)
  moreover have "b div 16 < 16" "b mod 16 < 16" using assms by simp_all
  moreover have "16 * (b div 16) + b mod 16 = b" by simp
  ultimately have "get_u4 (CHR ''0'' # CHR ''0'' # hex_digit (b div 16) # hex_digit (b mod 16) # s) = Some b"
    by (simp add: get_u4_def)
  then show ?thesis using assms by (simp add: unescape_u_def)
qed

lemma unquote_escape:
  assumes "char_code c < 128"
  shows "unquote_body (escape_ascii c @ s) = c # unquote_body s"
proof -
  have c: "c = CHR ''<'' \<or> c = CHR ''>'' \<or> c = CHR ''&'' \<Longrightarrow> char_code c < 128" by (auto simp: char_code_def)
  have rune: "encode_rune (char_code c) = [c]" using assms by (simp add: encode_rune_def)
  show ?thesis
    using assms unescape_u_byte [OF assms, of s]
    by (auto simp: escape_ascii_def unquote_body.simps(2) simple_escape_def quote_char_def backslash_def rune)
qed

lemma unquote_quote_body:
  "ascii s \<Longrightarrow> unquote_body (quote_body s @ quote_char # r) = s"
  by (induction s) (simp_all add: ascii_simps unquote_escape unquote_body.simps(2) [of quote_char])

lemma as_string_quote [simp]: "ascii s \<Longrightarrow> as_string (json_quote s) = Some s"
  using unquote_quote_body [of s "[]"] by (simp add: as_string_def json_quote_def)

lemma string_end_escape:
  assumes "char_code c < 128"
  shows "string_end False (escape_ascii c @ s) = length (escape_ascii c) + string_end False s"
proof -
  have "char_code c div 16 < 16" "char_code c mod 16 < 16" using assms by simp_all
  then show ?thesis
    using hex_digit_plain [of "char_code c div 16"] hex_digit_plain [of "char_code c mod 16"]
    by (auto simp: escape_ascii_def quote_char_def backslash_def)
qed

lemma is_value_quote [simp]: "ascii s \<Longrightarrow> is_value (json_quote s)"
proof -
  have "ascii s \<Longrightarrow> string_end False (quote_body s @ quote_char # r) = Suc (length (quote_body s))" for r
    by (induction s) (simp_all add: ascii_simps string_end_escape)
  then show "ascii s \<Longrightarrow> is_value (json_quote s)"
    by (simp add: is_value_def json_quote_def)
qed

lemma nested_end_members:
  "(\<forall>(k, v) \<in> set kvs. ascii k \<and> is_value v) \<Longrightarrow>
   nested_end 1 Outside (join '','' (map (\<lambda>(k, v). json_quote k @ '':'' @ v) kvs) @ s)
     = length (join '','' (map (\<lambda>(k, v). json_quote k @ '':'' @ v) kvs)) + nested_end 1 Outside s"
proof (induction kvs rule: induct_list012)
  case (2 x)
  then show ?case by (cases x) (simp add: value_in_nested quote_char_def)
next
  case (3 x y xs)
  then show ?case by (cases x; cases y) (simp add: value_in_nested quote_char_def)
qed simp

lemma is_value_encode_object:
  "(\<forall>(k, v) \<in> set kvs. ascii k \<and> is_value v) \<Longrightarrow> is_value (encode_object kvs)"
  using nested_end_members [of kvs "''}'' @ '',''"]
  by (simp add: is_value_def encode_object_def quote_char_def)

lemma object_members_encode:
  "(\<forall>(k, v) \<in> set kvs. ascii k \<and> is_value v) \<Longrightarrow>
   object_members (tl (encode_object kvs)) = map (\<lambda>(k, v). (json_quote k, v)) kvs"
  using object_members_join [of kvs "[]"] by (force simp: encode_object_def)

section \<open>Decimal texts\<close>

lemma is_digit_digit_char [simp]: "d < 10 \<Longrightarrow> is_digit (digit_char d)"
  by (simp add: is_digit_def digit_char_def)

lemma list_all_digit_dec_nat: "list_all is_digit (dec_nat n)"
  by (induction n rule: dec_nat.induct) (subst dec_nat.simps, simp)

lemma dec_nat_nonempty [simp]: "dec_nat n \<noteq> []"
  by (subst dec_nat.simps) simp

lemma parse_digits_dec_nat: "parse_digits (dec_nat n) = Some n"
proof -
  have "foldl (\<lambda>n c. 10 * n + (char_code c - 48)) 0 (dec_nat n) = n"
  proof (induction n rule: dec_nat.induct)
    case (1 n)
    show ?case
    proof (cases "n < 10")
      case True
      then show ?thesis by (simp add: dec_nat.simps digit_char_def)
    next
      case False
      with 1 show ?thesis by (simp add: dec_nat.simps [of n] digit_char_def)
    qed
  qed
  then show ?thesis by (simp add: parse_digits_def list_all_digit_dec_nat)
qed

lemma dec_nat_inj: "dec_nat m = dec_nat n \<longleftrightarrow> m = n"
  by (metis option.inject parse_digits_dec_nat)

lemma is_value_dec_nat [simp]: "is_value (dec_nat n)"
proof -
  have "list_all is_lit_char (dec_nat n)"
    using list_all_digit_dec_nat [of n] by (auto simp: list_all_iff is_lit_char_def)
  moreover obtain c t where "dec_nat n = c # t" by (cases "dec_nat n") auto
  ultimately show ?thesis using lit_char_simps [of c] by (simp add: is_value_def)
qed

lemma parse_int64_dec_int:
  assumes "- (2 ^ 63) \<le> k" and "k < 2 ^ 63"
  shows "parse_int64 (dec_int k) = Some k"
proof (cases "k < 0")
  case True
  then show ?thesis using assms by (simp add: dec_int_def parse_int64_def parse_digits_dec_nat)
next
  case False
  obtain c t where ct: "dec_nat (nat k) = c # t" by (cases "dec_nat (nat k)") auto
  then have "is_digit c" using list_all_digit_dec_nat [of "nat k"] by simp
  then have "c \<noteq> CHR ''-''" by (auto simp: is_digit_def char_code_def)
  then show ?thesis
    using False assms ct parse_digits_dec_nat [of "nat k"]
    by (simp add: dec_int_def parse_int64_def)
qed

lemma is_value_dec_int [simp]: "is_value (dec_int k)"
proof (cases "k < 0")
  case True
  have "list_all is_lit_char (dec_nat n)" for n
    using list_all_digit_dec_nat [of n] by (auto simp: list_all_iff is_lit_char_def)
  with True show ?thesis
    by (simp add: dec_int_def is_value_def quote_char_def is_lit_char_def)
qed (simp add: dec_int_def)

section \<open>Tokens\<close>

text \<open>\<open>dec.Token()\<close> at the start of a text, as far as the callers tell tokens apart.\<close>

datatype json_token = TokEOF | TokNull | TokDelim char | TokString string | TokOther

definition token :: "string \<Rightarrow> json_token" where
  "token s =
     (case skip_ws s of
        [] \<Rightarrow> TokEOF
      | c # t \<Rightarrow>
          if c \<in> {CHR ''['', CHR '']'', CHR ''{'', CHR ''}''} then TokDelim c
          else if c = quote_char then TokString (unquote_body t)
          else if c = CHR ''n'' then TokNull
          else TokOther)"

end
