(* ===== verification/Rpc_Message.thy ===== *)
theory Rpc_Message
  imports Json
begin

text \<open>
  JSON-RPC messages and errors (\<open>simple_rpc/rpc/json.go\<close>, \<open>simple_rpc/rpc/errors.go\<close>): the message
  type and its classification, error and result responses, the wire format, parsing of single
  messages and batches, positional arguments and subscription names. A nil \<open>json.RawMessage\<close> is
  \<open>None\<close>. Go types, of which the code only asks the kind and a few identities, are values of
  \<open>rtype\<close>; how a JSON value decodes into a type is an argument of the definitions.
\<close>

section \<open>Errors\<close>

record jsonError =
  Code :: int
  Message :: string
  Data :: "string option"

text \<open>
  The error values of the package, those of package \<open>errors\<close> and \<open>fmt\<close> (\<open>PlainError\<close>), and those
  of registered services (\<open>ServiceError\<close>), which may implement \<open>ErrorCode\<close> and \<open>ErrorData\<close>.
\<close>

datatype rpc_error =
    MethodNotFoundError string
  | SubscriptionNotFoundError string string
  | ParseError string
  | InvalidRequestError string
  | InvalidMessageError string
  | InvalidParamsError string
  | JsonError jsonError
  | PlainError string
  | ServiceError string "int option" "string option option"

definition defaultErrorCode :: int where
  "defaultErrorCode = -32000"

text \<open>\<open>%q\<close> of a name: exact on ASCII; other bytes are taken to be printable and copied.\<close>

definition go_quote :: "string \<Rightarrow> string" where
  "go_quote s = quote_char # concat (map (\<lambda>c.
       if c = quote_char \<or> c = backslash then [backslash, c]
       else if c = CHR 0x07 then [backslash, CHR ''a''] else if c = CHR 0x08 then [backslash, CHR ''b'']
       else if c = CHR 0x0C then [backslash, CHR ''f''] else if c = CHR 0x0A then [backslash, CHR ''n'']
       else if c = CHR 0x0D then [backslash, CHR ''r''] else if c = CHR 0x09 then [backslash, CHR ''t'']
       else if c = CHR 0x0B then [backslash, CHR ''v'']
       else if char_code c < 32 \<or> char_code c = 127 then
         [backslash, CHR ''x'', hex_digit (char_code c div 16), hex_digit (char_code c mod 16)]
       else [c]) s) @ [quote_char]"

text \<open>The \<open>Error\<close> method of a JSON error object.\<close>

definition jsonError_Error :: "jsonError \<Rightarrow> string" where
  "jsonError_Error e =
     (if Message e = [] then ''json-rpc error '' @ dec_int (Code e) else Message e)"

fun Error :: "rpc_error \<Rightarrow> string" where
  "Error (MethodNotFoundError m) = ''the method '' @ m @ '' does not exist/is not available''"
| "Error (SubscriptionNotFoundError ns s) = ''no '' @ go_quote s @ '' subscription in '' @ ns @ '' namespace''"
| "Error (ParseError m) = m"
| "Error (InvalidRequestError m) = m"
| "Error (InvalidMessageError m) = m"
| "Error (InvalidParamsError m) = m"
| "Error (JsonError e) = jsonError_Error e"
| "Error (PlainError m) = m"
| "Error (ServiceError m c d) = m"

text \<open>\<open>ErrorCode\<close>, \<open>None\<close> for an error that does not implement it; likewise \<open>ErrorData\<close>.\<close>

fun ErrorCode :: "rpc_error \<Rightarrow> int option" where
  "ErrorCode (MethodNotFoundError m) = Some (-32601)"
| "ErrorCode (SubscriptionNotFoundError ns s) = Some (-32601)"
| "ErrorCode (ParseError m) = Some (-32700)"
| "ErrorCode (InvalidRequestError m) = Some (-32600)"
| "ErrorCode (InvalidMessageError m) = Some (-32700)"
| "ErrorCode (InvalidParamsError m) = Some (-32602)"
| "ErrorCode (JsonError e) = Some (Code e)"
| "ErrorCode (PlainError m) = None"
| "ErrorCode (ServiceError m c d) = c"

fun ErrorData :: "rpc_error \<Rightarrow> string option option" where
  "ErrorData (JsonError e) = Some (Data e)"
| "ErrorData (ServiceError m c d) = d"
| "ErrorData _ = None"

section \<open>Messages\<close>

definition vsn :: string where "vsn = ''2.0''"
definition serviceMethodSeparator :: char where "serviceMethodSeparator = CHR ''_''"
definition subscribeMethodSuffix :: string where "subscribeMethodSuffix = ''_subscribe''"
definition unsubscribeMethodSuffix :: string where "unsubscribeMethodSuffix = ''_unsubscribe''"
definition notificationMethodSuffix :: string where "notificationMethodSuffix = ''_subscription''"
definition null_raw :: string where "null_raw = ''null''"

record subscriptionResult =
  sr_ID :: string
  sr_Result :: "string option"

record jsonrpcMessage =
  Version :: string
  ID :: "string option"
  Method :: string
  Params :: "string option"
  Err :: "jsonError option"
  Result :: "string option"

definition zero_message :: jsonrpcMessage where
  "zero_message = \<lparr>Version = [], ID = None, Method = [], Params = None, Err = None, Result = None\<rparr>"

definition isNotification :: "jsonrpcMessage \<Rightarrow> bool" where
  "isNotification msg \<longleftrightarrow> ID msg = None \<and> Method msg \<noteq> []"

definition hasValidID :: "jsonrpcMessage \<Rightarrow> bool" where
  "hasValidID msg = (case ID msg of Some (c # t) \<Rightarrow> c \<noteq> CHR ''{'' \<and> c \<noteq> CHR ''['' | _ \<Rightarrow> False)"

definition isCall :: "jsonrpcMessage \<Rightarrow> bool" where
  "isCall msg \<longleftrightarrow> hasValidID msg \<and> Method msg \<noteq> []"

definition isResponse :: "jsonrpcMessage \<Rightarrow> bool" where
  "isResponse msg \<longleftrightarrow> hasValidID msg \<and> Method msg = [] \<and> Params msg = None
     \<and> (Result msg \<noteq> None \<or> Err msg \<noteq> None)"

definition isSubscribe :: "jsonrpcMessage \<Rightarrow> bool" where
  "isSubscribe msg = HasSuffix (Method msg) subscribeMethodSuffix"

definition isUnsubscribe :: "jsonrpcMessage \<Rightarrow> bool" where
  "isUnsubscribe msg = HasSuffix (Method msg) unsubscribeMethodSuffix"

text \<open>\<open>strings.SplitN(s, sep, 2)\<close> for a one-byte separator.\<close>

definition SplitN2 :: "string \<Rightarrow> char \<Rightarrow> string list" where
  "SplitN2 s sep =
     (if sep \<in> set s then [takeWhile (\<lambda>c. c \<noteq> sep) s, tl (dropWhile (\<lambda>c. c \<noteq> sep) s)] else [s])"

definition namespace :: "jsonrpcMessage \<Rightarrow> string" where
  "namespace msg = hd (SplitN2 (Method msg) serviceMethodSeparator)"

definition errorMessage :: "rpc_error \<Rightarrow> jsonrpcMessage" where
  "errorMessage err =
     (let e = \<lparr>Code = defaultErrorCode, Message = Error err, Data = None\<rparr>;
          e = (case ErrorCode err of Some c \<Rightarrow> e\<lparr>Code := c\<rparr> | None \<Rightarrow> e);
          e = (case ErrorData err of Some d \<Rightarrow> e\<lparr>Data := d\<rparr> | None \<Rightarrow> e) in
      zero_message\<lparr>Version := vsn, ID := Some null_raw, Err := Some e\<rparr>)"

definition errorResponse :: "jsonrpcMessage \<Rightarrow> rpc_error \<Rightarrow> jsonrpcMessage" where
  "errorResponse msg err = (errorMessage err)\<lparr>ID := ID msg\<rparr>"

text \<open>The result of \<open>json.Marshal\<close> on the service's value is the argument: an error or the text.\<close>

definition response :: "jsonrpcMessage \<Rightarrow> rpc_error + string \<Rightarrow> jsonrpcMessage" where
  "response msg result =
     (case result of
        Inl err \<Rightarrow> errorResponse msg err
      | Inr enc \<Rightarrow> zero_message\<lparr>Version := vsn, ID := ID msg, Result := Some enc\<rparr>)"

section \<open>The wire format\<close>

definition omit_empty :: "string \<Rightarrow> string \<Rightarrow> (string \<times> string) list" where
  "omit_empty k s = (if s = [] then [] else [(k, json_quote s)])"

definition omit_raw :: "string \<Rightarrow> string option \<Rightarrow> (string \<times> string) list" where
  "omit_raw k r = (case r of None \<Rightarrow> [] | Some v \<Rightarrow> if v = [] then [] else [(k, compact Outside v)])"

definition marshal_jsonError :: "jsonError \<Rightarrow> string" where
  "marshal_jsonError e = encode_object
     ([(''code'', dec_int (Code e)), (''message'', json_quote (Message e))]
       @ (case Data e of None \<Rightarrow> [] | Some d \<Rightarrow> [(''data'', d)]))"

text \<open>\<open>json.Marshal\<close> of a message, the method \<open>String\<close> and what the codec's encoder writes.\<close>

definition message_members :: "jsonrpcMessage \<Rightarrow> (string \<times> string) list" where
  "message_members msg =
     omit_empty ''jsonrpc'' (Version msg) @ omit_raw ''id'' (ID msg) @ omit_empty ''method'' (Method msg)
       @ omit_raw ''params'' (Params msg)
       @ (case Err msg of None \<Rightarrow> [] | Some e \<Rightarrow> [(''error'', marshal_jsonError e)])
       @ omit_raw ''result'' (Result msg)"

definition message_String :: "jsonrpcMessage \<Rightarrow> string" where
  "message_String msg = encode_object (message_members msg)"

definition marshal_subscriptionResult :: "subscriptionResult \<Rightarrow> string" where
  "marshal_subscriptionResult r =
     encode_object ((''subscription'', json_quote (sr_ID r)) # omit_raw ''result'' (sr_Result r))"

section \<open>Decoding\<close>

text \<open>
  The decoder matches member names to fields without regard to case; the folding also takes the
  long s (U+017F) for s and the Kelvin sign (U+212A) for k.
\<close>

fun fold_key :: "string \<Rightarrow> string" where
  "fold_key [] = []"
| "fold_key (c # s) =
     (if c = CHR 0xC5 \<and> take 1 s = [CHR 0xBF] then CHR ''s'' # fold_key (drop 1 s)
      else if c = CHR 0xE2 \<and> take 2 s = [CHR 0x84, CHR 0xAA] then CHR ''k'' # fold_key (drop 2 s)
      else (if 65 \<le> char_code c \<and> char_code c \<le> 90 then char_of (char_code c + 32) else c) # fold_key s)"

definition key_is :: "string \<Rightarrow> string \<Rightarrow> bool" where
  "key_is name lit = (case as_string lit of Some k \<Rightarrow> fold_key k = name | None \<Rightarrow> False)"

definition is_null :: "string \<Rightarrow> bool" where
  "is_null v \<longleftrightarrow> v = null_raw"

text \<open>A string field takes a string literal; any other value leaves it as it is.\<close>

definition decode_string :: "string \<Rightarrow> string \<Rightarrow> string" where
  "decode_string v old = (case as_string v of Some s \<Rightarrow> s | None \<Rightarrow> old)"

text \<open>
  \<open>json.Unmarshal\<close> into a string: a string literal is taken, null leaves the target, any other
  value is an error that names its kind.
\<close>

definition value_kind :: "string \<Rightarrow> string" where
  "value_kind v =
     (case v of
        c # _ \<Rightarrow> if c = CHR ''{'' then ''object'' else if c = CHR ''['' then ''array''
                else if c = CHR ''t'' \<or> c = CHR ''f'' then ''bool'' else ''number''
      | [] \<Rightarrow> [])"

definition unmarshal_string :: "string option \<Rightarrow> string \<Rightarrow> rpc_error + string" where
  "unmarshal_string raw old =
     (case raw of
        None \<Rightarrow> Inl (PlainError ''unexpected end of JSON input'')
      | Some v \<Rightarrow>
          if is_null v then Inr old
          else (case as_string v of
                  Some s \<Rightarrow> Inr s
                | None \<Rightarrow> Inl (PlainError (''json: cannot unmarshal '' @ value_kind v @ '' into Go value of type string''))))"

definition members_of :: "string \<Rightarrow> (string \<times> string) list option" where
  "members_of v = (case skip_ws v of c # t \<Rightarrow> if c = CHR ''{'' then Some (object_members t) else None | [] \<Rightarrow> None)"

definition jsonError_member :: "jsonError \<Rightarrow> string \<times> string \<Rightarrow> jsonError" where
  "jsonError_member e kv =
     (let (k, v) = kv in
      if key_is ''code'' k then (case parse_int64 v of Some n \<Rightarrow> e\<lparr>Code := n\<rparr> | None \<Rightarrow> e)
      else if key_is ''message'' k then e\<lparr>Message := decode_string v (Message e)\<rparr>
      else if key_is ''data'' k then e\<lparr>Data := (if is_null v then None else Some v)\<rparr>
      else e)"

definition zero_jsonError :: jsonError where
  "zero_jsonError = \<lparr>Code = 0, Message = [], Data = None\<rparr>"

definition decode_jsonError :: "string \<Rightarrow> jsonError option \<Rightarrow> jsonError option" where
  "decode_jsonError v old =
     (if is_null v then None
      else
        let e = (case old of Some e \<Rightarrow> e | None \<Rightarrow> zero_jsonError) in
        case members_of v of
          Some kvs \<Rightarrow> Some (foldl jsonError_member e kvs)
        | None \<Rightarrow> Some e)"

definition message_member :: "jsonrpcMessage \<Rightarrow> string \<times> string \<Rightarrow> jsonrpcMessage" where
  "message_member m kv =
     (let (k, v) = kv in
      if key_is ''jsonrpc'' k then m\<lparr>Version := decode_string v (Version m)\<rparr>
      else if key_is ''id'' k then m\<lparr>ID := Some v\<rparr>
      else if key_is ''method'' k then m\<lparr>Method := decode_string v (Method m)\<rparr>
      else if key_is ''params'' k then m\<lparr>Params := Some v\<rparr>
      else if key_is ''error'' k then m\<lparr>Err := decode_jsonError v (Err m)\<rparr>
      else if key_is ''result'' k then m\<lparr>Result := Some v\<rparr>
      else m)"

text \<open>Decoding into a \<open>*jsonrpcMessage\<close>: null clears the pointer, a value of another kind than an
  object leaves the zero message.\<close>

definition decode_message :: "string \<Rightarrow> jsonrpcMessage option" where
  "decode_message raw =
     (case next_value raw of
        None \<Rightarrow> Some zero_message
      | Some (v, _) \<Rightarrow>
          if is_null v then None
          else (case members_of v of
                  Some kvs \<Rightarrow> Some (foldl message_member zero_message kvs)
                | None \<Rightarrow> Some zero_message))"

text \<open>The loop over the bytes of the raw message.\<close>

fun isBatch :: "string \<Rightarrow> bool" where
  "isBatch [] = False"
| "isBatch (c # raw) =
     (if char_code c = 32 \<or> char_code c = 9 \<or> char_code c = 10 \<or> char_code c = 13 then isBatch raw
      else c = CHR ''['')"

definition parseMessage :: "string \<Rightarrow> jsonrpcMessage option list \<times> bool" where
  "parseMessage raw =
     (if \<not> isBatch raw then ([decode_message raw], False)
      else (map decode_message (array_elems (tl (skip_ws raw))), True))"

text \<open>What the codec's \<open>decode\<close> function can report when reading the next raw message.\<close>

datatype read_error = SyntaxError string | EOF | OtherReadError string

definition readBatch ::
  "read_error + string \<Rightarrow> read_error + (jsonrpcMessage list \<times> bool)" where
  "readBatch decoded =
     (case decoded of
        Inl err \<Rightarrow> Inl err
      | Inr rawmsg \<Rightarrow>
          let (messages, batch) = parseMessage rawmsg in
          Inr (map (\<lambda>m. case m of None \<Rightarrow> zero_message | Some m \<Rightarrow> m) messages, batch))"

section \<open>Arguments\<close>

text \<open>Types, as \<open>reflect.Type\<close>: a named type says whether it implements \<open>error\<close>.\<close>

datatype rtype =
    ContextType
  | ErrorType
  | SubscriptionType
  | StringType
  | Ptr rtype
  | Named string bool

definition is_ptr :: "rtype \<Rightarrow> bool" where
  "is_ptr t = (case t of Ptr _ \<Rightarrow> True | _ \<Rightarrow> False)"

text \<open>
  \<open>reflect.New\<close> gives a non-nil pointer, so the test \<open>argval.IsNil()\<close> of the source is always false;
  it is kept as the constant that it is.
\<close>

definition argval_IsNil :: bool where
  "argval_IsNil = False"

fun parseArgumentArray ::
  "(rtype \<Rightarrow> string \<Rightarrow> string + 'v) \<Rightarrow> nat \<Rightarrow> rtype list \<Rightarrow> string list \<Rightarrow> 'v list \<Rightarrow> rpc_error + 'v list" where
  "parseArgumentArray dec i types [] args = Inr args"
| "parseArgumentArray dec i types (v # vs) args =
     (if i \<ge> length types then
        Inl (PlainError (''too many arguments, want at most '' @ dec_nat (length types)))
      else
        (case dec (types ! i) v of
           Inl err \<Rightarrow> Inl (PlainError (''invalid argument '' @ dec_nat i @ '': '' @ err))
         | Inr x \<Rightarrow>
             if argval_IsNil \<and> \<not> is_ptr (types ! i) then
               Inl (PlainError (''missing value for required argument '' @ dec_nat i))
             else parseArgumentArray dec (Suc i) types vs (args @ [x])))"

text \<open>The loop that sets missing arguments to nil, from index \<open>i\<close> on.\<close>

fun fill_missing :: "(rtype \<Rightarrow> 'v) \<Rightarrow> nat \<Rightarrow> rtype list \<Rightarrow> 'v list \<Rightarrow> rpc_error + 'v list" where
  "fill_missing zero i [] args = Inr args"
| "fill_missing zero i (t # ts) args =
     (if \<not> is_ptr t then Inl (PlainError (''missing value for required argument '' @ dec_nat i))
      else fill_missing zero (Suc i) ts (args @ [zero t]))"

definition parsePositionalArguments ::
  "(rtype \<Rightarrow> string \<Rightarrow> string + 'v) \<Rightarrow> (rtype \<Rightarrow> 'v) \<Rightarrow> string option \<Rightarrow> rtype list \<Rightarrow> rpc_error + 'v list" where
  "parsePositionalArguments dec zero rawArgs types =
     (let raw = (case rawArgs of None \<Rightarrow> [] | Some r \<Rightarrow> r);
          parsed =
            (case token raw of
               TokEOF \<Rightarrow> Inr []
             | TokNull \<Rightarrow> Inr []
             | TokDelim c \<Rightarrow>
                 if c = CHR ''['' then parseArgumentArray dec 0 types (array_elems (tl (skip_ws raw))) []
                 else Inl (PlainError ''non-array args'')
             | _ \<Rightarrow> Inl (PlainError ''non-array args'')) in
      case parsed of
        Inl err \<Rightarrow> Inl err
      | Inr args \<Rightarrow> fill_missing zero (length args) (drop (length args) types) args)"

definition parseSubscriptionName :: "string option \<Rightarrow> rpc_error + string" where
  "parseSubscriptionName rawArgs =
     (let raw = (case rawArgs of None \<Rightarrow> [] | Some r \<Rightarrow> r) in
      if token raw \<noteq> TokDelim (CHR ''['') then Inl (PlainError ''non-array args'')
      else
        (case token (tl (skip_ws raw)) of
           TokString s \<Rightarrow> Inr s
         | _ \<Rightarrow> Inl (PlainError ''expected subscription name as first argument'')))"

section \<open>The connection's codec\<close>

text \<open>
  What is written on a connection: one message or a batch. The codec's \<open>encode\<close> function is an
  argument: it gives the error of the n-th attempt, if any. Times are nanoseconds.
\<close>

datatype wire = WMsg jsonrpcMessage | WBatch "jsonrpcMessage list"

record jsonCodec =
  remote :: string
  closer_done :: bool
  closeCh_closed :: bool
  conn_closes :: nat
  write_deadline :: int
  attempts :: nat
  written :: "wire list"

definition NewFuncCodec :: "string option \<Rightarrow> jsonCodec" where
  "NewFuncCodec remoteAddr =
     \<lparr>remote = (case remoteAddr of Some a \<Rightarrow> a | None \<Rightarrow> []), closer_done = False, closeCh_closed = False,
      conn_closes = 0, write_deadline = 0, attempts = 0, written = []\<rparr>"

definition defaultWriteTimeout :: int where
  "defaultWriteTimeout = 10 * 10 ^ 9"

definition writeJSON ::
  "(nat \<Rightarrow> rpc_error option) \<Rightarrow> int \<Rightarrow> int option \<Rightarrow> wire \<Rightarrow> jsonCodec \<Rightarrow> rpc_error option \<times> jsonCodec" where
  "writeJSON encode now ctxDeadline v c =
     (let deadline = (case ctxDeadline of Some d \<Rightarrow> d | None \<Rightarrow> now + defaultWriteTimeout);
          c = c\<lparr>write_deadline := deadline, attempts := Suc (attempts c)\<rparr> in
      case encode (attempts c - 1) of
        Some err \<Rightarrow> (Some err, c)
      | None \<Rightarrow> (None, c\<lparr>written := written c @ [v]\<rparr>))"

definition codec_close :: "jsonCodec \<Rightarrow> jsonCodec" where
  "codec_close c =
     (if closer_done c then c
      else c\<lparr>closer_done := True, closeCh_closed := True, conn_closes := Suc (conn_closes c)\<rparr>)"

section \<open>Lemmas on parsing\<close>

lemma key_is_quote: "ascii k \<Longrightarrow> key_is name (json_quote k) \<longleftrightarrow> fold_key k = name"
  by (simp add: key_is_def)

lemma field_names [simp]:
  "ascii ''jsonrpc''" "ascii ''id''" "ascii ''method''" "ascii ''params''" "ascii ''error''" "ascii ''result''"
  "ascii ''code''" "ascii ''message''" "ascii ''data''" "ascii ''subscription''"
  by (simp_all add: ascii_simps char_code_def)

lemma fold_names [simp]:
  "fold_key ''jsonrpc'' = ''jsonrpc''" "fold_key ''id'' = ''id''" "fold_key ''method'' = ''method''"
  "fold_key ''params'' = ''params''" "fold_key ''error'' = ''error''" "fold_key ''result'' = ''result''"
  "fold_key ''code'' = ''code''" "fold_key ''message'' = ''message''" "fold_key ''data'' = ''data''"
  "fold_key ''subscription'' = ''subscription''"
  by (simp_all add: char_code_def)

lemma message_member_simps [simp]:
  "message_member m (json_quote ''jsonrpc'', v) = m\<lparr>Version := decode_string v (Version m)\<rparr>"
  "message_member m (json_quote ''id'', v) = m\<lparr>ID := Some v\<rparr>"
  "message_member m (json_quote ''method'', v) = m\<lparr>Method := decode_string v (Method m)\<rparr>"
  "message_member m (json_quote ''params'', v) = m\<lparr>Params := Some v\<rparr>"
  "message_member m (json_quote ''error'', v) = m\<lparr>Err := decode_jsonError v (Err m)\<rparr>"
  "message_member m (json_quote ''result'', v) = m\<lparr>Result := Some v\<rparr>"
  by (simp_all add: message_member_def key_is_quote del: fold_key.simps)

lemma jsonError_member_simps [simp]:
  "jsonError_member e (json_quote ''code'', v) = (case parse_int64 v of Some n \<Rightarrow> e\<lparr>Code := n\<rparr> | None \<Rightarrow> e)"
  "jsonError_member e (json_quote ''message'', v) = e\<lparr>Message := decode_string v (Message e)\<rparr>"
  "jsonError_member e (json_quote ''data'', v) = e\<lparr>Data := (if is_null v then None else Some v)\<rparr>"
  by (simp_all add: jsonError_member_def key_is_quote del: fold_key.simps)

text \<open>
  The messages whose fields the wire format carries: ASCII names, raw fields that are complete,
  compact values, an error code that is a 64-bit integer and error data other than null.
\<close>

definition wf_raw :: "string option \<Rightarrow> bool" where
  "wf_raw r = (case r of None \<Rightarrow> True | Some v \<Rightarrow> is_value v \<and> compact Outside v = v)"

definition wf_jsonError :: "jsonError \<Rightarrow> bool" where
  "wf_jsonError e \<longleftrightarrow> - (2 ^ 63) \<le> Code e \<and> Code e < 2 ^ 63 \<and> ascii (Message e)
     \<and> (case Data e of None \<Rightarrow> True | Some d \<Rightarrow> is_value d \<and> \<not> is_null d)"

definition wf_message :: "jsonrpcMessage \<Rightarrow> bool" where
  "wf_message m \<longleftrightarrow> ascii (Version m) \<and> ascii (Method m) \<and> wf_raw (ID m) \<and> wf_raw (Params m)
     \<and> wf_raw (Result m) \<and> (case Err m of None \<Rightarrow> True | Some e \<Rightarrow> wf_jsonError e)"

lemma members_of_encode:
  assumes "\<forall>(k, v) \<in> set kvs. ascii k \<and> is_value v"
  shows "members_of (encode_object kvs) = Some (map (\<lambda>(k, v). (json_quote k, v)) kvs)"
    and "\<not> is_null (encode_object kvs)"
  using object_members_encode [OF assms]
  by (simp_all add: members_of_def encode_object_def is_null_def null_raw_def skip_ws_def is_ws_def char_code_def)

lemma omit_raw_wf: "wf_raw r \<Longrightarrow> omit_raw k r = (case r of None \<Rightarrow> [] | Some v \<Rightarrow> [(k, v)])"
  by (cases r) (auto simp: omit_raw_def wf_raw_def dest: value_head(1))

lemma jsonError_values:
  "wf_jsonError e \<Longrightarrow> is_value (marshal_jsonError e)"
  unfolding marshal_jsonError_def
  by (rule is_value_encode_object) (auto simp: wf_jsonError_def split: option.splits)

lemma decode_jsonError_marshal:
  assumes "wf_jsonError e"
  shows "decode_jsonError (marshal_jsonError e) None = Some e"
proof -
  let ?kvs = "[(''code'', dec_int (Code e)), (''message'', json_quote (Message e))]
       @ (case Data e of None \<Rightarrow> [] | Some d \<Rightarrow> [(''data'', d)])"
  have "\<forall>(k, v) \<in> set ?kvs. ascii k \<and> is_value v"
    using assms by (auto simp: wf_jsonError_def split: option.splits)
  from members_of_encode [OF this] assms show ?thesis
    by (cases e) (auto simp: decode_jsonError_def marshal_jsonError_def wf_jsonError_def
        parse_int64_dec_int zero_jsonError_def decode_string_def split: option.splits)
qed

lemma message_member_values:
  "wf_message m \<Longrightarrow> \<forall>(k, v) \<in> set (message_members m). ascii k \<and> is_value v"
  by (auto simp: wf_message_def message_members_def omit_empty_def omit_raw_wf jsonError_values wf_raw_def
      split: option.splits if_splits)

lemma decode_fields:
  assumes "wf_message m"
  shows "foldl message_member zero_message (map (\<lambda>(k, v). (json_quote k, v)) (message_members m)) = m"
proof -
  have v: "foldl message_member x (map (\<lambda>(k, v). (json_quote k, v)) (omit_empty ''jsonrpc'' s)) = x\<lparr>Version := s\<rparr>"
    if "Version x = []" "ascii s" for x s using that by (cases x) (simp add: omit_empty_def decode_string_def)
  have me: "foldl message_member x (map (\<lambda>(k, v). (json_quote k, v)) (omit_empty ''method'' s)) = x\<lparr>Method := s\<rparr>"
    if "Method x = []" "ascii s" for x s using that by (cases x) (simp add: omit_empty_def decode_string_def)
  show ?thesis
    using assms
    by (cases m) (auto simp: wf_message_def message_members_def omit_raw_wf v me zero_message_def
        decode_jsonError_marshal split: option.splits)
qed

lemma decode_message_String:
  assumes "wf_message m"
  shows "decode_message (message_String m) = Some m"
proof -
  note vals = message_member_values [OF assms]
  have "next_value (message_String m) = Some (message_String m, [])"
    using next_value_value [OF is_value_encode_object [OF vals], of "[]"] by (simp add: message_String_def)
  then show ?thesis
    using members_of_encode [OF vals] decode_fields [OF assms]
    by (simp add: decode_message_def message_String_def)
qed

lemma parseMessage_single:
  assumes "wf_message m"
  shows "parseMessage (message_String m) = ([Some m], False)"
proof -
  have "\<not> isBatch (message_String m)"
    by (simp add: message_String_def encode_object_def char_code_def)
  then show ?thesis by (simp add: parseMessage_def decode_message_String [OF assms])
qed

lemma parseMessage_batch:
  assumes "list_all wf_message ms"
  shows "parseMessage (encode_array (map message_String ms)) = (map Some ms, True)"
proof -
  have vals: "list_all is_value (map message_String ms)"
    using assms is_value_encode_object [OF message_member_values]
    by (auto simp: list_all_iff message_String_def)
  have "isBatch (encode_array vs)" and "tl (skip_ws (encode_array vs)) = join '','' vs @ '']''" for vs
    by (simp_all add: encode_array_def char_code_def skip_ws_def is_ws_def)
  with array_elems_join [OF vals, of "[]"]
  have "parseMessage (encode_array (map message_String ms)) = (map decode_message (map message_String ms), True)"
    by (simp add: parseMessage_def)
  then show ?thesis using assms by (auto simp: list_all_iff decode_message_String)
qed



section \<open>Positional arguments\<close>

lemma parseArgumentArray_iff:
  "i \<le> length types \<Longrightarrow>
   parseArgumentArray dec i types vs acc = Inr args \<longleftrightarrow>
     i + length vs \<le> length types \<and>
     (\<exists>xs. args = acc @ xs \<and> length xs = length vs \<and> (\<forall>k < length vs. dec (types ! (i + k)) (vs ! k) = Inr (xs ! k)))"
proof (induction vs arbitrary: i acc)
  case Nil
  then show ?case by auto
next
  case (Cons v vs)
  show ?case
  proof (cases "i < length types")
    case False
    then show ?thesis by auto
  next
    case True
    have "(\<exists>xs. args = acc @ xs \<and> length xs = length (v # vs)
          \<and> (\<forall>k < length (v # vs). dec (types ! (i + k)) ((v # vs) ! k) = Inr (xs ! k)))
      \<longleftrightarrow> (\<exists>x xs. args = acc @ x # xs \<and> dec (types ! i) v = Inr x \<and> length xs = length vs
          \<and> (\<forall>k < length vs. dec (types ! (Suc i + k)) (vs ! k) = Inr (xs ! k)))"
      by (auto simp: length_Suc_conv All_less_Suc2)
    with True Cons.IH [of "Suc i"] show ?thesis
      by (auto simp: argval_IsNil_def split: sum.splits)
  qed
qed

lemma fill_missing_iff:
  "fill_missing zero i ts acc = Inr args \<longleftrightarrow> list_all is_ptr ts \<and> args = acc @ map zero ts"
  by (induction zero i ts acc rule: fill_missing.induct) auto

lemma parsePositionalArguments_array:
  assumes "list_all is_value vs"
  shows "parsePositionalArguments dec zero (Some (encode_array vs)) types =
    (case parseArgumentArray dec 0 types vs [] of
       Inl err \<Rightarrow> Inl err
     | Inr args \<Rightarrow> fill_missing zero (length args) (drop (length args) types) args)"
proof -
  have tok: "token (encode_array vs) = TokDelim CHR ''[''"
    and tl: "tl (skip_ws (encode_array vs)) = join '','' vs @ '']''"
    by (simp_all add: token_def encode_array_def skip_ws_def is_ws_def char_code_def)
  have el: "array_elems (join '','' vs @ '']'') = vs"
    using array_elems_join [OF assms, of "[]"] .
  show ?thesis by (simp add: parsePositionalArguments_def tok tl el)
qed

text \<open>
  C30. Positional arguments: on an array of values, parsing succeeds exactly when there are not
  more values than parameters, every value decodes into the type of its parameter and every
  parameter without a value is of pointer kind; the result then has one argument per parameter,
  the decoded values followed by the zero values of the missing ones.
\<close>

theorem parsePositionalArguments_iff:
  assumes "list_all is_value vs"
  shows "parsePositionalArguments dec zero (Some (encode_array vs)) types = Inr args \<longleftrightarrow>
    length vs \<le> length types \<and> length args = length types
    \<and> (\<forall>i < length vs. dec (types ! i) (vs ! i) = Inr (args ! i))
    \<and> (\<forall>i. length vs \<le> i \<and> i < length types \<longrightarrow> is_ptr (types ! i) \<and> args ! i = zero (types ! i))"
proof -
  have "parsePositionalArguments dec zero (Some (encode_array vs)) types = Inr args \<longleftrightarrow>
      (\<exists>xs. parseArgumentArray dec 0 types vs [] = Inr xs \<and> list_all is_ptr (drop (length xs) types)
         \<and> args = xs @ map zero (drop (length xs) types))"
    by (auto simp: parsePositionalArguments_array [OF assms] fill_missing_iff split: sum.splits)
  also have "\<dots> \<longleftrightarrow> length vs \<le> length types \<and> (\<exists>xs. length xs = length vs
      \<and> (\<forall>k < length vs. dec (types ! k) (vs ! k) = Inr (xs ! k))
      \<and> list_all is_ptr (drop (length vs) types) \<and> args = xs @ map zero (drop (length vs) types))"
    by (auto simp: parseArgumentArray_iff)
  also have "\<dots> \<longleftrightarrow> length vs \<le> length types \<and> length args = length types
    \<and> (\<forall>i < length vs. dec (types ! i) (vs ! i) = Inr (args ! i))
    \<and> (\<forall>i. length vs \<le> i \<and> i < length types \<longrightarrow> is_ptr (types ! i) \<and> args ! i = zero (types ! i))"
    (is "_ \<longleftrightarrow> ?rhs")
  proof (rule iffI)
    assume ?rhs
    moreover from this have "args = take (length vs) args @ map zero (drop (length vs) types)"
      by (intro nth_equalityI) (auto simp: nth_append)
    ultimately show "length vs \<le> length types \<and> (\<exists>xs. length xs = length vs
      \<and> (\<forall>k < length vs. dec (types ! k) (vs ! k) = Inr (xs ! k))
      \<and> list_all is_ptr (drop (length vs) types) \<and> args = xs @ map zero (drop (length vs) types))"
      by (auto simp: list_all_length intro!: exI [of _ "take (length vs) args"])
  next
    assume "length vs \<le> length types \<and> (\<exists>xs. length xs = length vs
      \<and> (\<forall>k < length vs. dec (types ! k) (vs ! k) = Inr (xs ! k))
      \<and> list_all is_ptr (drop (length vs) types) \<and> args = xs @ map zero (drop (length vs) types))"
    then obtain xs where le: "length vs \<le> length types" and xs: "length xs = length vs"
        "\<forall>k < length vs. dec (types ! k) (vs ! k) = Inr (xs ! k)" "args = xs @ map zero (drop (length vs) types)"
      and ptr: "list_all is_ptr (drop (length vs) types)" by blast
    have "is_ptr (types ! i) \<and> args ! i = zero (types ! i)" if i: "length vs \<le> i" "i < length types" for i
    proof -
      have "drop (length vs) types ! (i - length vs) = types ! i" "i - length vs < length (drop (length vs) types)"
        using i by auto
      moreover from this ptr have "is_ptr (types ! i)" by (metis list_all_length)
      ultimately show ?thesis using xs(1,3) i by (simp add: nth_append)
    qed
    moreover have "args ! i = xs ! i" if "i < length vs" for i
      using that xs by (simp add: nth_append)
    ultimately show ?rhs using le xs by (auto simp del: nth_append)
  qed
  finally show ?thesis .
qed

theorem parsePositionalArguments_iff_witness:
  "parsePositionalArguments (\<lambda>t v. Inr v) (\<lambda>t. ''nil'') (Some (encode_array [''1''])) [StringType, Ptr StringType]
     = Inr [''1'', ''nil'']"
proof -
  have "list_all is_value [''1'']"
    by (simp add: is_value_def quote_char_def is_lit_char_def is_digit_def char_code_def)
  from parsePositionalArguments_iff [OF this, of "\<lambda>t v. Inr v" "\<lambda>t. ''nil''" "[StringType, Ptr StringType]" "[''1'', ''nil'']"]
  show ?thesis by (auto simp: All_less_Suc2 less_Suc_eq is_ptr_def)
qed

end
