(* ===== verification/Rpc_Service.thy ===== *)
theory Rpc_Service
  imports Rpc_Message
begin

text \<open>
  The service registry (\<open>simple_rpc/rpc/service.go\<close>): which methods of a receiver become RPC
  callbacks or subscriptions, registration under a name, lookup by method name, and the call of a
  callback with recovery from panics. A Go function is known by an identity of type \<open>'f\<close> and its
  parameter and result types; running it is an argument (\<open>invoke\<close>) of \<open>call\<close>.
\<close>

section \<open>Callbacks\<close>

record 'f gofunc =
  fn_id :: 'f
  fn_in :: "rtype list"
  fn_out :: "rtype list"

record 'f callback =
  fn :: "'f gofunc"
  has_rcvr :: bool
  argTypes :: "rtype list"
  hasCtx :: bool
  errPos :: int
  cb_isSubscribe :: bool

text \<open>A method as \<open>reflect.Method\<close> gives it: exported methods have an empty package path.\<close>

record 'f gomethod =
  m_name :: string
  m_pkgPath :: string
  m_func :: "'f gofunc"

fun strip_ptr :: "rtype \<Rightarrow> rtype" where
  "strip_ptr (Ptr t) = strip_ptr t"
| "strip_ptr t = t"

definition isContextType :: "rtype \<Rightarrow> bool" where
  "isContextType t \<longleftrightarrow> strip_ptr t = ContextType"

definition implements_error :: "rtype \<Rightarrow> bool" where
  "implements_error t = (case t of ErrorType \<Rightarrow> True | Named _ e \<Rightarrow> e | _ \<Rightarrow> False)"

definition isErrorType :: "rtype \<Rightarrow> bool" where
  "isErrorType t = implements_error (strip_ptr t)"

definition isSubscriptionType :: "rtype \<Rightarrow> bool" where
  "isSubscriptionType t \<longleftrightarrow> strip_ptr t = SubscriptionType"

definition isPubSub :: "'f gofunc \<Rightarrow> bool" where
  "isPubSub f =
     (if length (fn_in f) < 2 \<or> length (fn_out f) \<noteq> 2 then False
      else isContextType (fn_in f ! 1) \<and> isSubscriptionType (fn_out f ! 0) \<and> isErrorType (fn_out f ! 1))"

text \<open>The argument types after the receiver and the context, and whether there is a context.\<close>

definition makeArgTypes :: "bool \<Rightarrow> rtype list \<Rightarrow> rtype list \<times> bool" where
  "makeArgTypes rcvr ins =
     (let firstArg = (if rcvr then 1 else 0);
          ctx = (length ins > firstArg \<and> ins ! firstArg = ContextType);
          firstArg = (if ctx then firstArg + 1 else firstArg) in
      (drop firstArg ins, ctx))"

definition newCallback :: "bool \<Rightarrow> 'f gofunc \<Rightarrow> 'f callback option" where
  "newCallback rcvr f =
     (let (at, ctx) = makeArgTypes rcvr (fn_in f);
          c = \<lparr>fn = f, has_rcvr = rcvr, argTypes = at, hasCtx = ctx, errPos = -1, cb_isSubscribe = isPubSub f\<rparr>;
          outs = fn_out f in
      if length outs > 2 then None
      else if length outs = 1 \<and> isErrorType (outs ! 0) then Some (c\<lparr>errPos := 0\<rparr>)
      else if length outs = 2 then
        (if isErrorType (outs ! 0) \<or> \<not> isErrorType (outs ! 1) then None else Some (c\<lparr>errPos := 1\<rparr>))
      else Some c)"

text \<open>\<open>unicode.ToLower\<close> of the first rune, for an ASCII first letter (the others are left as they are).\<close>

definition formatName :: "string \<Rightarrow> string" where
  "formatName name =
     (case name of
        [] \<Rightarrow> []
      | c # s \<Rightarrow> (if 65 \<le> char_code c \<and> char_code c \<le> 90 then char_of (char_code c + 32) else c) # s)"

text \<open>
  The loop over the methods. The map of callbacks is an association list with distinct keys, since
  the caller asks for its size; a later method of the same formatted name replaces the earlier one.
\<close>

fun suitableCallbacks ::
  "'f gomethod list \<Rightarrow> (string \<times> 'f callback) list \<Rightarrow> (string \<times> 'f callback) list" where
  "suitableCallbacks [] callbacks = callbacks"
| "suitableCallbacks (m # ms) callbacks =
     (if m_pkgPath m \<noteq> [] then suitableCallbacks ms callbacks
      else
        (case newCallback True (m_func m) of
           None \<Rightarrow> suitableCallbacks ms callbacks
         | Some cb \<Rightarrow> suitableCallbacks ms (AList.update (formatName (m_name m)) cb callbacks)))"

section \<open>The registry\<close>

record 'f service =
  name :: string
  callbacks :: "string \<rightharpoonup> 'f callback"
  subscriptions :: "string \<rightharpoonup> 'f callback"

text \<open>
  The maps of a service are shared references in the source, so an update of them is visible in the
  registry; here the updated service is stored back. The type name is that of the receiver.
\<close>

type_synonym 'f serviceRegistry = "string \<rightharpoonup> 'f service"

fun add_callbacks :: "(string \<times> 'f callback) list \<Rightarrow> 'f service \<Rightarrow> 'f service" where
  "add_callbacks [] svc = svc"
| "add_callbacks ((nam, cb) # cbs) svc =
     add_callbacks cbs
       (if cb_isSubscribe cb then svc\<lparr>subscriptions := (subscriptions svc)(nam \<mapsto> cb)\<rparr>
        else svc\<lparr>callbacks := (callbacks svc)(nam \<mapsto> cb)\<rparr>)"

definition registerName ::
  "'f serviceRegistry \<Rightarrow> string \<Rightarrow> string \<Rightarrow> 'f gomethod list \<Rightarrow> rpc_error option \<times> 'f serviceRegistry" where
  "registerName r nam typeName methods =
     (if nam = [] then (Some (PlainError (''no service name for type '' @ typeName)), r)
      else
        let cbs = suitableCallbacks methods [] in
        if length cbs = 0 then
          (Some (PlainError (''service '' @ typeName
             @ '' doesn't have any suitable methods/subscriptions to expose'')), r)
        else
          let svc = (case r nam of
                       Some svc \<Rightarrow> svc
                     | None \<Rightarrow> \<lparr>name = nam, callbacks = Map.empty, subscriptions = Map.empty\<rparr>) in
          (None, r(nam \<mapsto> add_callbacks cbs svc)))"

definition registry_callback :: "'f serviceRegistry \<Rightarrow> string \<Rightarrow> 'f callback option" where
  "registry_callback r method =
     (let elem = SplitN2 method serviceMethodSeparator in
      if length elem \<noteq> 2 then None
      else (case r (elem ! 0) of None \<Rightarrow> None | Some svc \<Rightarrow> callbacks svc (elem ! 1)))"

definition registry_subscription :: "'f serviceRegistry \<Rightarrow> string \<Rightarrow> string \<Rightarrow> 'f callback option" where
  "registry_subscription r svcName nam =
     (case r svcName of None \<Rightarrow> None | Some svc \<Rightarrow> subscriptions svc nam)"

section \<open>Calls\<close>

text \<open>A result value of a Go function: an ordinary value, or an error that may be nil.\<close>

datatype 'v rvalue = RVal 'v | RErr "rpc_error option"

datatype 'a fullarg = ArgRcvr | ArgCtx | ArgVal 'a

text \<open>The arguments handed to the function: receiver, context and the parsed values.\<close>

definition fullargs :: "'f callback \<Rightarrow> 'a list \<Rightarrow> 'a fullarg list" where
  "fullargs c args =
     (if has_rcvr c then [ArgRcvr] else []) @ (if hasCtx c then [ArgCtx] else []) @ map ArgVal args"

text \<open>What becomes of the outcome of the function; the deferred recovery turns a panic into an error.\<close>

definition call_results :: "'f callback \<Rightarrow> 'v rvalue list outcome \<Rightarrow> rpc_error + 'v rvalue option" where
  "call_results c r =
     (case r of
        Panic p \<Rightarrow> Inl (PlainError ''method handler crashed'')
      | Return results \<Rightarrow>
          if length results = 0 then Inr None
          else
            (case (if errPos c \<ge> 0 then
                     (case results ! nat (errPos c) of RErr (Some e) \<Rightarrow> Some e | _ \<Rightarrow> None)
                   else None) of
               Some err \<Rightarrow> Inl err
             | None \<Rightarrow> Inr (Some (results ! 0))))"

definition call ::
  "('f \<Rightarrow> 'a fullarg list \<Rightarrow> 'v rvalue list outcome) \<Rightarrow> 'f callback \<Rightarrow> 'a list \<Rightarrow> rpc_error + 'v rvalue option" where
  "call invoke c args = call_results c (invoke (fn_id (fn c)) (fullargs c args))"

section \<open>Lemmas\<close>

lemma SplitN2_at_sep:
  assumes "sep \<notin> set a"
  shows "SplitN2 (a @ sep # b) sep = [a, b]"
proof -
  have "takeWhile (\<lambda>c. c \<noteq> sep) (a @ sep # b) = a" "dropWhile (\<lambda>c. c \<noteq> sep) (a @ sep # b) = sep # b"
    using assms by (induction a) auto
  then show ?thesis by (simp add: SplitN2_def)
qed

lemma suitableCallbacks_distinct: "distinct (map fst cbs) \<Longrightarrow> distinct (map fst (suitableCallbacks ms cbs))"
  by (induction ms arbitrary: cbs) (auto split: option.split simp: distinct_update)

text \<open>The method that a formatted name ends up with: the last exported, well-typed one.\<close>

definition suitable :: "'f gomethod \<Rightarrow> 'f callback option" where
  "suitable m = (if m_pkgPath m = [] then newCallback True (m_func m) else None)"

lemma suitableCallbacks_Cons:
  "suitableCallbacks (m # ms) cbs =
     suitableCallbacks ms (case suitable m of None \<Rightarrow> cbs | Some cb \<Rightarrow> AList.update (formatName (m_name m)) cb cbs)"
  by (auto simp: suitable_def split: option.split)

lemma suitableCallbacks_lookup:
  assumes "distinct (map (formatName \<circ> m_name) ms)"
  shows "map_of (suitableCallbacks ms cbs) k =
    (case find (\<lambda>m. formatName (m_name m) = k \<and> suitable m \<noteq> None) ms of
       Some m \<Rightarrow> suitable m | None \<Rightarrow> map_of cbs k)"
  using assms
proof (induction ms arbitrary: cbs)
  case Nil
  show ?case by simp
next
  case (Cons m ms)
  have none: "find (\<lambda>m'. formatName (m_name m') = formatName (m_name m) \<and> suitable m' \<noteq> None) ms = None"
    using Cons.prems by (force simp: find_None_iff image_iff)
  show ?case
    using Cons.IH Cons.prems none
    by (auto simp: suitableCallbacks_Cons update_conv' split: option.split simp del: suitableCallbacks.simps)
qed

lemma add_callbacks_lookup:
  assumes "distinct (map fst cbs)"
  shows "callbacks (add_callbacks cbs svc) k =
      (case map_of cbs k of Some cb \<Rightarrow> if cb_isSubscribe cb then callbacks svc k else Some cb | None \<Rightarrow> callbacks svc k)"
    and "subscriptions (add_callbacks cbs svc) k =
      (case map_of cbs k of Some cb \<Rightarrow> if cb_isSubscribe cb then Some cb else subscriptions svc k | None \<Rightarrow> subscriptions svc k)"
proof -
  have "callbacks (add_callbacks cbs svc) k =
      (case map_of cbs k of Some cb \<Rightarrow> if cb_isSubscribe cb then callbacks svc k else Some cb | None \<Rightarrow> callbacks svc k)
    \<and> subscriptions (add_callbacks cbs svc) k =
      (case map_of cbs k of Some cb \<Rightarrow> if cb_isSubscribe cb then Some cb else subscriptions svc k | None \<Rightarrow> subscriptions svc k)"
    using assms
  proof (induction cbs arbitrary: svc k)
    case (Cons x cbs)
    obtain n cb where x: "x = (n, cb)" by (cases x)
    have none: "map_of cbs n = None" using Cons.prems by (simp add: x map_of_eq_None_iff)
    have "distinct (map fst cbs)" using Cons.prems by simp
    note IH = Cons.IH [OF this]
    show ?case
      by (cases "k = n"; cases "cb_isSubscribe cb") (simp_all add: x IH none split: option.split)
  qed simp
  then show "callbacks (add_callbacks cbs svc) k =
      (case map_of cbs k of Some cb \<Rightarrow> if cb_isSubscribe cb then callbacks svc k else Some cb | None \<Rightarrow> callbacks svc k)"
    and "subscriptions (add_callbacks cbs svc) k =
      (case map_of cbs k of Some cb \<Rightarrow> if cb_isSubscribe cb then Some cb else subscriptions svc k | None \<Rightarrow> subscriptions svc k)"
    by blast+
qed

lemma newCallback_fields:
  assumes "newCallback rcvr f = Some cb"
  shows "fn cb = f" "has_rcvr cb = rcvr" "cb_isSubscribe cb = isPubSub f"
    "0 \<le> errPos cb \<longrightarrow> fn_out f \<noteq> [] \<and> nat (errPos cb) = length (fn_out f) - 1"
    "0 \<le> errPos cb \<longleftrightarrow> fn_out f \<noteq> [] \<and> isErrorType (last (fn_out f))"
proof -
  have fields: "fn cb = f \<and> has_rcvr cb = rcvr \<and> cb_isSubscribe cb = isPubSub f"
    using assms by (auto simp: newCallback_def Let_def split: prod.splits if_splits)
  then show "fn cb = f" "has_rcvr cb = rcvr" "cb_isSubscribe cb = isPubSub f" by blast+
  have "length (fn_out f) \<le> 2"
    using assms by (auto simp: newCallback_def Let_def split: prod.splits if_splits)
  then consider "fn_out f = []" | a where "fn_out f = [a]" | a b where "fn_out f = [a, b]"
    by (metis One_nat_def Suc_1 length_0_conv length_Suc_conv le_Suc_eq le_zero_eq)
  then have "(0 \<le> errPos cb \<longrightarrow> fn_out f \<noteq> [] \<and> nat (errPos cb) = length (fn_out f) - 1)
    \<and> (0 \<le> errPos cb \<longleftrightarrow> fn_out f \<noteq> [] \<and> isErrorType (last (fn_out f)))"
    by cases (use assms in \<open>auto simp: newCallback_def Let_def split: prod.splits if_splits\<close>)
  then show "0 \<le> errPos cb \<longrightarrow> fn_out f \<noteq> [] \<and> nat (errPos cb) = length (fn_out f) - 1"
    "0 \<le> errPos cb \<longleftrightarrow> fn_out f \<noteq> [] \<and> isErrorType (last (fn_out f))" by blast+
qed

section \<open>Registration and lookup\<close>

text \<open>What a lookup of a name among the methods of a receiver gives.\<close>

definition exposed :: "'f gomethod list \<Rightarrow> string \<Rightarrow> 'f callback option" where
  "exposed ms k =
     (case find (\<lambda>m. formatName (m_name m) = k \<and> suitable m \<noteq> None) ms of Some m \<Rightarrow> suitable m | None \<Rightarrow> None)"

lemma registerName_service:
  assumes "registerName r nam T ms = (None, r')" and "distinct (map (formatName \<circ> m_name) ms)"
  shows "\<exists>svc. r' = r(nam \<mapsto> svc)
    \<and> (\<forall>k. callbacks svc k = (case exposed ms k of
          Some cb \<Rightarrow> if cb_isSubscribe cb then Option.bind (r nam) (\<lambda>s. callbacks s k) else Some cb
        | None \<Rightarrow> Option.bind (r nam) (\<lambda>s. callbacks s k)))
    \<and> (\<forall>k. subscriptions svc k = (case exposed ms k of
          Some cb \<Rightarrow> if cb_isSubscribe cb then Some cb else Option.bind (r nam) (\<lambda>s. subscriptions s k)
        | None \<Rightarrow> Option.bind (r nam) (\<lambda>s. subscriptions s k)))"
proof -
  define old where "old = (case r nam of Some svc \<Rightarrow> svc
      | None \<Rightarrow> \<lparr>name = nam, callbacks = Map.empty, subscriptions = Map.empty\<rparr>)"
  have r': "r' = r(nam \<mapsto> add_callbacks (suitableCallbacks ms []) old)"
    using assms(1) by (auto simp: registerName_def Let_def old_def split: if_splits)
  have look: "map_of (suitableCallbacks ms []) k = exposed ms k" for k
    using suitableCallbacks_lookup [OF assms(2), of "[]" k] by (simp add: exposed_def split: option.split)
  have old: "callbacks old k = Option.bind (r nam) (\<lambda>s. callbacks s k)"
    "subscriptions old k = Option.bind (r nam) (\<lambda>s. subscriptions s k)" for k
    by (simp_all add: old_def split: option.split)
  have "distinct (map fst (suitableCallbacks ms []))"
    by (rule suitableCallbacks_distinct) simp
  from add_callbacks_lookup [OF this, of old] show ?thesis
    unfolding r' look old by blast
qed

section \<open>The registry as a directory of methods\<close>

text \<open>
  What the server relies on when it registers several APIs: a registration under a name offers its
  methods under that name, over those of earlier registrations, and touches no other name. \<open>plain\<close>
  are the names that calls can have, \<open>good\<close> the receivers whose methods have different names.
\<close>

fun register_all :: "('r \<Rightarrow> string \<Rightarrow> 'm \<Rightarrow> 'r option) \<Rightarrow> (string \<times> 'm) list \<Rightarrow> 'r \<Rightarrow> 'r option" where
  "register_all register [] r = Some r"
| "register_all register ((n, m) # xs) r = Option.bind (register r n m) (register_all register xs)"

locale service_directory =
  fixes register :: "'r \<Rightarrow> string \<Rightarrow> 'm \<Rightarrow> 'r option"
    and look :: "'r \<Rightarrow> string \<Rightarrow> string \<Rightarrow> 'c option"
    and offers :: "'m \<Rightarrow> string \<Rightarrow> 'c option"
    and plain :: "string \<Rightarrow> bool"
    and good :: "'m \<Rightarrow> bool"
  assumes look_register: "register r n m = Some r' \<Longrightarrow> plain n \<Longrightarrow> good m \<Longrightarrow>
      look r' n k = (case offers m k of Some c \<Rightarrow> Some c | None \<Rightarrow> look r n k)"
    and look_other: "register r n m = Some r' \<Longrightarrow> plain n' \<Longrightarrow> n' \<noteq> n \<Longrightarrow> look r' n' k = look r n' k"
begin

lemma look_all_other:
  assumes "register_all register xs r = Some r'" and "plain n" and "n \<notin> fst ` set xs"
  shows "look r' n k = look r n k"
  using assms
proof (induction xs arbitrary: r)
  case (Cons x xs)
  then obtain r1 where "register r (fst x) (snd x) = Some r1" "register_all register xs r1 = Some r'"
    by (cases x) (auto simp: bind_eq_Some_conv)
  then show ?case using Cons.IH [of r1] Cons.prems look_other by simp
qed simp

lemma look_all:
  assumes "register_all register xs r = Some r'" and "distinct (map fst xs)" and "(n, m) \<in> set xs" and "plain n" and "good m"
  shows "look r' n k = (case offers m k of Some c \<Rightarrow> Some c | None \<Rightarrow> look r n k)"
  using assms(1-3)
proof (induction xs arbitrary: r)
  case (Cons x xs)
  then obtain r1 where r1: "register r (fst x) (snd x) = Some r1" "register_all register xs r1 = Some r'"
    by (cases x) (auto simp: bind_eq_Some_conv)
  show ?case
  proof (cases "x = (n, m)")
    case True
    then have "look r' n k = look r1 n k" using look_all_other [OF r1(2) assms(4)] Cons.prems(2) by simp
    then show ?thesis using True r1(1) look_register [of r n m r1 k] assms(4,5) by simp
  next
    case False
    then have "(n, m) \<in> set xs" using Cons.prems(3) by simp
    moreover from this have "n \<noteq> fst x" using Cons.prems(2) by (auto simp: rev_image_eqI)
    ultimately show ?thesis using Cons.IH [OF r1(2)] Cons.prems(2) look_other [OF r1(1) assms(4)] by (simp split: option.split)
  qed
qed simp

end

text \<open>A receiver is its type name and its methods.\<close>

definition register_receiver :: "'f serviceRegistry \<Rightarrow> string \<Rightarrow> string \<times> 'f gomethod list \<Rightarrow> 'f serviceRegistry option" where
  "register_receiver r n m = (case registerName r n (fst m) (snd m) of (None, r') \<Rightarrow> Some r' | _ \<Rightarrow> None)"

definition call_named :: "'f serviceRegistry \<Rightarrow> string \<Rightarrow> string \<Rightarrow> 'f callback option" where
  "call_named r n k = registry_callback r (n @ serviceMethodSeparator # k)"

definition offered :: "'f gomethod list \<Rightarrow> string \<Rightarrow> 'f callback option" where
  "offered ms k = Option.bind (exposed ms k) (\<lambda>cb. if cb_isSubscribe cb then None else Some cb)"

lemma call_named_eq:
  "serviceMethodSeparator \<notin> set n \<Longrightarrow> call_named r n k = Option.bind (r n) (\<lambda>svc. callbacks svc k)"
  by (cases "r n") (simp_all add: call_named_def registry_callback_def SplitN2_at_sep)

interpretation registry: service_directory register_receiver call_named "\<lambda>m. offered (snd m)"
  "\<lambda>n. serviceMethodSeparator \<notin> set n" "\<lambda>m. distinct (map (formatName \<circ> m_name) (snd m))"
proof
  fix r r' :: "'f serviceRegistry" and n n' k :: string and m :: "string \<times> 'f gomethod list"
  assume "register_receiver r n m = Some r'"
  then have reg: "registerName r n (fst m) (snd m) = (None, r')"
    by (auto simp: register_receiver_def split: prod.splits option.splits)
  {
    assume n: "serviceMethodSeparator \<notin> set n" and d: "distinct (map (formatName \<circ> m_name) (snd m))"
    obtain svc where r': "r' = r(n \<mapsto> svc)"
      and cb: "callbacks svc k = (case exposed (snd m) k of
          Some cb \<Rightarrow> if cb_isSubscribe cb then Option.bind (r n) (\<lambda>s. callbacks s k) else Some cb
        | None \<Rightarrow> Option.bind (r n) (\<lambda>s. callbacks s k))" for k
      using registerName_service [OF reg d] by blast
    show "call_named r' n k = (case offered (snd m) k of Some c \<Rightarrow> Some c | None \<Rightarrow> call_named r n k)"
      by (simp add: call_named_eq [OF n] r' cb offered_def split: option.split)
  next
    assume n': "serviceMethodSeparator \<notin> set n'" and ne: "n' \<noteq> n"
    have "r' n' = r n'" using reg ne by (auto simp: registerName_def Let_def split: if_splits)
    then show "call_named r' n' k = call_named r n' k" by (simp add: call_named_eq [OF n'])
  }
qed

lemma SplitN2_head: "sep \<notin> set (SplitN2 s sep ! 0)"
proof -
  have "SplitN2 s sep ! 0 = takeWhile (\<lambda>c. c \<noteq> sep) s"
    by (auto simp: SplitN2_def intro: takeWhile_eq_all_conv [THEN iffD2, symmetric])
  then show ?thesis by (auto dest: set_takeWhileD)
qed

text \<open>
  C14. Registration: after a successful registration under a name without the separator, the call
  \<open>name_method\<close> finds exactly the callback made from the exported, well-typed method of that
  formatted name (an earlier registration's callback if there is none), subscriptions are found in
  their own namespace, and no other service changes. A service whose name contains the separator
  is never found by a call: registering it leaves every call lookup as it was.
\<close>

theorem registerName_lookup:
  assumes "registerName r nam T ms = (None, r')" and "distinct (map (formatName \<circ> m_name) ms)"
  shows "if serviceMethodSeparator \<in> set nam
    then \<forall>method. registry_callback r' method = registry_callback r method
    else (\<forall>k. registry_callback r' (nam @ serviceMethodSeparator # k) =
            (case exposed ms k of
               Some cb \<Rightarrow> if cb_isSubscribe cb then registry_callback r (nam @ serviceMethodSeparator # k) else Some cb
             | None \<Rightarrow> registry_callback r (nam @ serviceMethodSeparator # k)))
      \<and> (\<forall>k. registry_subscription r' nam k =
            (case exposed ms k of
               Some cb \<Rightarrow> if cb_isSubscribe cb then Some cb else registry_subscription r nam k
             | None \<Rightarrow> registry_subscription r nam k))
      \<and> (\<forall>n. n \<noteq> nam \<longrightarrow> r' n = r n)"
proof -
  obtain svc where r': "r' = r(nam \<mapsto> svc)"
    and cb: "callbacks svc k = (case exposed ms k of
          Some cb \<Rightarrow> if cb_isSubscribe cb then Option.bind (r nam) (\<lambda>s. callbacks s k) else Some cb
        | None \<Rightarrow> Option.bind (r nam) (\<lambda>s. callbacks s k))"
    and sub: "subscriptions svc k = (case exposed ms k of
          Some cb \<Rightarrow> if cb_isSubscribe cb then Some cb else Option.bind (r nam) (\<lambda>s. subscriptions s k)
        | None \<Rightarrow> Option.bind (r nam) (\<lambda>s. subscriptions s k))" for k
    using registerName_service [OF assms] by blast
  have bind: "registry_subscription q nam k = Option.bind (q nam) (\<lambda>s. subscriptions s k)"
    for q :: "'a serviceRegistry" and k
    by (cases "q nam") (simp_all add: registry_subscription_def)
  show ?thesis
  proof (cases "serviceMethodSeparator \<in> set nam")
    case True
    then have "nam \<noteq> SplitN2 mth serviceMethodSeparator ! 0" for mth
      using SplitN2_head [of serviceMethodSeparator mth] by auto
    with True show ?thesis by (auto simp: registry_callback_def r' Let_def)
  next
    case False
    have look: "registry_callback q (nam @ serviceMethodSeparator # k) = Option.bind (q nam) (\<lambda>s. callbacks s k)"
      for q :: "'a serviceRegistry" and k
      by (cases "q nam") (simp_all add: registry_callback_def SplitN2_at_sep [OF False])
    have "\<forall>k. registry_subscription r' nam k =
            (case exposed ms k of
               Some cb \<Rightarrow> if cb_isSubscribe cb then Some cb else registry_subscription r nam k
             | None \<Rightarrow> registry_subscription r nam k)"
      using sub by (simp add: r' bind split: option.split)
    moreover have "\<forall>n. n \<noteq> nam \<longrightarrow> r' n = r n" by (simp add: r')
    ultimately show ?thesis
      using False cb by (simp add: look r' split: option.split)
  qed
qed

theorem registerName_lookup_witness:
  "registry_callback (snd (registerName Map.empty ''eth'' ''*T''
       [\<lparr>m_name = ''Call'', m_pkgPath = [], m_func = \<lparr>fn_id = 1 :: nat, fn_in = [Named ''T'' False], fn_out = []\<rparr>\<rparr>]))
     ''eth_call'' \<noteq> None"
proof -
  let ?m = "\<lparr>m_name = ''Call'', m_pkgPath = [], m_func = \<lparr>fn_id = 1 :: nat, fn_in = [Named ''T'' False], fn_out = []\<rparr>\<rparr>"
  have name: "formatName ''Call'' = ''call''"
    by code_simp
  have "fst (registerName Map.empty ''eth'' ''*T'' [?m]) = None"
    by (simp add: registerName_def newCallback_def makeArgTypes_def Let_def)
  then obtain r' where r': "registerName Map.empty ''eth'' ''*T'' [?m] = (None, r')"
    by (metis prod.collapse)
  from registerName_lookup [OF this] have
    "registry_callback r' (''eth'' @ serviceMethodSeparator # ''call'')
       = (case exposed [?m] ''call'' of Some cb \<Rightarrow> if cb_isSubscribe cb then registry_callback Map.empty
            (''eth'' @ serviceMethodSeparator # ''call'') else Some cb
          | None \<Rightarrow> registry_callback Map.empty (''eth'' @ serviceMethodSeparator # ''call''))"
    by (simp add: serviceMethodSeparator_def)
  then show ?thesis
    unfolding r' by (simp add: name exposed_def suitable_def newCallback_def makeArgTypes_def Let_def isPubSub_def
        serviceMethodSeparator_def)
qed

text \<open>
  Calling a callback that \<open>newCallback\<close> accepted never fails for want of a result: given that
  the function returns as many values as its type declares, the call gives the error exactly when
  the last declared result is an error and a non-nil error was returned, the first value otherwise
  (nothing for a function without results), and a panic of the function becomes an error.
\<close>

theorem call_result:
  assumes "newCallback rcvr f = Some cb"
    and "\<forall>args vs. invoke (fn_id f) args = Return vs \<longrightarrow> length vs = length (fn_out f)"
  shows "call invoke cb args =
    (case invoke (fn_id f) ((if rcvr then [ArgRcvr] else []) @ (if hasCtx cb then [ArgCtx] else []) @ map ArgVal args) of
       Panic p \<Rightarrow> Inl (PlainError ''method handler crashed'')
     | Return [] \<Rightarrow> Inr None
     | Return (v # vs) \<Rightarrow>
         (if isErrorType (last (fn_out f)) then
            (case last (v # vs) of RErr (Some e) \<Rightarrow> Inl e | _ \<Rightarrow> Inr (Some v))
          else Inr (Some v)))"
proof (cases "invoke (fn_id f) ((if rcvr then [ArgRcvr] else []) @ (if hasCtx cb then [ArgCtx] else []) @ map ArgVal args)")
  case (Panic p)
  then show ?thesis using newCallback_fields [OF assms(1)] by (simp add: call_def call_results_def fullargs_def)
next
  case (Return rs)
  note cf = newCallback_fields [OF assms(1)]
  have len: "length rs = length (fn_out f)" using assms(2) Return by blast
  show ?thesis
  proof (cases rs)
    case Nil
    with Return cf show ?thesis by (simp add: call_def call_results_def fullargs_def)
  next
    case (Cons v vs)
    then have "fn_out f \<noteq> []" using len by auto
    moreover have "0 \<le> errPos cb \<Longrightarrow> rs ! nat (errPos cb) = last rs"
      using cf(4) len Cons by (simp only: last_conv_nth list.distinct not_False_eq_True)
    ultimately show ?thesis
      using Return Cons cf by (auto simp: call_def call_results_def fullargs_def split: rvalue.splits option.splits)
  qed
qed

theorem call_result_witness:
  "\<exists>cb. newCallback False \<lparr>fn_id = 0 :: nat, fn_in = [], fn_out = [StringType, ErrorType]\<rparr> = Some cb
     \<and> call (\<lambda>_ _. Return [RVal ''x'', RErr (Some (PlainError ''bad''))]) cb [] = Inl (PlainError ''bad'')"
proof -
  let ?f = "\<lparr>fn_id = 0 :: nat, fn_in = [], fn_out = [StringType, ErrorType]\<rparr>"
  obtain cb where cb: "newCallback False ?f = Some cb"
    by (simp add: newCallback_def makeArgTypes_def Let_def isErrorType_def implements_error_def)
  from call_result [OF cb, of "\<lambda>_ _. Return [RVal ''x'', RErr (Some (PlainError ''bad''))]" "[]"]
  have "call (\<lambda>_ _. Return [RVal ''x'', RErr (Some (PlainError ''bad''))]) cb [] = Inl (PlainError ''bad'')"
    by (simp add: isErrorType_def implements_error_def)
  with cb show ?thesis by blast
qed

end
