(* ===== verification/Go_Channel.thy ===== *)
theory Go_Channel
  imports Prelude
begin

text \<open>
  Channels and \<open>sync.Once\<close> as the sources use them. A channel is its queue of values, its capacity
  and whether it is closed; an operation on it takes a step, blocks, or panics.
\<close>

record 'a chan =
  ch_buf :: "'a list"
  ch_cap :: nat
  ch_closed :: bool

datatype 'a chan_step = Proceed 'a | Blocked | Panicked panic

definition make_chan :: "nat \<Rightarrow> 'a chan" where
  "make_chan n = \<lparr>ch_buf = [], ch_cap = n, ch_closed = False\<rparr>"

text \<open>A send without a waiting receiver: it needs room in the buffer.\<close>

definition chan_send :: "'a \<Rightarrow> 'a chan \<Rightarrow> 'a chan chan_step" where
  "chan_send v ch =
     (if ch_closed ch then Panicked ClosedChannel
      else if length (ch_buf ch) < ch_cap ch then Proceed (ch\<lparr>ch_buf := ch_buf ch @ [v]\<rparr>)
      else Blocked)"

definition chan_close :: "'a chan \<Rightarrow> 'a chan chan_step" where
  "chan_close ch = (if ch_closed ch then Panicked ClosedChannel else Proceed (ch\<lparr>ch_closed := True\<rparr>))"

text \<open>A receive: the first value of the buffer, \<open>None\<close> from a channel that is closed and empty.\<close>

definition chan_recv :: "'a chan \<Rightarrow> ('a option \<times> 'a chan) chan_step" where
  "chan_recv ch =
     (case ch_buf ch of
        v # vs \<Rightarrow> Proceed (Some v, ch\<lparr>ch_buf := vs\<rparr>)
      | [] \<Rightarrow> if ch_closed ch then Proceed (None, ch) else Blocked)"

definition step_bind :: "'a chan_step \<Rightarrow> ('a \<Rightarrow> 'b chan_step) \<Rightarrow> 'b chan_step" where
  "step_bind m f = (case m of Proceed x \<Rightarrow> f x | Blocked \<Rightarrow> Blocked | Panicked p \<Rightarrow> Panicked p)"

lemma step_bind_simps [simp]:
  "step_bind (Proceed x) f = f x"
  "step_bind Blocked f = Blocked"
  "step_bind (Panicked p) f = Panicked p"
  by (simp_all add: step_bind_def)

lemma step_bind_Proceed_iff:
  "step_bind m f = Proceed y \<longleftrightarrow> (\<exists>x. m = Proceed x \<and> f x = Proceed y)"
  by (cases m) simp_all

lemma make_chan_simps [simp]:
  "ch_buf (make_chan n) = []" "ch_cap (make_chan n) = n" "\<not> ch_closed (make_chan n)"
  by (simp_all add: make_chan_def)

text \<open>An open channel with room takes a value; an open channel can be closed.\<close>

lemma chan_send_room:
  "\<not> ch_closed ch \<Longrightarrow> length (ch_buf ch) < ch_cap ch \<Longrightarrow>
   chan_send v ch = Proceed (ch\<lparr>ch_buf := ch_buf ch @ [v]\<rparr>)"
  by (simp add: chan_send_def)

lemma chan_close_open: "\<not> ch_closed ch \<Longrightarrow> chan_close ch = Proceed (ch\<lparr>ch_closed := True\<rparr>)"
  by (simp add: chan_close_def)

lemma chan_send_Proceed:
  assumes "chan_send v ch = Proceed ch'"
  shows "\<not> ch_closed ch" "length (ch_buf ch) < ch_cap ch" "ch' = ch\<lparr>ch_buf := ch_buf ch @ [v]\<rparr>"
  using assms by (auto simp: chan_send_def split: if_splits)

lemma chan_recv_send:
  assumes "ch_buf ch = []" and "chan_send v ch = Proceed ch'"
  shows "chan_recv ch' = Proceed (Some v, ch)"
  using assms chan_send_Proceed [OF assms(2)] by (simp add: chan_recv_def)

end
