(* ===== verification/Rpc_Subscription.thy ===== *)
theory Rpc_Subscription
  imports Rpc_Message Go_Channel
begin

text \<open>
  Subscriptions (\<open>simple_rpc/rpc/subscription.go\<close>): subscription IDs, the server's \<open>Notifier\<close>, which
  buffers notifications until the subscription ID has been sent, and the client's
  \<open>ClientSubscription\<close> with its forwarding loop and its two \<open>sync.Once\<close> guarded exits. The connection
  is reached through the interface \<open>jsonWriter\<close>, here the locale \<open>json_writer\<close>.
\<close>

section \<open>Subscription IDs\<close>

definition encodeID :: "byte list \<Rightarrow> string" where
  "encodeID b =
     (let id = EncodeToString b;
          id = dropWhile (\<lambda>c. c = CHR ''0'') id;
          id = (if id = [] then ''0'' else id) in
      ''0x'' @ id)"

text \<open>
  The seed: eight random bytes if the system's source gives them, the clock's nanoseconds otherwise.
  \<open>source\<close> is the generator of \<open>math/rand\<close> for a seed.
\<close>

definition randomIDGenerator :: "byte list option \<Rightarrow> int \<Rightarrow> (int \<Rightarrow> 'g) \<Rightarrow> 'g" where
  "randomIDGenerator crand nanosecond source =
     (case crand of
        Some buf \<Rightarrow> source (sint (word_rcat buf :: 64 word))
      | None \<Rightarrow> source (wrap64 nanosecond))"

definition NewID :: "('g \<Rightarrow> nat \<Rightarrow> byte list \<times> 'g) \<Rightarrow> 'g \<Rightarrow> string \<times> 'g" where
  "NewID rng_read g = (let (id, g) = rng_read g 16 in (encodeID id, g))"

section \<open>The notifier\<close>

record subscription =
  sub_ID :: string
  sub_namespace :: string
  sub_err :: "rpc_error chan"

record notifier =
  n_namespace :: string
  n_sub :: "subscription option"
  n_buffer :: "string list"
  callReturned :: bool
  activated :: bool

definition new_notifier :: "string \<Rightarrow> notifier" where
  "new_notifier ns = \<lparr>n_namespace = ns, n_sub = None, n_buffer = [], callReturned = False, activated = False\<rparr>"

definition CreateSubscription ::
  "('g \<Rightarrow> string \<times> 'g) \<Rightarrow> 'g \<Rightarrow> notifier \<Rightarrow> (subscription \<times> notifier \<times> 'g) outcome" where
  "CreateSubscription idgen g n =
     (if n_sub n \<noteq> None then Panic (UserPanic ''can't create multiple subscriptions with Notifier'')
      else if callReturned n then Panic (UserPanic ''can't create subscription after subscribe call has returned'')
      else
        let (id, g) = idgen g;
            sub = \<lparr>sub_ID = id, sub_namespace = n_namespace n, sub_err = make_chan 1\<rparr> in
        Return (sub, n\<lparr>n_sub := Some sub\<rparr>, g))"

text \<open>The message that carries a notification, and its transmission.\<close>

definition notification :: "string \<Rightarrow> string \<Rightarrow> string \<Rightarrow> jsonrpcMessage" where
  "notification ns sid data =
     zero_message\<lparr>Version := vsn, Method := ns @ notificationMethodSuffix,
       Params := Some (marshal_subscriptionResult \<lparr>sr_ID = sid, sr_Result = Some data\<rparr>)\<rparr>"

definition notifier_send ::
  "(wire \<Rightarrow> 'c \<Rightarrow> rpc_error option \<times> 'c) \<Rightarrow> notifier \<Rightarrow> string \<Rightarrow> string \<Rightarrow> 'c \<Rightarrow> rpc_error option \<times> 'c" where
  "notifier_send write n sid data c = write (WMsg (notification (n_namespace n) sid data)) c"

text \<open>The encoded data, or the error of the encoder, is an argument.\<close>

definition Notify ::
  "(wire \<Rightarrow> 'c \<Rightarrow> rpc_error option \<times> 'c) \<Rightarrow> string \<Rightarrow> rpc_error + string \<Rightarrow> notifier \<Rightarrow> 'c
     \<Rightarrow> (rpc_error option \<times> notifier \<times> 'c) outcome" where
  "Notify write sid data n c =
     (case data of
        Inl err \<Rightarrow> Return (Some err, n, c)
      | Inr enc \<Rightarrow>
          (case n_sub n of
             None \<Rightarrow> Panic (UserPanic ''can't Notify before subscription is created'')
           | Some sub \<Rightarrow>
               if sub_ID sub \<noteq> sid then Panic (UserPanic ''Notify with wrong ID'')
               else if activated n then
                 (let (err, c) = notifier_send write n (sub_ID sub) enc c in Return (err, n, c))
               else Return (None, n\<lparr>n_buffer := n_buffer n @ [enc]\<rparr>, c)))"

definition takeSubscription :: "notifier \<Rightarrow> subscription option \<times> notifier" where
  "takeSubscription n = (n_sub n, n\<lparr>callReturned := True\<rparr>)"

text \<open>The loop of \<open>activate\<close>; with a nil subscription, \<open>send\<close> would dereference it.\<close>

fun activate_loop ::
  "(wire \<Rightarrow> 'c \<Rightarrow> rpc_error option \<times> 'c) \<Rightarrow> notifier \<Rightarrow> string list \<Rightarrow> 'c \<Rightarrow> (rpc_error option \<times> 'c) outcome" where
  "activate_loop write n [] c = Return (None, c)"
| "activate_loop write n (data # ds) c =
     (case n_sub n of
        None \<Rightarrow> Panic NilDereference
      | Some sub \<Rightarrow>
          (case notifier_send write n (sub_ID sub) data c of
             (Some err, c) \<Rightarrow> Return (Some err, c)
           | (None, c) \<Rightarrow> activate_loop write n ds c))"

definition activate ::
  "(wire \<Rightarrow> 'c \<Rightarrow> rpc_error option \<times> 'c) \<Rightarrow> notifier \<Rightarrow> 'c \<Rightarrow> (rpc_error option \<times> notifier \<times> 'c) outcome" where
  "activate write n c =
     outcome_bind (activate_loop write n (n_buffer n) c) (\<lambda>(err, c).
       Return (err, if err = None then n\<lparr>activated := True\<rparr> else n, c))"

section \<open>Client subscriptions\<close>

definition ErrClientQuit :: rpc_error where "ErrClientQuit = PlainError ''client is closed''"
definition ErrSubscriptionQueueOverflow :: rpc_error where
  "ErrSubscriptionQueueOverflow = PlainError ''subscription queue overflow''"
definition maxClientSubscriptionBuffer :: nat where "maxClientSubscriptionBuffer = 20000"

text \<open>
  The field \<open>cs_in\<close> keeps what the forwarding loop has received on the unbuffered channel \<open>in\<close>, and
  \<open>cs_calls\<close> the unsubscribe calls made to the server (method and argument).
\<close>

record client_sub =
  cs_namespace :: string
  cs_subid :: string
  cs_in :: "string list"
  cs_started :: bool
  quitOnce :: bool
  cs_quit :: "unit chan"
  errOnce :: bool
  cs_err :: "rpc_error option chan"
  cs_calls :: "(string \<times> string) list"

definition newClientSubscription :: "string \<Rightarrow> client_sub" where
  "newClientSubscription ns =
     \<lparr>cs_namespace = ns, cs_subid = [], cs_in = [], cs_started = False, quitOnce = False,
      cs_quit = make_chan 0, errOnce = False, cs_err = make_chan 1, cs_calls = []\<rparr>"

definition requestUnsubscribe :: "client_sub \<Rightarrow> client_sub" where
  "requestUnsubscribe s =
     s\<lparr>cs_calls := cs_calls s @ [(cs_namespace s @ unsubscribeMethodSuffix, cs_subid s)]\<rparr>"

definition quitWithError :: "bool \<Rightarrow> rpc_error option \<Rightarrow> client_sub \<Rightarrow> client_sub chan_step" where
  "quitWithError unsubscribeServer err s =
     (if quitOnce s then Proceed s
      else
        step_bind (chan_close (cs_quit s)) (\<lambda>q.
          let s = s\<lparr>quitOnce := True, cs_quit := q\<rparr>;
              s = (if unsubscribeServer then requestUnsubscribe s else s) in
          case err of
            None \<Rightarrow> Proceed s
          | Some e \<Rightarrow>
              step_bind (chan_send (if e = ErrClientQuit then None else Some e) (cs_err s)) (\<lambda>ch.
                Proceed (s\<lparr>cs_err := ch\<rparr>))))"

text \<open>The second statement of \<open>Unsubscribe\<close>, and \<open>Unsubscribe\<close> itself.\<close>

definition close_err :: "client_sub \<Rightarrow> client_sub chan_step" where
  "close_err s =
     (if errOnce s then Proceed s
      else step_bind (chan_close (cs_err s)) (\<lambda>ch. Proceed (s\<lparr>errOnce := True, cs_err := ch\<rparr>)))"

definition Unsubscribe :: "client_sub \<Rightarrow> client_sub chan_step" where
  "Unsubscribe s = step_bind (quitWithError True None s) close_err"

text \<open>
  Delivery waits for the forwarding loop or for \<open>quit\<close>. While \<open>quit\<close> is open only the first can
  happen; once it is closed the runtime picks (\<open>pick\<close>) among the ready cases.
\<close>

definition deliver :: "bool \<Rightarrow> string \<Rightarrow> client_sub \<Rightarrow> bool \<times> client_sub" where
  "deliver pick result s =
     (if ch_closed (cs_quit s) \<and> \<not> pick then (False, s)
      else (True, s\<lparr>cs_in := cs_in s @ [result]\<rparr>))"

text \<open>
  The forwarding loop, driven by the case each \<open>select\<close> chose: a closed \<open>quit\<close>, a received
  notification, or the subscriber taking the front of the buffer. With an empty buffer the send case
  is left out of the \<open>select\<close>, so it cannot be chosen. The last argument is what the
  subscriber has received; the result is \<open>None\<close> as long as the loop has not returned.
\<close>

datatype fwd_event = EvQuit | EvIn string | EvSend

fun forward ::
  "(string \<Rightarrow> rpc_error + 'v) \<Rightarrow> fwd_event list \<Rightarrow> 'v list \<Rightarrow> 'v list
     \<Rightarrow> (bool \<times> rpc_error option) option \<times> 'v list \<times> 'v list" where
  "forward unmarshal [] buffer sent = (None, buffer, sent)"
| "forward unmarshal (EvQuit # evs) buffer sent = (Some (False, None), [], sent)"
| "forward unmarshal (EvIn raw # evs) buffer sent =
     (case unmarshal raw of
        Inl err \<Rightarrow> (Some (True, Some err), [], sent)
      | Inr val \<Rightarrow>
          if length buffer = maxClientSubscriptionBuffer then
            (Some (True, Some ErrSubscriptionQueueOverflow), [], sent)
          else forward unmarshal evs (buffer @ [val]) sent)"
| "forward unmarshal (EvSend # evs) buffer sent =
     (case buffer of
        [] \<Rightarrow> forward unmarshal evs buffer sent
      | front # rest \<Rightarrow> forward unmarshal evs rest (sent @ [front]))"

text \<open>\<open>start\<close>: what the loop returns goes to \<open>quitWithError\<close>.\<close>

definition start ::
  "(string \<Rightarrow> rpc_error + 'v) \<Rightarrow> fwd_event list \<Rightarrow> client_sub \<Rightarrow> client_sub chan_step \<times> 'v list" where
  "start unmarshal evs s =
     (case forward unmarshal evs [] [] of
        (None, _, sent) \<Rightarrow> (Proceed s, sent)
      | (Some (unsub, err), _, sent) \<Rightarrow> (quitWithError unsub err s, sent))"

section \<open>Identifiers are canonical hexadecimal numbers\<close>

definition be_nat :: "byte list \<Rightarrow> nat" where
  "be_nat b = foldl (\<lambda>n x. 256 * n + unat x) 0 b"

fun hex_nat :: "nat \<Rightarrow> string" where
  "hex_nat n = (if n < 16 then [hex_digit n] else hex_nat (n div 16) @ [hex_digit (n mod 16)])"

declare hex_nat.simps [simp del]

lemma hex_digit_inj: "a < 16 \<Longrightarrow> b < 16 \<Longrightarrow> hex_digit a = hex_digit b \<longleftrightarrow> a = b"
  by (metis hex_val_digit option.inject)

lemma hex_digit_zero: "d < 16 \<Longrightarrow> hex_digit d = CHR ''0'' \<longleftrightarrow> d = 0"
proof -
  have "hex_digit 0 = CHR ''0''" by code_simp
  then show "d < 16 \<Longrightarrow> hex_digit d = CHR ''0'' \<longleftrightarrow> d = 0"
    using hex_digit_inj [of d 0] by simp
qed

lemma hex_nat_inj: "hex_nat m = hex_nat n \<Longrightarrow> m = n"
proof (induction m arbitrary: n rule: hex_nat.induct)
  case (1 m)
  have ne: "hex_nat k \<noteq> []" "[] \<noteq> hex_nat k" for k by (subst hex_nat.simps, simp)+
  show ?case
  proof (cases "m < 16")
    case True
    with 1(2) ne have "n < 16" by (subst (asm) (1 2) hex_nat.simps) (auto split: if_splits)
    with True 1(2) show ?thesis by (simp add: hex_nat.simps hex_digit_inj)
  next
    case False
    with 1(2) ne have n: "\<not> n < 16"
      by (subst (asm) (1 2) hex_nat.simps) (auto split: if_splits)
    with False 1(2) have "hex_nat (m div 16) = hex_nat (n div 16)" "m mod 16 = n mod 16"
      by (auto simp: hex_nat.simps [of m] hex_nat.simps [of n] hex_digit_inj)
    with 1(1) False show ?thesis by (metis div_mult_mod_eq)
  qed
qed

definition nibbles :: "byte list \<Rightarrow> nat list" where
  "nibbles b = concat (map (\<lambda>x. [unat x div 16, unat x mod 16]) b)"

lemma nibbles_bound: "d \<in> set (nibbles b) \<Longrightarrow> d < 16"
proof -
  have "unat (x :: byte) div 16 < 16" for x
    using byte_less [of x] by simp
  then show "d \<in> set (nibbles b) \<Longrightarrow> d < 16" by (auto simp: nibbles_def)
qed

lemma EncodeToString_nibbles: "EncodeToString b = map hex_digit (nibbles b)"
  by (induction b) (simp_all add: EncodeToString_def nibbles_def)

lemma nibbles_value: "foldl (\<lambda>n d. 16 * n + d) k (nibbles b) = foldl (\<lambda>n x. 256 * n + unat x) k b"
proof (induction b arbitrary: k)
  case (Cons x b)
  have "16 * (16 * k + unat x div 16) + unat x mod 16 = 256 * k + unat x" by simp
  then show ?case using Cons by (simp only: nibbles_def list.map concat.simps foldl_append foldl.simps)
qed (simp add: nibbles_def)

text \<open>Stripping leading zero digits leaves the digits of the value.\<close>

lemma strip_digits:
  assumes "\<forall>d \<in> set ds. d < 16"
  defines "v \<equiv> foldl (\<lambda>n d. 16 * n + d) 0 ds"
  shows "(dropWhile (\<lambda>d. d = 0) ds = [] \<longleftrightarrow> v = 0)
    \<and> (v \<noteq> 0 \<longrightarrow> map hex_digit (dropWhile (\<lambda>d. d = 0) ds) = hex_nat v)"
  using assms(1) unfolding v_def
proof (induction ds rule: rev_induct)
  case (snoc d ds)
  let ?v = "foldl (\<lambda>n d. 16 * n + d) 0 ds"
  have d: "d < 16" and IH: "dropWhile (\<lambda>d. d = 0) ds = [] \<longleftrightarrow> ?v = 0"
    "?v \<noteq> 0 \<Longrightarrow> map hex_digit (dropWhile (\<lambda>d. d = 0) ds) = hex_nat ?v"
    using snoc by simp_all
  show ?case
  proof (cases "?v = 0")
    case True
    then have "\<forall>d \<in> set ds. d = 0" using IH(1) by (simp add: dropWhile_eq_Nil_conv)
    then have "dropWhile (\<lambda>d. d = 0) (ds @ [d]) = (if d = 0 then [] else [d])"
      by (induction ds) auto
    with True d show ?thesis by (simp add: hex_nat.simps)
  next
    case False
    then obtain x where "x \<in> set ds" "x \<noteq> 0" using IH(1) by (auto simp: dropWhile_eq_Nil_conv)
    then have "dropWhile (\<lambda>d. d = 0) (ds @ [d]) = dropWhile (\<lambda>d. d = 0) ds @ [d]"
      by (rule dropWhile_append1)
    moreover have "(16 * ?v + d) div 16 = ?v" "(16 * ?v + d) mod 16 = d" "\<not> 16 * ?v + d < 16"
      using d False by simp_all
    ultimately show ?thesis
      using IH(2) [OF False] False by (simp add: hex_nat.simps [of "16 * ?v + d"])
  qed
qed simp

lemma encodeID_hex: "encodeID b = ''0x'' @ hex_nat (be_nat b)"
proof -
  have drop: "dropWhile (\<lambda>c. c = CHR ''0'') (map hex_digit ds) = map hex_digit (dropWhile (\<lambda>d. d = 0) ds)"
    if "\<forall>d \<in> set ds. d < 16" for ds
    using that by (induction ds) (simp_all add: hex_digit_zero)
  have nb: "\<forall>d \<in> set (nibbles b). d < 16" using nibbles_bound by blast
  have v: "foldl (\<lambda>n d. 16 * n + d) 0 (nibbles b) = be_nat b"
    by (simp only: nibbles_value be_nat_def)
  have "hex_nat 0 = ''0''" by code_simp
  then show ?thesis
    using strip_digits [OF nb] drop [OF nb] unfolding v
    by (cases "be_nat b = 0") (auto simp: encodeID_def EncodeToString_nibbles Let_def simp del: dropWhile_eq_Nil_conv)
qed

lemma be_nat_inj: "length b = length b' \<Longrightarrow> be_nat b = be_nat b' \<Longrightarrow> b = b'"
proof (induction b arbitrary: b' rule: rev_induct)
  case (snoc x b)
  then obtain y c where b': "b' = c @ [y]" by (cases b' rule: rev_cases) auto
  have "256 * be_nat b + unat x = 256 * be_nat c + unat y"
    using snoc.prems(2) by (simp only: b' be_nat_def foldl_append foldl.simps)
  then have "(256 * be_nat b + unat x) div 256 = (256 * be_nat c + unat y) div 256"
    "(256 * be_nat b + unat x) mod 256 = (256 * be_nat c + unat y) mod 256" by simp_all
  then have "be_nat b = be_nat c" "unat x = unat y" using byte_less by simp_all
  with snoc b' show ?case by (simp add: word_unat_eq_iff)
qed simp

text \<open>
  A subscription ID is the canonical hexadecimal quantity of the random bytes (no leading
  zeros, 0x0 for zero), and distinct byte strings of one length have distinct IDs.
\<close>

theorem encodeID_canonical:
  assumes "length b = length b'"
  shows "encodeID b = ''0x'' @ hex_nat (be_nat b) \<and> (encodeID b = encodeID b' \<longleftrightarrow> b = b')"
  using encodeID_hex be_nat_inj [OF assms] hex_nat_inj by fastforce

theorem encodeID_canonical_witness:
  "encodeID [0, 0x1a] = ''0x1a'' \<and> encodeID [0, 0x1a] \<noteq> encodeID [0x1a, 0]"
proof -
  have "hex_nat (be_nat [0, 0x1a]) = ''1a''" "[0, 0x1a] \<noteq> [0x1a, 0 :: byte]" by code_simp+
  then show ?thesis
    using encodeID_canonical [of "[0, 0x1a]" "[0x1a, 0]"] by auto
qed

section \<open>The connection interface and notification order\<close>

text \<open>
  What a notifier relies on: a write that reports no error has put the value on the connection,
  after everything written before, and a write that fails has put nothing.
\<close>

locale json_writer =
  fixes wr :: "wire \<Rightarrow> 'c \<Rightarrow> rpc_error option \<times> 'c"
    and out :: "'c \<Rightarrow> wire list"
  assumes write_ok: "wr v c = (None, c') \<Longrightarrow> out c' = out c @ [v]"
    and write_err: "wr v c = (Some e, c') \<Longrightarrow> out c' = out c"
begin

lemma activate_loop_out:
  assumes "activate_loop wr n ds c = Return (None, c')"
  shows "out c' = out c @ map (\<lambda>d. WMsg (notification (n_namespace n) (sub_ID (the (n_sub n))) d)) ds"
  using assms
proof (induction ds arbitrary: c)
  case (Cons d ds)
  then obtain sub where sub: "n_sub n = Some sub" by (cases "n_sub n") auto
  with Cons.prems obtain c1 where "notifier_send wr n (sub_ID sub) d c = (None, c1)"
    and "activate_loop wr n ds c1 = Return (None, c')"
    by (auto split: prod.splits option.splits)
  then show ?case using Cons.IH sub write_ok by (fastforce simp: notifier_send_def)
qed simp

lemma activate_out:
  assumes "activate wr n c = Return (None, n', c')"
  shows "out c' = out c @ map (\<lambda>d. WMsg (notification (n_namespace n) (sub_ID (the (n_sub n))) d)) (n_buffer n)"
    and "n' = n\<lparr>activated := True\<rparr>"
  using assms activate_loop_out
  by (auto simp: activate_def outcome_bind_Return_iff split: if_splits)

lemma Notify_out:
  assumes "Notify wr sid (Inr d) n c = Return (None, n', c')"
  shows "if activated n
    then out c' = out c @ [WMsg (notification (n_namespace n) sid d)] \<and> n' = n
    else c' = c \<and> n' = n\<lparr>n_buffer := n_buffer n @ [d]\<rparr>"
  using assms write_ok
  by (auto simp: Notify_def notifier_send_def split: option.splits if_splits prod.splits)

end

interpretation codec: json_writer "writeJSON encode now deadline" written
  by unfold_locales (auto simp: writeJSON_def Let_def split: option.splits)

text \<open>The life of a notifier as a sequence of operations on it, and the errors they reported.\<close>

datatype notifier_op = OpCreate string | OpNotify string "rpc_error + string" | OpTake | OpActivate

definition notifier_step ::
  "(wire \<Rightarrow> 'c \<Rightarrow> rpc_error option \<times> 'c) \<Rightarrow> notifier_op \<Rightarrow> notifier \<Rightarrow> 'c
     \<Rightarrow> (rpc_error option \<times> notifier \<times> 'c) outcome" where
  "notifier_step wr a n c =
     (case a of
        OpCreate sid \<Rightarrow>
          outcome_bind (CreateSubscription (\<lambda>u. (sid, u)) () n) (\<lambda>(sub, n, _). Return (None, n, c))
      | OpNotify sid data \<Rightarrow> Notify wr sid data n c
      | OpTake \<Rightarrow> Return (None, snd (takeSubscription n), c)
      | OpActivate \<Rightarrow> activate wr n c)"

fun notifier_run ::
  "(wire \<Rightarrow> 'c \<Rightarrow> rpc_error option \<times> 'c) \<Rightarrow> notifier_op list \<Rightarrow> notifier \<Rightarrow> 'c
     \<Rightarrow> (rpc_error list \<times> notifier \<times> 'c) outcome" where
  "notifier_run wr [] n c = Return ([], n, c)"
| "notifier_run wr (a # as) n c =
     outcome_bind (notifier_step wr a n c) (\<lambda>(err, n, c).
       outcome_bind (notifier_run wr as n c) (\<lambda>(errs, n, c).
         Return ((case err of None \<Rightarrow> errs | Some e \<Rightarrow> e # errs), n, c)))"

text \<open>The payloads handed to \<open>Notify\<close>.\<close>

definition payloads :: "notifier_op list \<Rightarrow> (string \<times> string) list" where
  "payloads as = concat (map (\<lambda>a. case a of OpNotify sid (Inr d) \<Rightarrow> [(sid, d)] | _ \<Rightarrow> []) as)"

lemma payloads_simps [simp]:
  "payloads [] = []"
  "payloads (OpCreate sid # as) = payloads as"
  "payloads (OpTake # as) = payloads as"
  "payloads (OpActivate # as) = payloads as"
  "payloads (OpNotify sid (Inl e) # as) = payloads as"
  "payloads (OpNotify sid (Inr d) # as) = (sid, d) # payloads as"
  by (simp_all add: payloads_def)

text \<open>The notifications of a list of payloads, in order.\<close>

definition note_msgs :: "string \<Rightarrow> (string \<times> string) list \<Rightarrow> wire list" where
  "note_msgs ns = map (\<lambda>(sid, d). WMsg (notification ns sid d))"

definition pending :: "notifier \<Rightarrow> (string \<times> string) list" where
  "pending n = map (\<lambda>d. (sub_ID (the (n_sub n)), d)) (n_buffer n)"

definition wf_notifier :: "notifier \<Rightarrow> bool" where
  "wf_notifier n \<longleftrightarrow> (n_buffer n \<noteq> [] \<longrightarrow> n_sub n \<noteq> None)"

context json_writer
begin

lemma notifier_step_ok:
  assumes "notifier_step wr a n c = Return (None, n', c')" and "wf_notifier n"
  shows "wf_notifier n'" "n_namespace n' = n_namespace n"
    "activated n' \<longleftrightarrow> activated n \<or> a = OpActivate"
    "a = OpActivate \<Longrightarrow> out c' = out c @ note_msgs (n_namespace n) (pending n)"
    "a \<noteq> OpActivate \<Longrightarrow> out c' = out c @ (if activated n then note_msgs (n_namespace n) (payloads [a]) else [])"
    "a \<noteq> OpActivate \<Longrightarrow> \<not> activated n \<Longrightarrow> pending n' = pending n @ payloads [a]"
proof -
  have "wf_notifier n' \<and> n_namespace n' = n_namespace n
    \<and> (activated n' \<longleftrightarrow> activated n \<or> a = OpActivate)
    \<and> (a = OpActivate \<longrightarrow> out c' = out c @ note_msgs (n_namespace n) (pending n))
    \<and> (a \<noteq> OpActivate \<longrightarrow> out c' = out c @ (if activated n then note_msgs (n_namespace n) (payloads [a]) else []))
    \<and> (a \<noteq> OpActivate \<longrightarrow> \<not> activated n \<longrightarrow> pending n' = pending n @ payloads [a])"
  proof (cases a)
    case (OpCreate sid)
    with assms show ?thesis
      by (auto simp: notifier_step_def outcome_bind_Return_iff CreateSubscription_def Let_def wf_notifier_def pending_def
          note_msgs_def split: if_splits)
  next
    case (OpNotify sid data)
    then have eq: "Notify wr sid data n c = Return (None, n', c')"
      using assms(1) by (simp add: notifier_step_def)
    then obtain d where d: "data = Inr d" by (cases data) (auto simp: Notify_def)
    from eq obtain sub where sub: "n_sub n = Some sub" "sub_ID sub = sid"
      by (auto simp: Notify_def d split: option.splits if_splits)
    show ?thesis
      using Notify_out [OF eq [unfolded d]] sub assms(2)
      by (auto simp: OpNotify d wf_notifier_def pending_def note_msgs_def split: if_splits)
  next
    case OpTake
    with assms show ?thesis
      by (auto simp: notifier_step_def takeSubscription_def wf_notifier_def pending_def note_msgs_def)
  next
    case OpActivate
    then have "activate wr n c = Return (None, n', c')" using assms(1) by (simp add: notifier_step_def)
    from activate_out [OF this] assms(2) OpActivate show ?thesis
      by (simp add: wf_notifier_def pending_def note_msgs_def)
  qed
  then show "wf_notifier n'" "n_namespace n' = n_namespace n"
    "activated n' \<longleftrightarrow> activated n \<or> a = OpActivate"
    "a = OpActivate \<Longrightarrow> out c' = out c @ note_msgs (n_namespace n) (pending n)"
    "a \<noteq> OpActivate \<Longrightarrow> out c' = out c @ (if activated n then note_msgs (n_namespace n) (payloads [a]) else [])"
    "a \<noteq> OpActivate \<Longrightarrow> \<not> activated n \<Longrightarrow> pending n' = pending n @ payloads [a]"
    by blast+
qed

lemma notifier_run_active:
  assumes "notifier_run wr as n c = Return ([], n', c')" and "wf_notifier n" and "activated n"
    and "OpActivate \<notin> set as"
  shows "out c' = out c @ note_msgs (n_namespace n) (payloads as)"
  using assms
proof (induction as arbitrary: n c)
  case (Cons a as)
  then obtain n1 c1 where st: "notifier_step wr a n c = Return (None, n1, c1)"
    and rest: "notifier_run wr as n1 c1 = Return ([], n', c')"
    by (auto simp: outcome_bind_Return_iff split: option.splits)
  note st' = notifier_step_ok [OF st Cons.prems(2)]
  have "payloads (a # as) = payloads [a] @ payloads as" by (simp add: payloads_def)
  moreover have "a \<noteq> OpActivate" using Cons.prems by auto
  ultimately show ?case
    using Cons.IH [OF rest] st' Cons.prems by (simp add: note_msgs_def)
qed (simp add: note_msgs_def)

lemma notifier_run_waiting:
  assumes "notifier_run wr as n c = Return ([], n', c')" and "wf_notifier n" and "\<not> activated n"
    and "OpActivate \<notin> set as"
  shows "out c' = out c" "pending n' = pending n @ payloads as" "wf_notifier n'"
    "\<not> activated n'" "n_namespace n' = n_namespace n"
proof -
  have "out c' = out c \<and> pending n' = pending n @ payloads as \<and> wf_notifier n'
    \<and> \<not> activated n' \<and> n_namespace n' = n_namespace n"
    using assms
  proof (induction as arbitrary: n c)
    case (Cons a as)
    then obtain n1 c1 where st: "notifier_step wr a n c = Return (None, n1, c1)"
      and rest: "notifier_run wr as n1 c1 = Return ([], n', c')"
      by (auto simp: outcome_bind_Return_iff split: option.splits)
    note st' = notifier_step_ok [OF st Cons.prems(2)]
    have "payloads (a # as) = payloads [a] @ payloads as" by (simp add: payloads_def)
    moreover have "a \<noteq> OpActivate" using Cons.prems by auto
    ultimately show ?case
      using Cons.IH [OF rest] st' Cons.prems by simp
  qed simp
  then show "out c' = out c" "pending n' = pending n @ payloads as" "wf_notifier n'"
    "\<not> activated n'" "n_namespace n' = n_namespace n" by blast+
qed

lemma notifier_run_append:
  "notifier_run wr (as @ bs) n c =
     outcome_bind (notifier_run wr as n c) (\<lambda>(errs, n, c).
       outcome_bind (notifier_run wr bs n c) (\<lambda>(errs', n, c). Return (errs @ errs', n, c)))"
proof (induction as arbitrary: n c)
  case Nil
  show ?case by (cases "notifier_run wr bs n c") auto
next
  case (Cons a as)
  show ?case
    by (cases "notifier_step wr a n c")
      (auto simp: Cons.IH outcome_bind_def split: outcome.split prod.split option.split)
qed

lemma notifier_run_order:
  assumes "notifier_run wr (as @ bs) (new_notifier ns) c = Return ([], n', c')"
    and "OpActivate \<notin> set as" and "bs = [] \<or> hd bs = OpActivate \<and> OpActivate \<notin> set (tl bs)"
  shows "out c' = out c @ (if bs = [] then [] else note_msgs ns (payloads (as @ bs)))"
proof -
  have n0: "wf_notifier (new_notifier ns)" "\<not> activated (new_notifier ns)"
    "pending (new_notifier ns) = []" "n_namespace (new_notifier ns) = ns"
    by (simp_all add: new_notifier_def wf_notifier_def pending_def)
  from assms(1) obtain n1 c1 where r1: "notifier_run wr as (new_notifier ns) c = Return ([], n1, c1)"
    and r2: "notifier_run wr bs n1 c1 = Return ([], n', c')"
    by (auto simp: notifier_run_append outcome_bind_Return_iff)
  note w = notifier_run_waiting [OF r1 n0(1,2) assms(2)]
  show ?thesis
  proof (cases bs)
    case Nil
    with r2 w show ?thesis by simp
  next
    case (Cons b bs')
    then have b: "b = OpActivate" "OpActivate \<notin> set bs'" using assms(3) by auto
    from r2 obtain n2 c2 where st: "notifier_step wr OpActivate n1 c1 = Return (None, n2, c2)"
      and r3: "notifier_run wr bs' n2 c2 = Return ([], n', c')"
      by (auto simp: Cons b outcome_bind_Return_iff split: option.splits)
    note s = notifier_step_ok [OF st w(3)]
    have "out c' = out c2 @ note_msgs ns (payloads bs')"
      using notifier_run_active [OF r3 s(1)] s(2,3) b w n0 by simp
    moreover have "out c2 = out c @ note_msgs ns (payloads as)" using s(4) w n0 by simp
    moreover have "payloads (as @ bs) = payloads as @ payloads bs'" by (simp add: payloads_def Cons b)
    ultimately show ?thesis by (simp add: Cons note_msgs_def)
  qed
qed

end

text \<open>
  C6. The notifier never sends a notification before its activation and keeps every one: in a life
  of a notifier in which no operation panicked or reported an error and \<open>activate\<close> was called at most
  once, nothing is on the connection before the activation, and afterwards exactly the notified
  payloads are, each once, in the order of the \<open>Notify\<close> calls, under the subscription's namespace.
\<close>

theorem notifier_in_order:
  assumes "notifier_run (writeJSON encode now deadline) (as @ bs) (new_notifier ns) c = Return ([], n', c')"
    and "OpActivate \<notin> set as" and "bs = [] \<or> hd bs = OpActivate \<and> OpActivate \<notin> set (tl bs)"
  shows "written c' = written c @
    (if bs = [] then [] else map (\<lambda>(sid, d). WMsg (notification ns sid d)) (payloads (as @ bs)))"
  using codec.notifier_run_order [OF assms] by (simp add: note_msgs_def)

theorem notifier_in_order_witness:
  "\<exists>n' c'. notifier_run (writeJSON (\<lambda>_. None) 0 None)
      ([OpCreate ''0x1'', OpNotify ''0x1'' (Inr ''1'')] @ [OpActivate, OpNotify ''0x1'' (Inr ''2'')])
      (new_notifier ''eth'') (NewFuncCodec None) = Return ([], n', c')
    \<and> written c' = [WMsg (notification ''eth'' ''0x1'' ''1''), WMsg (notification ''eth'' ''0x1'' ''2'')]"
proof -
  let ?as = "[OpCreate ''0x1'', OpNotify ''0x1'' (Inr ''1'')]" and ?bs = "[OpActivate, OpNotify ''0x1'' (Inr ''2'')]"
  obtain n' c' where run: "notifier_run (writeJSON (\<lambda>_. None) 0 None) (?as @ ?bs) (new_notifier ''eth'') (NewFuncCodec None)
      = Return ([], n', c')"
    by (simp add: notifier_step_def CreateSubscription_def Notify_def new_notifier_def activate_def
        notifier_send_def writeJSON_def NewFuncCodec_def Let_def)
  have "written (NewFuncCodec None) = []" by (simp add: NewFuncCodec_def)
  with run notifier_in_order [OF run] show ?thesis by simp
qed

section \<open>The forwarding loop\<close>

text \<open>The notifications received by a sequence of loop events.\<close>

definition ins :: "fwd_event list \<Rightarrow> string list" where
  "ins evs = concat (map (\<lambda>e. case e of EvIn r \<Rightarrow> [r] | _ \<Rightarrow> []) evs)"

lemma ins_simps [simp]:
  "ins [] = []" "ins (EvQuit # evs) = ins evs" "ins (EvSend # evs) = ins evs" "ins (EvIn r # evs) = r # ins evs"
  by (simp_all add: ins_def)

text \<open>
  Why the loop may have returned: \<open>quit\<close> was closed, a notification could not be decoded, or one
  arrived when the queue \<open>q\<close> of undelivered values was full.
\<close>

definition stop_reason :: "(string \<Rightarrow> rpc_error + 'v) \<Rightarrow> fwd_event \<Rightarrow> 'v list \<Rightarrow> bool \<times> rpc_error option \<Rightarrow> bool" where
  "stop_reason um ev q res =
     (case ev of
        EvQuit \<Rightarrow> res = (False, None)
      | EvSend \<Rightarrow> False
      | EvIn raw \<Rightarrow>
          (case um raw of
             Inl err \<Rightarrow> res = (True, Some err)
           | Inr v \<Rightarrow> length q = maxClientSubscriptionBuffer \<and> res = (True, Some ErrSubscriptionQueueOverflow)))"

lemma forward_running:
  assumes "forward um evs buffer sent = (None, buffer', sent')" and "length buffer \<le> maxClientSubscriptionBuffer"
  shows "map Inr (sent @ buffer) @ map um (ins evs) = map Inr (sent' @ buffer')
    \<and> length buffer' \<le> maxClientSubscriptionBuffer"
  using assms
proof (induction um evs buffer sent rule: forward.induct)
  case (3 um raw evs buffer sent)
  then obtain v where v: "um raw = Inr v" "length buffer \<noteq> maxClientSubscriptionBuffer"
    by (auto split: sum.splits if_splits)
  with 3 show ?case by auto
next
  case (4 um evs buffer sent)
  then show ?case by (cases buffer) auto
qed auto

lemma forward_returned:
  assumes "forward um evs buffer sent = (Some res, buffer', sent')" and "length buffer \<le> maxClientSubscriptionBuffer"
  shows "\<exists>pre ev post q. evs = pre @ ev # post \<and> map Inr (sent @ buffer) @ map um (ins pre) = map Inr (sent' @ q)
    \<and> length q \<le> maxClientSubscriptionBuffer \<and> buffer' = [] \<and> stop_reason um ev q res"
  using assms
proof (induction um evs buffer sent rule: forward.induct)
  case (2 um evs buffer sent)
  then show ?case by (intro exI [of _ "[]"] exI [of _ EvQuit] exI [of _ evs] exI [of _ buffer])
      (auto simp: stop_reason_def)
next
  case (3 um raw evs buffer sent)
  show ?case
  proof (cases "(\<exists>e. um raw = Inl e) \<or> length buffer = maxClientSubscriptionBuffer")
    case True
    then show ?thesis using 3(2,3)
      by (intro exI [of _ "[]"] exI [of _ "EvIn raw"] exI [of _ evs] exI [of _ buffer])
        (auto simp: stop_reason_def split: sum.splits)
  next
    case False
    then obtain v where v: "um raw = Inr v" by (cases "um raw") auto
    from 3(1) [OF v] 3(2,3) False obtain pre ev post q where *: "evs = pre @ ev # post"
      "map Inr (sent @ (buffer @ [v])) @ map um (ins pre) = map Inr (sent' @ q)"
      "length q \<le> maxClientSubscriptionBuffer" "buffer' = []" "stop_reason um ev q res"
      by (auto simp: v)
    then show ?thesis using v
      by (intro exI [of _ "EvIn raw # pre"] exI [of _ ev] exI [of _ post] exI [of _ q]) simp
  qed
next
  case (4 um evs buffer sent)
  then obtain pre ev post q where "evs = pre @ ev # post"
      "map Inr (sent @ buffer) @ map um (ins pre) = map Inr (sent' @ q)"
      "length q \<le> maxClientSubscriptionBuffer" "buffer' = []" "stop_reason um ev q res"
    by (cases buffer) auto
  then show ?case
    by (intro exI [of _ "EvSend # pre"] exI [of _ ev] exI [of _ post] exI [of _ q]) simp
qed simp

text \<open>
  C7. The forwarding loop is a bounded FIFO queue: whatever the order in which its \<open>select\<close> fires,
  the values given to the subscriber followed by the queued ones are exactly the decoded
  notifications in arrival order, at most 20000 wait, and the loop returns only because \<open>quit\<close> was
  closed, a notification was undecodable, or one arrived while 20000 were waiting.
\<close>

theorem forward_fifo:
  "case forward um evs [] [] of
     (None, buffer, sent) \<Rightarrow>
       map um (ins evs) = map Inr (sent @ buffer) \<and> length buffer \<le> maxClientSubscriptionBuffer
   | (Some res, buffer, sent) \<Rightarrow>
       \<exists>pre ev post q. evs = pre @ ev # post \<and> map um (ins pre) = map Inr (sent @ q)
         \<and> length q \<le> maxClientSubscriptionBuffer \<and> buffer = [] \<and> stop_reason um ev q res"
  using forward_running [of um evs "[]" "[]"] forward_returned [of um evs "[]" "[]"]
  by (auto split: prod.split option.split)

section \<open>Ending a client subscription\<close>

text \<open>
  The states of a client subscription under any interleaving of the forwarding loop's exit, the
  handler's shutdown, deliveries, the owner's receives on the error channel, and any number of
  \<open>Unsubscribe\<close> calls. Each call has two statements, so the second component counts the calls that
  have passed the first one.
\<close>

inductive sub_reach :: "client_sub \<Rightarrow> nat \<Rightarrow> bool" where
  created: "sub_reach (newClientSubscription ns) 0"
| started: "sub_reach s k \<Longrightarrow> sub_reach (s\<lparr>cs_subid := sid, cs_started := True\<rparr>) k"
| delivered: "sub_reach s k \<Longrightarrow> deliver pick r s = (b, s') \<Longrightarrow> sub_reach s' k"
| quit: "sub_reach s k \<Longrightarrow> quitWithError u e s = Proceed s' \<Longrightarrow> sub_reach s' k"
| unsubscribe_quit: "sub_reach s k \<Longrightarrow> quitWithError True None s = Proceed s' \<Longrightarrow> sub_reach s' (Suc k)"
| unsubscribe_close: "sub_reach s (Suc k) \<Longrightarrow> close_err s = Proceed s' \<Longrightarrow> sub_reach s' k"
| received: "sub_reach s k \<Longrightarrow> chan_recv (cs_err s) = Proceed (v, ch) \<Longrightarrow> sub_reach (s\<lparr>cs_err := ch\<rparr>) k"

text \<open>The invariant: what each \<open>Once\<close> flag says of its channel.\<close>

definition sub_inv :: "client_sub \<Rightarrow> nat \<Rightarrow> bool" where
  "sub_inv s k \<longleftrightarrow>
     ch_closed (cs_quit s) = quitOnce s \<and> ch_closed (cs_err s) = errOnce s \<and> ch_cap (cs_err s) = 1
     \<and> length (ch_buf (cs_err s)) \<le> 1 \<and> (\<not> quitOnce s \<longrightarrow> ch_buf (cs_err s) = [] \<and> cs_calls s = [])
     \<and> length (cs_calls s) \<le> 1 \<and> (errOnce s \<or> 0 < k \<longrightarrow> quitOnce s)"

lemma quitWithError_inv:
  assumes "sub_inv s k"
  obtains s' where "quitWithError u e s = Proceed s'" and "sub_inv s' k" and "quitOnce s'"
proof (cases "quitOnce s")
  case True
  with assms that show thesis by (simp add: quitWithError_def)
next
  case False
  let ?t = "s\<lparr>quitOnce := True, cs_quit := (cs_quit s)\<lparr>ch_closed := True\<rparr>\<rparr>"
  let ?t = "if u then requestUnsubscribe ?t else ?t"
  let ?t = "case e of None \<Rightarrow> ?t
    | Some e \<Rightarrow> ?t\<lparr>cs_err := (cs_err s)\<lparr>ch_buf := [if e = ErrClientQuit then None else Some e]\<rparr>\<rparr>"
  have st: "\<not> ch_closed (cs_quit s)" "\<not> ch_closed (cs_err s)" "ch_buf (cs_err s) = []" "ch_cap (cs_err s) = 1"
    "cs_calls s = []" "k = 0" "\<not> errOnce s"
    using assms False by (auto simp: sub_inv_def)
  have "quitWithError u e s = Proceed ?t"
    using False st by (cases e) (simp_all add: quitWithError_def chan_close_def chan_send_def Let_def requestUnsubscribe_def)
  moreover have "sub_inv ?t k \<and> quitOnce ?t"
    using st by (simp add: sub_inv_def requestUnsubscribe_def split: option.split)
  ultimately show thesis using that by blast
qed

lemma close_err_inv:
  assumes "sub_inv s (Suc k)"
  obtains s' where "close_err s = Proceed s'" and "sub_inv s' k" and "errOnce s'"
proof (cases "errOnce s")
  case True
  with assms that show thesis by (simp add: close_err_def sub_inv_def)
next
  case False
  with assms that show thesis by (simp add: close_err_def sub_inv_def chan_close_def)
qed

lemma sub_reach_inv: "sub_reach s k \<Longrightarrow> sub_inv s k"
proof (induction rule: sub_reach.induct)
  case (quit s k u e s')
  then show ?case by (metis chan_step.inject quitWithError_inv)
next
  case (unsubscribe_quit s k s')
  then obtain t where "quitWithError True None s = Proceed t" "sub_inv t k" "quitOnce t"
    using quitWithError_inv by blast
  with unsubscribe_quit show ?case by (auto simp: sub_inv_def)
next
  case (unsubscribe_close s k s')
  then show ?case by (metis chan_step.inject close_err_inv)
qed (auto simp: newClientSubscription_def sub_inv_def deliver_def chan_recv_def split: if_splits list.splits)



end
