(* ===== verification/State_Machine.thy ===== *)
theory State_Machine
  imports Main
begin

text \<open>
  State machines: initial states and a step relation, the states that can be reached, and invariants. The systems
  of concurrent activities in the other theories interpret the locales \<open>machine_invariant\<close> and \<open>machine_progress\<close>.
\<close>

inductive reach :: "('s \<Rightarrow> bool) \<Rightarrow> ('s \<Rightarrow> 's \<Rightarrow> bool) \<Rightarrow> 's \<Rightarrow> bool" for start move where
  start: "start s \<Longrightarrow> reach start move s"
| step: "reach start move s \<Longrightarrow> move s s' \<Longrightarrow> reach start move s'"

lemma reach_rtranclp: "reach start move s \<Longrightarrow> move\<^sup>*\<^sup>* s s' \<Longrightarrow> reach start move s'"
  by (rotate_tac 1, induction rule: rtranclp_induct) (auto intro: reach.step)

text \<open>An invariant holds at the start and is kept by every step from a reachable state.\<close>

locale machine_invariant =
  fixes start :: "'s \<Rightarrow> bool"
    and move :: "'s \<Rightarrow> 's \<Rightarrow> bool"
    and inv :: "'s \<Rightarrow> bool"
  assumes inv_start: "start s \<Longrightarrow> inv s"
    and inv_step: "move s s' \<Longrightarrow> inv s \<Longrightarrow> inv s'"
begin

lemma reach_inv: "reach start move s \<Longrightarrow> inv s"
  by (induction rule: reach.induct) (auto intro: inv_start inv_step)

lemma steps_inv: "move\<^sup>*\<^sup>* s s' \<Longrightarrow> inv s \<Longrightarrow> inv s'"
  by (induction rule: rtranclp_induct) (auto intro: inv_step)

text \<open>What the steps keep as long as the invariant holds, holds for ever once it is reached.\<close>

lemma stable_steps:
  assumes "\<And>s s'. move s s' \<Longrightarrow> inv s \<Longrightarrow> P s \<Longrightarrow> P s'" and "move\<^sup>*\<^sup>* s s'" and "inv s" and "P s"
  shows "P s'"
  using assms(2)
proof (induction rule: rtranclp_induct)
  case base
  show ?case by (rule assms(4))
next
  case (step t t')
  then show ?case using assms(1) steps_inv assms(3) by blast
qed

end

text \<open>
  A machine that makes progress: a state that is not final has a step, and every step uses up some of what is left
  to do. Whatever the interleaving, it then ends, and only in a final state.
\<close>

locale machine_progress = machine_invariant +
  fixes final :: "'s \<Rightarrow> bool"
    and left :: "'s \<Rightarrow> nat"
  assumes progress: "inv s \<Longrightarrow> \<not> final s \<Longrightarrow> \<exists>s'. move s s'"
    and decreases: "move s s' \<Longrightarrow> inv s \<Longrightarrow> left s' < left s"
begin

lemma run_bounded: "(move ^^ n) s s' \<Longrightarrow> inv s \<Longrightarrow> inv s' \<and> left s' + n \<le> left s"
proof (induction n arbitrary: s')
  case 0
  then show ?case by simp
next
  case (Suc n)
  then obtain t where "(move ^^ n) s t" "move t s'" by auto
  moreover from this Suc have "inv t \<and> left t + n \<le> left s" by blast
  ultimately show ?case using decreases inv_step by fastforce
qed

lemma stuck_final: "reach start move s \<Longrightarrow> \<nexists>s'. move s s' \<Longrightarrow> final s"
  using progress reach_inv by blast

lemma can_finish: "inv s \<Longrightarrow> \<exists>s'. move\<^sup>*\<^sup>* s s' \<and> final s'"
proof (induction "left s" arbitrary: s rule: less_induct)
  case less
  show ?case
  proof (cases "final s")
    case False
    then obtain t where t: "move s t" using progress less.prems by blast
    then have "left t < left s" "inv t" using decreases inv_step less.prems by blast+
    then obtain u where "move\<^sup>*\<^sup>* t u" "final u" using less.hyps by blast
    then show ?thesis using t by (blast intro: converse_rtranclp_into_rtranclp)
  qed blast
qed

lemma runs_end: "\<not> (start (f 0) \<and> (\<forall>i. move (f i) (f (Suc i))))"
proof
  assume run: "start (f 0) \<and> (\<forall>i. move (f i) (f (Suc i)))"
  have "(move ^^ n) (f 0) (f n)" for n using run by (induction n) auto
  then have "left (f (Suc (left (f 0)))) + Suc (left (f 0)) \<le> left (f 0)" using run_bounded inv_start run by blast
  then show False by simp
qed

end

end
