(* ===== verification/Rpc_Handler.thy ===== *)
theory Rpc_Handler
  imports Rpc_Service Rpc_Subscription State_Machine
begin

text \<open>
  The message handler of a connection (\<open>simple_rpc/rpc/handler.go\<close>): responses are matched to
  waiting requests, notifications to client subscriptions, and calls run on their own goroutine (a
  call process) against the service registry. Go pointers are addresses into the stores \<open>ops\<close>,
  \<open>csubs\<close> and \<open>notifiers\<close>; the maps are association lists, whose order is the order in which a
  \<open>range\<close> visits them, so that what is proved for every list holds for every order. The three
  request gauges of \<open>metrics.go\<close> are fields too, with the names of the timers in the order in which they are updated.
\<close>

section \<open>State\<close>

record requestOp =
  op_ids :: "string list"
  op_err :: "rpc_error option"
  op_resp :: "jsonrpcMessage chan"
  op_sub :: "nat option"

record ('f, 'c, 'g) handler =
  h_reg :: "'f serviceRegistry"
  h_idgen :: 'g
  respWait :: "(string \<times> nat) list"
  clientSubs :: "(string \<times> nat) list"
  rootCanceled :: bool
  h_conn :: 'c
  allowSubscribe :: bool
  serverSubs :: "(string \<times> nat) list"
  ops :: "nat \<Rightarrow> requestOp"
  csubs :: "nat \<Rightarrow> client_sub"
  notifiers :: "notifier list"
  rpcRequestGauge :: nat
  successfulRequestGauge :: nat
  failedRequestGauge :: nat
  servingTimers :: "string list"

definition newHandler ::
  "'c \<Rightarrow> 'g \<Rightarrow> 'f serviceRegistry \<Rightarrow> (nat \<Rightarrow> requestOp) \<Rightarrow> (nat \<Rightarrow> client_sub) \<Rightarrow> ('f, 'c, 'g) handler" where
  "newHandler c g reg os cs =
     \<lparr>h_reg = reg, h_idgen = g, respWait = [], clientSubs = [], rootCanceled = False, h_conn = c,
      allowSubscribe = True, serverSubs = [], ops = os, csubs = cs, notifiers = [],
      rpcRequestGauge = 0, successfulRequestGauge = 0, failedRequestGauge = 0, servingTimers = []\<rparr>"

section \<open>The environment of a handler\<close>

text \<open>
  A service method is a program that may use the notifier of its context: create the subscription,
  send notifications, and finish with its results or a panic.
\<close>

datatype 'v prog =
    Done "'v rvalue list outcome"
  | DoCreate "string \<Rightarrow> 'v prog"
  | DoNotify string "rpc_error + string" "rpc_error option \<Rightarrow> 'v prog"

text \<open>
  What lies outside: decoding of a JSON value into a type, zero values, encoding of results, the
  identifier in a decoded value of type \<open>ID\<close>, the methods of the registered services, the
  connection's write and the generator of subscription identifiers.
\<close>

record ('f, 'v, 'c, 'g) env =
  e_dec :: "rtype \<Rightarrow> string \<Rightarrow> string + 'v"
  e_zero :: "rtype \<Rightarrow> 'v"
  e_marshal :: "'v \<Rightarrow> rpc_error + string"
  e_id :: "'v \<Rightarrow> string"
  e_invoke :: "'f \<Rightarrow> 'v fullarg list \<Rightarrow> 'v prog"
  e_write :: "wire \<Rightarrow> 'c \<Rightarrow> rpc_error option \<times> 'c"
  e_idgen :: "'g \<Rightarrow> string \<times> 'g"

primrec run_prog ::
  "'v prog \<Rightarrow> ('f, 'v, 'c, 'g) env \<Rightarrow> nat option \<Rightarrow> ('f, 'c, 'g) handler
     \<Rightarrow> 'v rvalue list outcome \<times> ('f, 'c, 'g) handler" where
  "run_prog (Done r) E ni h = (r, h)"
| "run_prog (DoCreate k) E ni h =
     (case ni of
        None \<Rightarrow> (Panic NilDereference, h)
      | Some i \<Rightarrow>
          (case CreateSubscription (e_idgen E) (h_idgen h) (notifiers h ! i) of
             Panic p \<Rightarrow> (Panic p, h)
           | Return (sub, n, g) \<Rightarrow>
               run_prog (k (sub_ID sub)) E ni (h\<lparr>h_idgen := g, notifiers := (notifiers h)[i := n]\<rparr>)))"
| "run_prog (DoNotify sid data k) E ni h =
     (case ni of
        None \<Rightarrow> (Panic NilDereference, h)
      | Some i \<Rightarrow>
          (case Notify (e_write E) sid data (notifiers h ! i) (h_conn h) of
             Panic p \<Rightarrow> (Panic p, h)
           | Return (err, n, c) \<Rightarrow>
               run_prog (k err) E ni (h\<lparr>h_conn := c, notifiers := (notifiers h)[i := n]\<rparr>)))"

section \<open>Client requests\<close>

definition raw_bytes :: "string option \<Rightarrow> string" where
  "raw_bytes r = (case r of None \<Rightarrow> [] | Some v \<Rightarrow> v)"

definition addRequestOp :: "nat \<Rightarrow> ('f, 'c, 'g) handler \<Rightarrow> ('f, 'c, 'g) handler" where
  "addRequestOp a h = h\<lparr>respWait := foldl (\<lambda>m i. AList.update i a m) (respWait h) (op_ids (ops h a))\<rparr>"

definition removeRequestOp :: "nat \<Rightarrow> ('f, 'c, 'g) handler \<Rightarrow> ('f, 'c, 'g) handler" where
  "removeRequestOp a h = h\<lparr>respWait := foldl (\<lambda>m i. AList.delete i m) (respWait h) (op_ids (ops h a))\<rparr>"

text \<open>The two loops of \<open>cancelAllRequests\<close>; \<open>didClose\<close> is the set of requests already closed.\<close>

fun cancel_ops ::
  "rpc_error \<Rightarrow> nat list \<Rightarrow> (string \<times> nat) list \<Rightarrow> (nat \<Rightarrow> requestOp) \<Rightarrow> (nat \<Rightarrow> requestOp) chan_step" where
  "cancel_ops err didClose [] os = Proceed os"
| "cancel_ops err didClose ((i, a) # rest) os =
     (if a \<in> set didClose then cancel_ops err didClose rest os
      else
        step_bind (chan_close (op_resp (os a))) (\<lambda>ch.
          cancel_ops err (a # didClose) rest (os(a := (os a)\<lparr>op_err := Some err, op_resp := ch\<rparr>))))"

fun cancel_subs ::
  "rpc_error \<Rightarrow> (string \<times> nat) list \<Rightarrow> (nat \<Rightarrow> client_sub) \<Rightarrow> (nat \<Rightarrow> client_sub) chan_step" where
  "cancel_subs err [] cs = Proceed cs"
| "cancel_subs err ((i, a) # rest) cs =
     step_bind (quitWithError False (Some err) (cs a)) (\<lambda>s. cancel_subs err rest (cs(a := s)))"

definition cancelAllRequests ::
  "rpc_error \<Rightarrow> nat option \<Rightarrow> ('f, 'c, 'g) handler \<Rightarrow> ('f, 'c, 'g) handler chan_step" where
  "cancelAllRequests err inflightReq h =
     step_bind (cancel_ops err (case inflightReq of None \<Rightarrow> [] | Some a \<Rightarrow> [a]) (respWait h) (ops h)) (\<lambda>os.
       step_bind (cancel_subs err (clientSubs h) (csubs h)) (\<lambda>cs.
         Proceed (h\<lparr>respWait := [], ops := os, clientSubs := [], csubs := cs\<rparr>)))"

definition handleResponse :: "jsonrpcMessage \<Rightarrow> ('f, 'c, 'g) handler \<Rightarrow> ('f, 'c, 'g) handler chan_step" where
  "handleResponse msg h =
     (case map_of (respWait h) (raw_bytes (ID msg)) of
        None \<Rightarrow> Proceed h
      | Some a \<Rightarrow>
          let h = h\<lparr>respWait := AList.delete (raw_bytes (ID msg)) (respWait h)\<rparr>;
              op = ops h a in
          case op_sub op of
            None \<Rightarrow>
              step_bind (chan_send msg (op_resp op)) (\<lambda>ch.
                Proceed (h\<lparr>ops := (ops h)(a := op\<lparr>op_resp := ch\<rparr>)\<rparr>))
          | Some s \<Rightarrow>
              let (err, h) =
                (case Err msg of
                   Some e \<Rightarrow> (Some (JsonError e), h)
                 | None \<Rightarrow>
                     (case unmarshal_string (Result msg) (cs_subid (csubs h s)) of
                        Inl e \<Rightarrow> (Some e, h)
                      | Inr subid \<Rightarrow>
                          (None, h\<lparr>csubs := (csubs h)(s := (csubs h s)\<lparr>cs_subid := subid, cs_started := True\<rparr>),
                                   clientSubs := AList.update subid s (clientSubs h)\<rparr>))) in
              step_bind (chan_close (op_resp op)) (\<lambda>ch.
                Proceed (h\<lparr>ops := (ops h)(a := op\<lparr>op_err := err, op_resp := ch\<rparr>)\<rparr>)))"

text \<open>\<open>json.Unmarshal\<close> into a \<open>subscriptionResult\<close>; \<open>None\<close> when it reports an error.\<close>

definition subscriptionResult_member :: "subscriptionResult option \<Rightarrow> string \<times> string \<Rightarrow> subscriptionResult option" where
  "subscriptionResult_member r kv =
     (let (k, v) = kv in
      case r of
        None \<Rightarrow> None
      | Some r \<Rightarrow>
          if key_is ''subscription'' k then
            (if is_null v then Some r
             else (case as_string v of Some s \<Rightarrow> Some (r\<lparr>sr_ID := s\<rparr>) | None \<Rightarrow> None))
          else if key_is ''result'' k then Some (r\<lparr>sr_Result := Some v\<rparr>)
          else Some r)"

definition decode_subscriptionResult :: "string option \<Rightarrow> subscriptionResult option" where
  "decode_subscriptionResult p =
     (case p of
        None \<Rightarrow> None
      | Some v \<Rightarrow>
          let zero = \<lparr>sr_ID = [], sr_Result = None\<rparr> in
          if is_null v then Some zero
          else (case members_of v of
                  None \<Rightarrow> None
                | Some kvs \<Rightarrow> foldl subscriptionResult_member (Some zero) kvs))"

definition handleSubscriptionResult ::
  "bool \<Rightarrow> jsonrpcMessage \<Rightarrow> ('f, 'c, 'g) handler \<Rightarrow> ('f, 'c, 'g) handler" where
  "handleSubscriptionResult pick msg h =
     (case decode_subscriptionResult (Params msg) of
        None \<Rightarrow> h
      | Some result \<Rightarrow>
          (case map_of (clientSubs h) (sr_ID result) of
             None \<Rightarrow> h
           | Some s \<Rightarrow>
               h\<lparr>csubs := (csubs h)(s := snd (deliver pick (raw_bytes (sr_Result result)) (csubs h s)))\<rparr>))"

definition handleImmediate ::
  "bool \<Rightarrow> jsonrpcMessage \<Rightarrow> ('f, 'c, 'g) handler \<Rightarrow> (bool \<times> ('f, 'c, 'g) handler) chan_step" where
  "handleImmediate pick msg h =
     (if isNotification msg then
        (if HasSuffix (Method msg) notificationMethodSuffix
         then Proceed (True, handleSubscriptionResult pick msg h)
         else Proceed (False, h))
      else if isResponse msg then step_bind (handleResponse msg h) (\<lambda>h. Proceed (True, h))
      else Proceed (False, h))"

section \<open>Server subscriptions\<close>

fun addSubscriptions :: "nat list \<Rightarrow> ('f, 'c, 'g) handler \<Rightarrow> ('f, 'c, 'g) handler" where
  "addSubscriptions [] h = h"
| "addSubscriptions (i # nn) h =
     (let (sub, n) = takeSubscription (notifiers h ! i);
          h = h\<lparr>notifiers := (notifiers h)[i := n]\<rparr> in
      case sub of
        None \<Rightarrow> addSubscriptions nn h
      | Some s \<Rightarrow> addSubscriptions nn (h\<lparr>serverSubs := AList.update (sub_ID s) i (serverSubs h)\<rparr>))"

text \<open>The error channel of the subscription of notifier \<open>i\<close>, which the map points to.\<close>

definition set_sub_err :: "nat \<Rightarrow> rpc_error chan \<Rightarrow> notifier list \<Rightarrow> notifier list" where
  "set_sub_err i ch ns = ns[i := (ns ! i)\<lparr>n_sub := map_option (\<lambda>s. s\<lparr>sub_err := ch\<rparr>) (n_sub (ns ! i))\<rparr>]"

fun cancel_server_subs :: "rpc_error \<Rightarrow> (string \<times> nat) list \<Rightarrow> notifier list \<Rightarrow> notifier list chan_step" where
  "cancel_server_subs err [] ns = Proceed ns"
| "cancel_server_subs err ((sid, i) # rest) ns =
     (case n_sub (ns ! i) of
        None \<Rightarrow> Panicked NilDereference
      | Some s \<Rightarrow>
          step_bind (chan_send err (sub_err s)) (\<lambda>ch.
            step_bind (chan_close ch) (\<lambda>ch. cancel_server_subs err rest (set_sub_err i ch ns))))"

definition cancelServerSubscriptions ::
  "rpc_error \<Rightarrow> ('f, 'c, 'g) handler \<Rightarrow> ('f, 'c, 'g) handler chan_step" where
  "cancelServerSubscriptions err h =
     step_bind (cancel_server_subs err (serverSubs h) (notifiers h)) (\<lambda>ns.
       Proceed (h\<lparr>notifiers := ns, serverSubs := []\<rparr>))"

definition ErrSubscriptionNotFound :: rpc_error where
  "ErrSubscriptionNotFound = PlainError ''subscription not found''"

definition ErrNotificationsUnsupported :: rpc_error where
  "ErrNotificationsUnsupported = PlainError ''notifications not supported''"

text \<open>A panic (closing a closed channel) is caught by the recovery in \<open>callback.call\<close>.\<close>

definition unsubscribe :: "string \<Rightarrow> ('f, 'c, 'g) handler \<Rightarrow> (rpc_error option \<times> bool) outcome \<times> ('f, 'c, 'g) handler" where
  "unsubscribe sid h =
     (case map_of (serverSubs h) sid of
        None \<Rightarrow> (Return (Some ErrSubscriptionNotFound, False), h)
      | Some i \<Rightarrow>
          (case n_sub (notifiers h ! i) of
             None \<Rightarrow> (Panic NilDereference, h)
           | Some s \<Rightarrow>
               (case chan_close (sub_err s) of
                  Proceed ch \<Rightarrow>
                    (Return (None, True),
                     h\<lparr>notifiers := set_sub_err i ch (notifiers h), serverSubs := AList.delete sid (serverSubs h)\<rparr>)
                | Blocked \<Rightarrow> (Panic ClosedChannel, h)
                | Panicked p \<Rightarrow> (Panic p, h))))"

section \<open>Calls\<close>

text \<open>\<open>json.Marshal\<close> of the first result: nil (no result, or a nil error) is null.\<close>

definition marshal_result :: "('f, 'v, 'c, 'g) env \<Rightarrow> 'v rvalue option \<Rightarrow> rpc_error + string" where
  "marshal_result E r =
     (case r of
        None \<Rightarrow> Inr null_raw
      | Some (RVal v) \<Rightarrow> e_marshal E v
      | Some (RErr None) \<Rightarrow> Inr null_raw
      | Some (RErr (Some _)) \<Rightarrow> Inr ''{}'')"

definition runMethod ::
  "('f, 'v, 'c, 'g) env \<Rightarrow> nat option \<Rightarrow> jsonrpcMessage \<Rightarrow> 'f callback \<Rightarrow> 'v list \<Rightarrow> ('f, 'c, 'g) handler
     \<Rightarrow> jsonrpcMessage \<times> ('f, 'c, 'g) handler" where
  "runMethod E ni msg callb args h =
     (let (r, h) = run_prog (e_invoke E (fn_id (fn callb)) (fullargs callb args)) E ni h in
      case call_results callb r of
        Inl err \<Rightarrow> (errorResponse msg err, h)
      | Inr result \<Rightarrow> (response msg (marshal_result E result), h))"

text \<open>\<open>runMethod\<close> on the handler's own callback \<open>unsubscribe\<close>.\<close>

definition run_unsubscribe ::
  "jsonrpcMessage \<Rightarrow> string \<Rightarrow> ('f, 'c, 'g) handler \<Rightarrow> jsonrpcMessage \<times> ('f, 'c, 'g) handler" where
  "run_unsubscribe msg sid h =
     (case unsubscribe sid h of
        (Panic p, h) \<Rightarrow> (errorResponse msg (PlainError ''method handler crashed''), h)
      | (Return (Some err, _), h) \<Rightarrow> (errorResponse msg err, h)
      | (Return (None, b), h) \<Rightarrow> (response msg (Inr (if b then ''true'' else ''false'')), h))"

definition IDType :: rtype where "IDType = Named ''rpc.ID'' False"

text \<open>The notifiers of the call process are the last component.\<close>

definition handleSubscribe ::
  "('f, 'v, 'c, 'g) env \<Rightarrow> jsonrpcMessage \<Rightarrow> ('f, 'c, 'g) handler \<Rightarrow> nat list
     \<Rightarrow> jsonrpcMessage \<times> ('f, 'c, 'g) handler \<times> nat list" where
  "handleSubscribe E msg h nn =
     (if \<not> allowSubscribe h then (errorResponse msg ErrNotificationsUnsupported, h, nn)
      else
        (case parseSubscriptionName (Params msg) of
           Inl err \<Rightarrow> (errorResponse msg (InvalidParamsError (Error err)), h, nn)
         | Inr nam \<Rightarrow>
             (case registry_subscription (h_reg h) (namespace msg) nam of
                None \<Rightarrow> (errorResponse msg (SubscriptionNotFoundError (namespace msg) nam), h, nn)
              | Some callb \<Rightarrow>
                  (case parsePositionalArguments (e_dec E) (e_zero E) (Params msg) (StringType # argTypes callb) of
                     Inl err \<Rightarrow> (errorResponse msg (InvalidParamsError (Error err)), h, nn)
                   | Inr args \<Rightarrow>
                       let i = length (notifiers h);
                           h = h\<lparr>notifiers := notifiers h @ [new_notifier (namespace msg)]\<rparr>;
                           (answer, h) = runMethod E (Some i) msg callb (tl args) h in
                       (answer, h, nn @ [i])))))"

text \<open>The timers of \<open>metrics.go\<close>, by their names in the registry of package \<open>metrics\<close>.\<close>

definition rpcServingTimer :: string where
  "rpcServingTimer = ''rpc/duration/all''"

definition newRPCServingTimer :: "string \<Rightarrow> bool \<Rightarrow> string" where
  "newRPCServingTimer meth valid = (let flag = (if \<not> valid then ''failure'' else ''success'') in ''rpc/duration/'' @ meth @ ''/'' @ flag)"

definition handleCall ::
  "('f, 'v, 'c, 'g) env \<Rightarrow> jsonrpcMessage \<Rightarrow> ('f, 'c, 'g) handler \<Rightarrow> nat list
     \<Rightarrow> jsonrpcMessage \<times> ('f, 'c, 'g) handler \<times> nat list" where
  "handleCall E msg h nn =
     (if isSubscribe msg then handleSubscribe E msg h nn
      else if isUnsubscribe msg then
        (case parsePositionalArguments (e_dec E) (e_zero E) (Params msg) [IDType] of
           Inl err \<Rightarrow> (errorResponse msg (InvalidParamsError (Error err)), h, nn)
         | Inr args \<Rightarrow> let (answer, h) = run_unsubscribe msg (e_id E (args ! 0)) h in (answer, h, nn))
      else
        (case registry_callback (h_reg h) (Method msg) of
           None \<Rightarrow> (errorResponse msg (MethodNotFoundError (Method msg)), h, nn)
         | Some callb \<Rightarrow>
             (case parsePositionalArguments (e_dec E) (e_zero E) (Params msg) (argTypes callb) of
                Inl err \<Rightarrow> (errorResponse msg (InvalidParamsError (Error err)), h, nn)
              | Inr args \<Rightarrow>
                  let (answer, h) = runMethod E None msg callb args h;
                      h = h\<lparr>rpcRequestGauge := Suc (rpcRequestGauge h)\<rparr>;
                      h = (if Err answer \<noteq> None then h\<lparr>failedRequestGauge := Suc (failedRequestGauge h)\<rparr>
                           else h\<lparr>successfulRequestGauge := Suc (successfulRequestGauge h)\<rparr>);
                      h = h\<lparr>servingTimers := servingTimers h @ [rpcServingTimer, newRPCServingTimer (Method msg) (Err answer = None)]\<rparr> in
                  (answer, h, nn))))"

definition handleCallMsg ::
  "('f, 'v, 'c, 'g) env \<Rightarrow> jsonrpcMessage \<Rightarrow> ('f, 'c, 'g) handler \<Rightarrow> nat list
     \<Rightarrow> jsonrpcMessage option \<times> ('f, 'c, 'g) handler \<times> nat list" where
  "handleCallMsg E msg h nn =
     (if isNotification msg then (let (_, h, nn) = handleCall E msg h nn in (None, h, nn))
      else if isCall msg then (let (resp, h, nn) = handleCall E msg h nn in (Some resp, h, nn))
      else if hasValidID msg then (Some (errorResponse msg (InvalidRequestError ''invalid request'')), h, nn)
      else (Some (errorMessage (InvalidRequestError ''invalid request'')), h, nn))"

section \<open>Call processes and the entry points\<close>

text \<open>
  A goroutine started by \<open>startCallProc\<close>: the messages still to handle, the answers so far, the
  notifiers of its calls, and how far it is.
\<close>

datatype phase = Calling | Answering | Activating "nat list" | Finished

record callProc =
  cp_batch :: bool
  cp_todo :: "jsonrpcMessage list"
  cp_answers :: "jsonrpcMessage list"
  cp_notifiers :: "nat list"
  cp_phase :: phase

definition startCallProc :: "bool \<Rightarrow> jsonrpcMessage list \<Rightarrow> callProc" where
  "startCallProc batch calls =
     \<lparr>cp_batch = batch, cp_todo = calls, cp_answers = [], cp_notifiers = [], cp_phase = Calling\<rparr>"

text \<open>The process that only writes the error for an empty batch.\<close>

definition empty_batch_proc :: callProc where
  "empty_batch_proc =
     \<lparr>cp_batch = False, cp_todo = [], cp_answers = [errorMessage (InvalidRequestError ''empty batch'')],
      cp_notifiers = [], cp_phase = Answering\<rparr>"

text \<open>What is written for the answers: nothing, one message, or one array.\<close>

definition answer_wire :: "bool \<Rightarrow> jsonrpcMessage list \<Rightarrow> wire list" where
  "answer_wire batch answers =
     (if answers = [] then [] else if batch then [WBatch answers] else [WMsg (hd answers)])"

definition write_answers ::
  "('f, 'v, 'c, 'g) env \<Rightarrow> bool \<Rightarrow> jsonrpcMessage list \<Rightarrow> ('f, 'c, 'g) handler \<Rightarrow> ('f, 'c, 'g) handler" where
  "write_answers E batch answers h =
     (case answer_wire batch answers of
        [] \<Rightarrow> h
      | w # _ \<Rightarrow> h\<lparr>h_conn := snd (e_write E w (h_conn h))\<rparr>)"

definition activate_notifier ::
  "('f, 'v, 'c, 'g) env \<Rightarrow> nat \<Rightarrow> ('f, 'c, 'g) handler \<Rightarrow> ('f, 'c, 'g) handler outcome" where
  "activate_notifier E i h =
     outcome_bind (activate (e_write E) (notifiers h ! i) (h_conn h)) (\<lambda>(_, n, c).
       Return (h\<lparr>h_conn := c, notifiers := (notifiers h)[i := n]\<rparr>))"

text \<open>One step of a call process; the steps of several processes interleave.\<close>

definition proc_step ::
  "('f, 'v, 'c, 'g) env \<Rightarrow> callProc \<Rightarrow> ('f, 'c, 'g) handler \<Rightarrow> (callProc \<times> ('f, 'c, 'g) handler) outcome" where
  "proc_step E p h =
     (case cp_phase p of
        Calling \<Rightarrow>
          (case cp_todo p of
             msg # rest \<Rightarrow>
               let (answer, h, nn) = handleCallMsg E msg h (cp_notifiers p) in
               Return (p\<lparr>cp_todo := rest, cp_notifiers := nn,
                 cp_answers := cp_answers p @ (case answer of None \<Rightarrow> [] | Some a \<Rightarrow> [a])\<rparr>, h)
           | [] \<Rightarrow> Return (p\<lparr>cp_phase := Answering\<rparr>, addSubscriptions (cp_notifiers p) h))
      | Answering \<Rightarrow>
          Return (p\<lparr>cp_phase := Activating (cp_notifiers p)\<rparr>, write_answers E (cp_batch p) (cp_answers p) h)
      | Activating [] \<Rightarrow> Return (p\<lparr>cp_phase := Finished\<rparr>, h)
      | Activating (i # is) \<Rightarrow>
          outcome_bind (activate_notifier E i h) (\<lambda>h. Return (p\<lparr>cp_phase := Activating is\<rparr>, h))
      | Finished \<Rightarrow> Return (p, h))"

text \<open>A call process from start to end with nothing in between, as the source writes it.\<close>

fun call_loop ::
  "('f, 'v, 'c, 'g) env \<Rightarrow> jsonrpcMessage list \<Rightarrow> jsonrpcMessage list \<Rightarrow> ('f, 'c, 'g) handler \<Rightarrow> nat list
     \<Rightarrow> jsonrpcMessage list \<times> ('f, 'c, 'g) handler \<times> nat list" where
  "call_loop E [] answers h nn = (answers, h, nn)"
| "call_loop E (msg # calls) answers h nn =
     (let (answer, h, nn) = handleCallMsg E msg h nn in
      call_loop E calls (answers @ (case answer of None \<Rightarrow> [] | Some a \<Rightarrow> [a])) h nn)"

fun activate_all ::
  "('f, 'v, 'c, 'g) env \<Rightarrow> nat list \<Rightarrow> ('f, 'c, 'g) handler \<Rightarrow> ('f, 'c, 'g) handler outcome" where
  "activate_all E [] h = Return h"
| "activate_all E (i # is) h = outcome_bind (activate_notifier E i h) (activate_all E is)"

definition runProc ::
  "('f, 'v, 'c, 'g) env \<Rightarrow> bool \<Rightarrow> jsonrpcMessage list \<Rightarrow> ('f, 'c, 'g) handler \<Rightarrow> ('f, 'c, 'g) handler outcome" where
  "runProc E batch calls h =
     (let (answers, h, nn) = call_loop E calls [] h [];
          h = addSubscriptions nn h;
          h = write_answers E batch answers h in
      activate_all E nn h)"

text \<open>
  The entry points. What the runtime picks when a delivery could go either way is the argument
  \<open>pick\<close>. The result has the call process to start, if any.
\<close>

definition handleMsg ::
  "bool \<Rightarrow> jsonrpcMessage \<Rightarrow> ('f, 'c, 'g) handler \<Rightarrow> (callProc option \<times> ('f, 'c, 'g) handler) chan_step" where
  "handleMsg pick msg h =
     step_bind (handleImmediate pick msg h) (\<lambda>(ok, h).
       Proceed (if ok then None else Some (startCallProc False [msg]), h))"

fun immediate_loop ::
  "(nat \<Rightarrow> bool) \<Rightarrow> jsonrpcMessage list \<Rightarrow> jsonrpcMessage list \<Rightarrow> ('f, 'c, 'g) handler
     \<Rightarrow> (jsonrpcMessage list \<times> ('f, 'c, 'g) handler) chan_step" where
  "immediate_loop pick [] calls h = Proceed (calls, h)"
| "immediate_loop pick (msg # msgs) calls h =
     step_bind (handleImmediate (pick (length msgs)) msg h) (\<lambda>(handled, h).
       immediate_loop pick msgs (if handled then calls else calls @ [msg]) h)"

definition handleBatch ::
  "(nat \<Rightarrow> bool) \<Rightarrow> jsonrpcMessage list \<Rightarrow> ('f, 'c, 'g) handler
     \<Rightarrow> (callProc option \<times> ('f, 'c, 'g) handler) chan_step" where
  "handleBatch pick msgs h =
     (if msgs = [] then Proceed (Some empty_batch_proc, h)
      else
        step_bind (immediate_loop pick msgs [] h) (\<lambda>(calls, h).
          Proceed (if calls = [] then None else Some (startCallProc True calls), h)))"

text \<open>\<open>close\<close>, once the call processes have ended.\<close>

definition handler_close ::
  "rpc_error \<Rightarrow> nat option \<Rightarrow> ('f, 'c, 'g) handler \<Rightarrow> ('f, 'c, 'g) handler chan_step" where
  "handler_close err inflightReq h =
     step_bind (cancelAllRequests err inflightReq h) (\<lambda>h.
       cancelServerSubscriptions err (h\<lparr>rootCanceled := True\<rparr>))"

section \<open>Answers\<close>

lemma errorResponse_fields [simp]:
  "ID (errorResponse msg err) = ID msg" "Method (errorResponse msg err) = []"
  "Version (errorResponse msg err) = vsn" "Result (errorResponse msg err) = None"
  "Params (errorResponse msg err) = None" "Err (errorResponse msg err) \<noteq> None"
  by (simp_all add: errorResponse_def errorMessage_def zero_message_def Let_def)

lemma errorMessage_fields [simp]:
  "ID (errorMessage err) = Some null_raw" "Method (errorMessage err) = []"
  "Version (errorMessage err) = vsn" "Result (errorMessage err) = None"
  "Params (errorMessage err) = None" "Err (errorMessage err) \<noteq> None"
  by (simp_all add: errorMessage_def zero_message_def Let_def)

text \<open>A well-formed answer to a message: right version and ID, and either an error or a result.\<close>

definition answers_to :: "jsonrpcMessage \<Rightarrow> jsonrpcMessage \<Rightarrow> bool" where
  "answers_to msg a \<longleftrightarrow>
     ID a = (if hasValidID msg then ID msg else Some null_raw) \<and> Version a = vsn \<and> Method a = [] \<and> Params a = None
     \<and> (Err a \<noteq> None \<longleftrightarrow> Result a = None)"

definition reply :: "jsonrpcMessage \<Rightarrow> jsonrpcMessage \<Rightarrow> bool" where
  "reply msg a \<longleftrightarrow> ID a = ID msg \<and> Version a = vsn \<and> Method a = [] \<and> Params a = None
     \<and> (Err a \<noteq> None \<longleftrightarrow> Result a = None)"

lemma reply_errorResponse [simp]: "reply msg (errorResponse msg err)"
  by (auto simp: reply_def)

lemma reply_response [simp]: "reply msg (response msg r)"
proof (cases r)
  case (Inl err)
  then show ?thesis by (simp add: response_def)
next
  case (Inr enc)
  then show ?thesis by (simp add: response_def reply_def zero_message_def)
qed

lemma runMethod_reply: "runMethod E ni msg callb args h = (a, h') \<Longrightarrow> reply msg a"
  by (auto simp: runMethod_def split: prod.splits sum.splits)

lemma run_unsubscribe_reply: "run_unsubscribe msg sid h = (a, h') \<Longrightarrow> reply msg a"
  by (auto simp: run_unsubscribe_def split: prod.splits outcome.splits option.splits)

lemma handleSubscribe_reply: "handleSubscribe E msg h nn = (a, h', nn') \<Longrightarrow> reply msg a"
  by (auto simp: handleSubscribe_def Let_def dest: runMethod_reply
      split: prod.splits sum.splits option.splits if_splits)

lemma handleCall_reply: "handleCall E msg h nn = (a, h', nn') \<Longrightarrow> reply msg a"
  by (auto simp: handleCall_def Let_def dest: runMethod_reply run_unsubscribe_reply handleSubscribe_reply
      split: prod.splits sum.splits option.splits if_splits)

lemma handleCallMsg_answer:
  "case fst (handleCallMsg E msg h nn) of
     None \<Rightarrow> isNotification msg
   | Some a \<Rightarrow> \<not> isNotification msg \<and> answers_to msg a"
proof -
  have "\<not> isNotification msg \<Longrightarrow> isCall msg \<Longrightarrow> reply msg a \<Longrightarrow> answers_to msg a" for a
    by (simp add: answers_to_def reply_def isCall_def)
  moreover have "hasValidID msg \<Longrightarrow> answers_to msg (errorResponse msg err)" for err
    using reply_errorResponse [of msg err] by (simp add: answers_to_def reply_def)
  moreover have "\<not> hasValidID msg \<Longrightarrow> answers_to msg (errorMessage err)" for err
    using errorMessage_fields [of err] by (simp add: answers_to_def)
  ultimately show ?thesis
    by (auto simp: handleCallMsg_def dest: handleCall_reply split: prod.split)
qed

end
