(* ===== verification/Rpc_Client.thy ===== *)
theory Rpc_Client
  imports Rpc_Handler
begin

text \<open>
  The RPC client (\<open>simple_rpc/rpc/client.go\<close>): request identifiers and messages, the dispatch loop as
  a transition function on its events, the write path with its one retry, and what the calling
  goroutines (\<open>CallContext\<close>, \<open>BatchCallContext\<close>, \<open>Subscribe\<close>) make of the responses.
\<close>

section \<open>Messages\<close>

definition nextID :: "uint32 \<Rightarrow> string \<times> uint32" where
  "nextID idCounter = (let n = idCounter + 1 in (dec_nat (unat n), n))"

text \<open>
  The parameters, if there are any, are encoded by \<open>json.Marshal\<close>, which may fail (\<open>Inl\<close>). The
  counter has advanced even then.
\<close>

definition newMessage ::
  "string \<Rightarrow> (rpc_error + string) option \<Rightarrow> uint32 \<Rightarrow> (rpc_error + jsonrpcMessage) \<times> uint32" where
  "newMessage method paramsIn idCounter =
     (let (i, n) = nextID idCounter;
          msg = zero_message\<lparr>Version := vsn, ID := Some i, Method := method\<rparr> in
      case paramsIn of
        None \<Rightarrow> (Inr msg, n)
      | Some (Inl err) \<Rightarrow> (Inl err, n)
      | Some (Inr enc) \<Rightarrow> (Inr (msg\<lparr>Params := Some enc\<rparr>), n))"

section \<open>The dispatch loop\<close>

text \<open>
  The variables of the loop. \<open>c_locked\<close> says that \<open>reqInitLock\<close> is nil, \<open>c_procs\<close> are the call
  processes of the current handler.
\<close>

record ('f, 'g) client =
  c_handler :: "('f, jsonCodec, 'g) handler"
  c_procs :: "callProc list"
  c_lastOp :: "nat option"
  c_locked :: bool
  c_reading :: bool
  c_running :: bool
  c_closing :: bool
  c_didClose :: bool

definition initClient ::
  "jsonCodec \<Rightarrow> 'g \<Rightarrow> 'f serviceRegistry \<Rightarrow> (nat \<Rightarrow> requestOp) \<Rightarrow> (nat \<Rightarrow> client_sub) \<Rightarrow> ('f, 'g) client" where
  "initClient codec g services os cs =
     \<lparr>c_handler = newHandler codec g services os cs, c_procs = [], c_lastOp = None, c_locked = False,
      c_reading = True, c_running = True, c_closing = False, c_didClose = False\<rparr>"

definition errClientReconnected :: rpc_error where "errClientReconnected = PlainError ''client reconnected''"
definition errDead :: rpc_error where "errDead = PlainError ''connection lost''"
definition ErrNoResult :: rpc_error where "ErrNoResult = PlainError ''no result in JSON-RPC response''"

text \<open>
  \<open>clientConn.close\<close>: the handler's \<open>close\<close> waits for the call processes, so the step is blocked
  until all of them have finished.
\<close>

definition conn_close :: "rpc_error \<Rightarrow> nat option \<Rightarrow> ('f, 'g) client \<Rightarrow> ('f, 'g) client chan_step" where
  "conn_close err inflightReq c =
     (if \<forall>p \<in> set (c_procs c). cp_phase p = Finished then
        step_bind (handler_close err inflightReq (c_handler c)) (\<lambda>h.
          Proceed (c\<lparr>c_handler := h\<lparr>h_conn := codec_close (h_conn h)\<rparr>\<rparr>))
      else Blocked)"

datatype dispatch_event =
    EvClose
  | EvReadOp "nat \<Rightarrow> bool" "jsonrpcMessage list" bool
  | EvReadErr rpc_error
  | EvReconnected jsonCodec
  | EvReqInit nat
  | EvReqSent "rpc_error option"
  | EvReqTimeout nat

text \<open>
  One iteration of the loop for the chosen case; the case of \<open>reqInit\<close> cannot be chosen while the
  lock is held. \<open>drainRead\<close> drops what the old read loop still had to say, so nothing of it is left
  in the state.
\<close>

definition add_proc :: "callProc option \<Rightarrow> ('f, jsonCodec, 'g) handler \<Rightarrow> ('f, 'g) client \<Rightarrow> ('f, 'g) client" where
  "add_proc po h c = c\<lparr>c_handler := h, c_procs := c_procs c @ (case po of None \<Rightarrow> [] | Some p \<Rightarrow> [p])\<rparr>"

definition dispatch :: "dispatch_event \<Rightarrow> ('f, 'g) client \<Rightarrow> ('f, 'g) client chan_step" where
  "dispatch ev c =
     (case ev of
        EvClose \<Rightarrow>
          let c = c\<lparr>c_running := False, c_closing := True\<rparr> in
          step_bind (if c_reading c then conn_close ErrClientQuit None c else Proceed c) (\<lambda>c.
            Proceed (c\<lparr>c_didClose := True\<rparr>))
      | EvReadOp pick msgs batch \<Rightarrow>
          (if batch then
             step_bind (handleBatch pick msgs (c_handler c)) (\<lambda>(po, h). Proceed (add_proc po h c))
           else
             (case msgs of
                [] \<Rightarrow> Panicked IndexOutOfRange
              | msg # _ \<Rightarrow> step_bind (handleMsg (pick 0) msg (c_handler c)) (\<lambda>(po, h). Proceed (add_proc po h c))))
      | EvReadErr err \<Rightarrow>
          step_bind (conn_close err (c_lastOp c) c) (\<lambda>c. Proceed (c\<lparr>c_reading := False\<rparr>))
      | EvReconnected newcodec \<Rightarrow>
          step_bind (if c_reading c then conn_close errClientReconnected (c_lastOp c) c else Proceed c) (\<lambda>c.
            let h = c_handler c;
                h = newHandler newcodec (h_idgen h) (h_reg h) (ops h) (csubs h) in
            case c_lastOp c of
              None \<Rightarrow> Panicked NilDereference
            | Some a \<Rightarrow> Proceed (c\<lparr>c_reading := True, c_handler := addRequestOp a h, c_procs := []\<rparr>))
      | EvReqInit a \<Rightarrow>
          if c_locked c then Blocked
          else Proceed (c\<lparr>c_locked := True, c_lastOp := Some a, c_handler := addRequestOp a (c_handler c)\<rparr>)
      | EvReqSent err \<Rightarrow>
          (case (err, c_lastOp c) of
             (Some _, None) \<Rightarrow> Panicked NilDereference
           | (Some _, Some a) \<Rightarrow>
               Proceed (c\<lparr>c_handler := removeRequestOp a (c_handler c), c_locked := False, c_lastOp := None\<rparr>)
           | (None, _) \<Rightarrow> Proceed (c\<lparr>c_locked := False, c_lastOp := None\<rparr>))
      | EvReqTimeout a \<Rightarrow> Proceed (c\<lparr>c_handler := removeRequestOp a (c_handler c)\<rparr>))"

section \<open>The read loop\<close>

text \<open>What one reading of the codec leads to: possibly an error message, and an event for dispatch.\<close>

definition read_error_rpc :: "read_error \<Rightarrow> rpc_error" where
  "read_error_rpc e = (case e of SyntaxError s \<Rightarrow> PlainError s | EOF \<Rightarrow> PlainError ''EOF'' | OtherReadError s \<Rightarrow> PlainError s)"

definition client_read ::
  "(nat \<Rightarrow> bool) \<Rightarrow> read_error + string \<Rightarrow> jsonrpcMessage list \<times> dispatch_event" where
  "client_read pick decoded =
     (case readBatch decoded of
        Inl err \<Rightarrow>
          ((case err of SyntaxError s \<Rightarrow> [errorMessage (ParseError s)] | _ \<Rightarrow> []), EvReadErr (read_error_rpc err))
      | Inr (msgs, batch) \<Rightarrow> ([], EvReadOp pick msgs batch))"

section \<open>Writing\<close>

text \<open>
  The connection the callers write on. \<open>connect\<close> is the reconnect function, if the client has one:
  the outcome of its n-th use. \<open>accepted\<close> says whether the dispatch loop takes the new connection
  (or has quit).
\<close>

record 'c writer =
  writeConn :: "'c option"
  dials :: nat
  reconnected :: "'c list"

definition reconnect ::
  "(nat \<Rightarrow> rpc_error + 'c) option \<Rightarrow> (nat \<Rightarrow> bool) \<Rightarrow> 'c writer \<Rightarrow> rpc_error option \<times> 'c writer" where
  "reconnect connect accepted w =
     (case connect of
        None \<Rightarrow> (Some errDead, w)
      | Some dial \<Rightarrow>
          let w' = w\<lparr>dials := Suc (dials w)\<rparr> in
          case dial (dials w) of
            Inl err \<Rightarrow> (Some err, w')
          | Inr newconn \<Rightarrow>
              if accepted (dials w) then (None, w'\<lparr>writeConn := Some newconn, reconnected := reconnected w @ [newconn]\<rparr>)
              else (Some ErrClientQuit, w'))"

text \<open>\<open>write\<close>: the recursion of the source is at most one deep, \<open>retry\<close> says which call it is.\<close>

function client_write ::
  "(wire \<Rightarrow> 'c \<Rightarrow> rpc_error option \<times> 'c) \<Rightarrow> (nat \<Rightarrow> rpc_error + 'c) option \<Rightarrow> (nat \<Rightarrow> bool)
     \<Rightarrow> wire \<Rightarrow> bool \<Rightarrow> 'c writer \<Rightarrow> rpc_error option \<times> 'c writer" where
  "client_write wr connect accepted msg retry w =
     (case (if writeConn w = None then reconnect connect accepted w else (None, w)) of
        (Some err, w) \<Rightarrow> (Some err, w)
      | (None, w) \<Rightarrow>
          (case wr msg (the (writeConn w)) of
             (None, c) \<Rightarrow> (None, w\<lparr>writeConn := Some c\<rparr>)
           | (Some err, c) \<Rightarrow>
               let w = w\<lparr>writeConn := None\<rparr> in
               if \<not> retry then client_write wr connect accepted msg True w else (Some err, w)))"
  by pat_completeness auto
termination
  by (relation "measure (\<lambda>(_, _, _, _, retry, _). if retry then 0 else 1)") simp_all

declare client_write.simps [simp del]

section \<open>The callers\<close>

text \<open>
  What \<open>wait\<close> returns once a value is received from the request's channel: the response (nil from a
  closed channel) and the request's error.
\<close>

definition op_wait :: "requestOp \<Rightarrow> ((jsonrpcMessage option \<times> rpc_error option) \<times> requestOp) chan_step" where
  "op_wait op = step_bind (chan_recv (op_resp op)) (\<lambda>(r, ch). Proceed ((r, op_err op), op\<lparr>op_resp := ch\<rparr>))"

text \<open>The switch at the end of \<open>CallContext\<close>; \<open>unmarshal\<close> decodes into the caller's result.\<close>

definition call_finish ::
  "(string \<Rightarrow> rpc_error option) \<Rightarrow> jsonrpcMessage option \<times> rpc_error option \<Rightarrow> rpc_error option outcome" where
  "call_finish unmarshal r =
     (case r of
        (_, Some err) \<Rightarrow> Return (Some err)
      | (None, None) \<Rightarrow> Panic NilDereference
      | (Some resp, None) \<Rightarrow>
          (case Err resp of
             Some e \<Rightarrow> Return (Some (JsonError e))
           | None \<Rightarrow>
               if raw_bytes (Result resp) = [] then Return (Some ErrNoResult)
               else Return (unmarshal (raw_bytes (Result resp)))))"

text \<open>
  The loop of \<open>BatchCallContext\<close> over the received responses. An element is its error and the raw
  value unmarshalled into its result; \<open>unmarshal k\<close> decodes for element \<open>k\<close>. A response whose ID is
  none of the batch leaves \<open>elem\<close> nil, and its use panics.
\<close>

record batch_elem =
  be_error :: "rpc_error option"
  be_result :: "string option"

fun find_index :: "('a \<Rightarrow> bool) \<Rightarrow> 'a list \<Rightarrow> nat option" where
  "find_index P [] = None"
| "find_index P (x # xs) = (if P x then Some 0 else map_option Suc (find_index P xs))"

definition batch_set ::
  "(nat \<Rightarrow> string \<Rightarrow> rpc_error option) \<Rightarrow> nat \<Rightarrow> jsonrpcMessage \<Rightarrow> batch_elem \<Rightarrow> batch_elem" where
  "batch_set unmarshal k resp e =
     (case Err resp of
        Some err \<Rightarrow> e\<lparr>be_error := Some (JsonError err)\<rparr>
      | None \<Rightarrow>
          if raw_bytes (Result resp) = [] then e\<lparr>be_error := Some ErrNoResult\<rparr>
          else e\<lparr>be_error := unmarshal k (raw_bytes (Result resp)), be_result := Some (raw_bytes (Result resp))\<rparr>)"

fun batch_loop ::
  "(nat \<Rightarrow> string \<Rightarrow> rpc_error option) \<Rightarrow> string list \<Rightarrow> (jsonrpcMessage option \<times> rpc_error option) list \<Rightarrow> batch_elem list
     \<Rightarrow> (rpc_error option \<times> batch_elem list) outcome" where
  "batch_loop unmarshal ids [] b = Return (None, b)"
| "batch_loop unmarshal ids ((_, Some err) # rs) b = Return (Some err, b)"
| "batch_loop unmarshal ids ((None, None) # rs) b = Panic NilDereference"
| "batch_loop unmarshal ids ((Some resp, None) # rs) b =
     (case find_index (\<lambda>i. i = raw_bytes (ID resp)) ids of
        None \<Rightarrow> Panic NilDereference
      | Some k \<Rightarrow> batch_loop unmarshal ids rs (b[k := batch_set unmarshal k resp (b ! k)]))"

text \<open>The request of a single call, of a batch, of a subscription and of a notification.\<close>

definition call_op :: "string \<Rightarrow> requestOp" where
  "call_op i = \<lparr>op_ids = [i], op_err = None, op_resp = make_chan 1, op_sub = None\<rparr>"

definition batch_op :: "string list \<Rightarrow> requestOp" where
  "batch_op reqids = \<lparr>op_ids = reqids, op_err = None, op_resp = make_chan (length reqids), op_sub = None\<rparr>"

definition subscribe_op :: "string \<Rightarrow> nat \<Rightarrow> requestOp" where
  "subscribe_op i s = \<lparr>op_ids = [i], op_err = None, op_resp = make_chan 0, op_sub = Some s\<rparr>"

definition notify_op :: requestOp where
  "notify_op = \<lparr>op_ids = [], op_err = None, op_resp = make_chan 0, op_sub = None\<rparr>"

text \<open>
  The calls themselves. What registers the request and writes it (\<open>send\<close>) and what waits for the
  response are arguments; \<open>wait\<close> gives a response and an error, the context's when that is done first.
\<close>

datatype send_choice = Accepted | CtxDone rpc_error | Closing

text \<open>\<open>send\<close>: which case of its \<open>select\<close> fires, and the outcome of the write.\<close>

definition client_send :: "send_choice \<Rightarrow> rpc_error option \<Rightarrow> nat \<Rightarrow> dispatch_event list \<times> rpc_error option" where
  "client_send choice written_err a =
     (case choice of
        Accepted \<Rightarrow> ([EvReqInit a, EvReqSent written_err], written_err)
      | CtxDone err \<Rightarrow> ([], Some err)
      | Closing \<Rightarrow> ([], Some ErrClientQuit))"

definition CallContext ::
  "bool \<Rightarrow> string \<Rightarrow> string \<Rightarrow> (rpc_error + string) option \<Rightarrow> (requestOp \<Rightarrow> wire \<Rightarrow> rpc_error option)
     \<Rightarrow> jsonrpcMessage option \<times> rpc_error option \<Rightarrow> (string \<Rightarrow> rpc_error option) \<Rightarrow> uint32
     \<Rightarrow> rpc_error option outcome \<times> uint32" where
  "CallContext ptr_or_nil shown method params send wait unmarshal idCounter =
     (if \<not> ptr_or_nil then
        (Return (Some (PlainError (''call result parameter must be pointer or nil interface: '' @ shown))), idCounter)
      else
        (case newMessage method params idCounter of
           (Inl err, n) \<Rightarrow> (Return (Some err), n)
         | (Inr msg, n) \<Rightarrow>
             (case send (call_op (raw_bytes (ID msg))) (WMsg msg) of
                Some err \<Rightarrow> (Return (Some err), n)
              | None \<Rightarrow> (call_finish unmarshal wait, n))))"

fun new_messages ::
  "(string \<times> (rpc_error + string) option) list \<Rightarrow> uint32 \<Rightarrow> (rpc_error + jsonrpcMessage list) \<times> uint32" where
  "new_messages [] n = (Inr [], n)"
| "new_messages ((method, params) # b) n =
     (case newMessage method params n of
        (Inl err, n) \<Rightarrow> (Inl err, n)
      | (Inr msg, n) \<Rightarrow>
          (case new_messages b n of
             (Inl err, n) \<Rightarrow> (Inl err, n)
           | (Inr msgs, n) \<Rightarrow> (Inr (msg # msgs), n)))"

definition BatchCallContext ::
  "(string \<times> (rpc_error + string) option) list \<Rightarrow> (requestOp \<Rightarrow> wire \<Rightarrow> rpc_error option)
     \<Rightarrow> (nat \<Rightarrow> jsonrpcMessage option \<times> rpc_error option) \<Rightarrow> (nat \<Rightarrow> string \<Rightarrow> rpc_error option) \<Rightarrow> batch_elem list
     \<Rightarrow> uint32 \<Rightarrow> (rpc_error option \<times> batch_elem list) outcome \<times> uint32" where
  "BatchCallContext reqs send wait unmarshal b idCounter =
     (case new_messages reqs idCounter of
        (Inl err, n) \<Rightarrow> (Return (Some err, b), n)
      | (Inr msgs, n) \<Rightarrow>
          let ids = map (\<lambda>m. raw_bytes (ID m)) msgs in
          (case send (batch_op ids) (WBatch msgs) of
             Some err \<Rightarrow> (Return (Some err, b), n)
           | None \<Rightarrow> (batch_loop unmarshal ids (map wait [0..<length reqs]) b, n)))"

text \<open>\<open>Notify\<close> of the client sends a message without an ID.\<close>

definition client_Notify ::
  "string \<Rightarrow> (rpc_error + string) option \<Rightarrow> (requestOp \<Rightarrow> wire \<Rightarrow> rpc_error option) \<Rightarrow> uint32 \<Rightarrow> rpc_error option \<times> uint32" where
  "client_Notify method params send idCounter =
     (case newMessage method params idCounter of
        (Inl err, n) \<Rightarrow> (Some err, n)
      | (Inr msg, n) \<Rightarrow> (send notify_op (WMsg (msg\<lparr>ID := None\<rparr>)), n))"

text \<open>
  \<open>Subscribe\<close>, with the address of the new subscription; \<open>chan_ok\<close> says that the channel argument is a
  writable channel, \<open>chan_nil\<close> that it is nil. The client is never an HTTP client.
\<close>

definition Subscribe ::
  "bool \<Rightarrow> bool \<Rightarrow> string \<Rightarrow> (rpc_error + string) option \<Rightarrow> nat \<Rightarrow> (requestOp \<Rightarrow> wire \<Rightarrow> rpc_error option)
     \<Rightarrow> jsonrpcMessage option \<times> rpc_error option \<Rightarrow> uint32 \<Rightarrow> (rpc_error + nat) outcome \<times> uint32" where
  "Subscribe chan_ok chan_nil ns params s send wait idCounter =
     (if \<not> chan_ok then (Panic (UserPanic ''first argument to Subscribe must be a writable channel''), idCounter)
      else if chan_nil then (Panic (UserPanic ''channel given to Subscribe must not be nil''), idCounter)
      else
        (case newMessage (ns @ subscribeMethodSuffix) params idCounter of
           (Inl err, n) \<Rightarrow> (Return (Inl err), n)
         | (Inr msg, n) \<Rightarrow>
             (case send (subscribe_op (raw_bytes (ID msg)) s) (WMsg msg) of
                Some err \<Rightarrow> (Return (Inl err), n)
              | None \<Rightarrow> (case snd wait of Some err \<Rightarrow> (Return (Inl err), n) | None \<Rightarrow> (Return (Inr s), n)))))"

text \<open>Wrappers of the calls: with the background context, and under a fixed namespace or name.\<close>

definition Call ::
  "bool \<Rightarrow> string \<Rightarrow> string \<Rightarrow> (rpc_error + string) option \<Rightarrow> (requestOp \<Rightarrow> wire \<Rightarrow> rpc_error option)
     \<Rightarrow> jsonrpcMessage option \<times> rpc_error option \<Rightarrow> (string \<Rightarrow> rpc_error option) \<Rightarrow> uint32
     \<Rightarrow> rpc_error option outcome \<times> uint32" where
  "Call ptr_or_nil shown mth params send wait unmarshal idCounter =
     CallContext ptr_or_nil shown mth params send wait unmarshal idCounter"

definition BatchCall ::
  "(string \<times> (rpc_error + string) option) list \<Rightarrow> (requestOp \<Rightarrow> wire \<Rightarrow> rpc_error option)
     \<Rightarrow> (nat \<Rightarrow> jsonrpcMessage option \<times> rpc_error option) \<Rightarrow> (nat \<Rightarrow> string \<Rightarrow> rpc_error option) \<Rightarrow> batch_elem list
     \<Rightarrow> uint32 \<Rightarrow> (rpc_error option \<times> batch_elem list) outcome \<times> uint32" where
  "BatchCall reqs send wait unmarshal b idCounter = BatchCallContext reqs send wait unmarshal b idCounter"

definition SupportedModules ::
  "(requestOp \<Rightarrow> wire \<Rightarrow> rpc_error option) \<Rightarrow> jsonrpcMessage option \<times> rpc_error option \<Rightarrow> (string \<Rightarrow> rpc_error option) \<Rightarrow> uint32
     \<Rightarrow> rpc_error option outcome \<times> uint32" where
  "SupportedModules send wait unmarshal idCounter = CallContext True [] ''rpc_modules'' None send wait unmarshal idCounter"

definition EthSubscribe ::
  "bool \<Rightarrow> bool \<Rightarrow> (rpc_error + string) option \<Rightarrow> nat \<Rightarrow> (requestOp \<Rightarrow> wire \<Rightarrow> rpc_error option)
     \<Rightarrow> jsonrpcMessage option \<times> rpc_error option \<Rightarrow> uint32 \<Rightarrow> (rpc_error + nat) outcome \<times> uint32" where
  "EthSubscribe chan_ok chan_nil = Subscribe chan_ok chan_nil ''eth''"

definition ShhSubscribe ::
  "bool \<Rightarrow> bool \<Rightarrow> (rpc_error + string) option \<Rightarrow> nat \<Rightarrow> (requestOp \<Rightarrow> wire \<Rightarrow> rpc_error option)
     \<Rightarrow> jsonrpcMessage option \<times> rpc_error option \<Rightarrow> uint32 \<Rightarrow> (rpc_error + nat) outcome \<times> uint32" where
  "ShhSubscribe chan_ok chan_nil = Subscribe chan_ok chan_nil ''shh''"

section \<open>Opening and closing\<close>

text \<open>The scheme of a URL as \<open>url.Parse\<close> finds it; \<open>None\<close> is the error for an empty scheme before a colon.\<close>

fun scheme_chars :: "string \<Rightarrow> string \<Rightarrow> string option" where
  "scheme_chars [] seen = Some []"
| "scheme_chars (c # s) seen =
     (let k = char_code c in
      if 97 \<le> k \<and> k \<le> 122 \<or> 65 \<le> k \<and> k \<le> 90 then scheme_chars s (seen @ [c])
      else if 48 \<le> k \<and> k \<le> 57 \<or> c = CHR ''+'' \<or> c = CHR ''-'' \<or> c = CHR ''.'' then
        (if seen = [] then Some [] else scheme_chars s (seen @ [c]))
      else if c = CHR '':'' then (if seen = [] then None else Some seen)
      else Some [])"

text \<open>The parser lowers the case of the scheme.\<close>

definition lower_char :: "char \<Rightarrow> char" where
  "lower_char c = (if 65 \<le> char_code c \<and> char_code c \<le> 90 then char_of (char_code c + 32) else c)"

definition getScheme :: "string \<Rightarrow> string option" where
  "getScheme rawurl = map_option (map lower_char) (scheme_chars rawurl [])"

definition newClient ::
  "rpc_error + jsonCodec \<Rightarrow> 'g \<Rightarrow> (nat \<Rightarrow> requestOp) \<Rightarrow> (nat \<Rightarrow> client_sub) \<Rightarrow> rpc_error + ('f, 'g) client" where
  "newClient connect g os cs =
     (case connect of Inl err \<Rightarrow> Inl err | Inr conn \<Rightarrow> Inr (initClient conn g Map.empty os cs))"

text \<open>
  \<open>invalid\<close> gives the error of \<open>url.Parse\<close> for what follows the scheme, and \<open>newIPCConnection\<close> connects to the socket.
  Texts of errors quote as JSON does, which agrees with \<open>%q\<close> on the characters of a scheme.
\<close>

definition DialIPC ::
  "(string \<Rightarrow> rpc_error + jsonCodec) \<Rightarrow> string \<Rightarrow> 'g \<Rightarrow> (nat \<Rightarrow> requestOp) \<Rightarrow> (nat \<Rightarrow> client_sub) \<Rightarrow> rpc_error + ('f, 'g) client" where
  "DialIPC newIPCConnection endpt g os cs = newClient (newIPCConnection endpt) g os cs"

definition DialContext ::
  "(string \<Rightarrow> rpc_error option) \<Rightarrow> (string \<Rightarrow> rpc_error + jsonCodec) \<Rightarrow> string \<Rightarrow> 'g \<Rightarrow> (nat \<Rightarrow> requestOp) \<Rightarrow> (nat \<Rightarrow> client_sub)
     \<Rightarrow> rpc_error + ('f, 'g) client" where
  "DialContext invalid newIPCConnection rawurl g os cs =
     (case getScheme rawurl of
        None \<Rightarrow> Inl (PlainError (''parse '' @ json_quote rawurl @ '': missing protocol scheme''))
      | Some scheme \<Rightarrow>
          (case invalid rawurl of
             Some err \<Rightarrow> Inl err
           | None \<Rightarrow>
               if scheme = [] then DialIPC newIPCConnection rawurl g os cs
               else Inl (PlainError (''no known transport for URL scheme '' @ json_quote scheme))))"

text \<open>\<open>RegisterName\<close> of the client: its handler and the next ones share the registry.\<close>

definition client_RegisterName ::
  "string \<Rightarrow> string \<Rightarrow> 'f gomethod list \<Rightarrow> ('f, 'g) client \<Rightarrow> rpc_error option \<times> ('f, 'g) client" where
  "client_RegisterName nam typeName ms c =
     (case registerName (h_reg (c_handler c)) nam typeName ms of
        (err, r) \<Rightarrow> (err, c\<lparr>c_handler := (c_handler c)\<lparr>h_reg := r\<rparr>\<rparr>))"

text \<open>\<open>Close\<close> hands the dispatch loop the request to end and waits for it, unless it has ended.\<close>

definition client_Close :: "('f, 'g) client \<Rightarrow> ('f, 'g) client chan_step" where
  "client_Close c =
     (if c_didClose c then Proceed c else if c_running c then dispatch EvClose c else Blocked)"

text \<open>What the dispatch loop drops of the events of an old read loop, and what is left after its error.\<close>

fun drainRead :: "dispatch_event list \<Rightarrow> dispatch_event list chan_step" where
  "drainRead [] = Blocked"
| "drainRead (EvReadErr err # evs) = Proceed evs"
| "drainRead (EvReadOp pick msgs batch # evs) = drainRead evs"
| "drainRead (ev # evs) = (case drainRead evs of Proceed r \<Rightarrow> Proceed (ev # r) | Blocked \<Rightarrow> Blocked | Panicked p \<Rightarrow> Panicked p)"

lemma getScheme_path: "getScheme (CHR ''/'' # p) = Some []"
  by (simp add: getScheme_def char_code_def)

lemma DialContext_path:
  assumes "invalid (CHR ''/'' # p) = None"
  shows "DialContext invalid conn (CHR ''/'' # p) g os cs = newClient (conn (CHR ''/'' # p)) g os cs"
  by (simp add: DialContext_def getScheme_path assms DialIPC_def)

text \<open>Closing a client twice is closing it once.\<close>

lemma client_Close_twice:
  assumes "client_Close c = Proceed c'"
  shows "c_didClose c' \<and> client_Close c' = Proceed c'"
  using assms
  by (auto simp: client_Close_def dispatch_def Let_def step_bind_def split: if_splits chan_step.splits)

lemma drainRead_error: "drainRead (map (\<lambda>(pick, msgs, b). EvReadOp pick msgs b) rs @ EvReadErr err # evs) = Proceed evs"
  by (induction rs) auto

section \<open>Identifiers\<close>

lemma newMessage_ok:
  assumes "newMessage method params n = (Inr msg, n')"
  shows "n' = n + 1" "ID msg = Some (dec_nat (unat (n + 1)))" "Method msg = method" "Version msg = vsn"
  using assms by (auto simp: newMessage_def nextID_def Let_def zero_message_def split: option.splits sum.splits)

lemma new_messages_ids:
  assumes "new_messages reqs n = (Inr msgs, n')"
  shows "map (\<lambda>m. raw_bytes (ID m)) msgs = map (\<lambda>k. dec_nat (unat (n + 1 + of_nat k))) [0..<length reqs]"
    and "length msgs = length reqs"
proof -
  have "map (\<lambda>m. raw_bytes (ID m)) msgs = map (\<lambda>k. dec_nat (unat (n + 1 + of_nat k))) [0..<length reqs]
    \<and> length msgs = length reqs"
    using assms
  proof (induction reqs n arbitrary: msgs rule: new_messages.induct)
    case (2 mth prms b n)
    then obtain msg ms where m: "newMessage mth prms n = (Inr msg, n + 1)" "new_messages b (n + 1) = (Inr ms, n')"
      "msgs = msg # ms"
      by (auto split: prod.splits sum.splits dest: newMessage_ok)
    have IH: "map (\<lambda>m. raw_bytes (ID m)) ms = map (\<lambda>k. dec_nat (unat (n + 1 + 1 + of_nat k))) [0..<length b]"
      "length ms = length b"
      using 2(1) [OF m(1) [symmetric] refl m(2)] by auto
    have up: "[0..<Suc (length b)] = 0 # map Suc [0..<length b]" by (simp add: upt_conv_Cons map_Suc_upt del: upt_Suc)
    show ?case
      using newMessage_ok [OF m(1)] IH by (simp add: m(3) up raw_bytes_def o_def add.assoc del: upt_Suc)
  qed simp
  then show "map (\<lambda>m. raw_bytes (ID m)) msgs = map (\<lambda>k. dec_nat (unat (n + 1 + of_nat k))) [0..<length reqs]"
    and "length msgs = length reqs" by blast+
qed

lemma unat_add_inj:
  assumes "i < 2 ^ 32" and "j < 2 ^ 32" and "unat (x + of_nat i :: uint32) = unat (x + of_nat j)"
  shows "i = j"
proof -
  have "x + of_nat i = (x + of_nat j :: uint32)" using assms(3) by (simp add: word_unat_eq_iff)
  then have "(of_nat i :: uint32) = of_nat j" by simp
  then show ?thesis using assms(1,2) by (simp add: word_of_nat_eq_iff take_bit_nat_eq_self)
qed

lemma distinct_new_ids:
  assumes "length reqs \<le> 2 ^ 32"
  shows "distinct (map (\<lambda>k. dec_nat (unat (n + 1 + of_nat k :: uint32))) [0..<length reqs])"
  unfolding distinct_map
proof (intro conjI inj_onI)
  fix i j assume ij: "i \<in> set [0..<length reqs]" "j \<in> set [0..<length reqs]"
    and eq: "dec_nat (unat (n + 1 + of_nat i :: uint32)) = dec_nat (unat (n + 1 + of_nat j :: uint32))"
  from eq have "unat (n + 1 + of_nat i :: uint32) = unat (n + 1 + of_nat j :: uint32)" by (simp only: dec_nat_inj)
  moreover have "i < 2 ^ 32" "j < 2 ^ 32" using ij assms by auto
  ultimately show "i = j" using unat_add_inj by blast
qed simp

section \<open>Batches\<close>

lemma find_index_distinct:
  "distinct xs \<Longrightarrow> k < length xs \<Longrightarrow> find_index (\<lambda>i. i = xs ! k) xs = Some k"
proof (induction xs arbitrary: k)
  case (Cons x xs)
  then show ?case by (cases k) auto
qed simp

lemma batch_loop_matches:
  assumes "distinct ids" and "length b = length ids" and "distinct (map (\<lambda>r. raw_bytes (ID r)) rs)"
    and "(\<lambda>r. raw_bytes (ID r)) ` set rs \<subseteq> set ids"
  shows "\<exists>b'. batch_loop um ids (map (\<lambda>r. (Some r, None)) rs) b = Return (None, b') \<and> length b' = length b
    \<and> (\<forall>k < length ids. (\<forall>r \<in> set rs. raw_bytes (ID r) = ids ! k \<longrightarrow> b' ! k = batch_set um k r (b ! k))
         \<and> (ids ! k \<notin> (\<lambda>r. raw_bytes (ID r)) ` set rs \<longrightarrow> b' ! k = b ! k))"
  using assms(2-4)
proof (induction rs arbitrary: b)
  case (Cons r rs)
  obtain j where j: "j < length ids" "raw_bytes (ID r) = ids ! j"
    using Cons.prems(3) by (auto simp: in_set_conv_nth)
  then have f: "find_index (\<lambda>i. i = raw_bytes (ID r)) ids = Some j"
    using find_index_distinct [OF assms(1)] by simp
  let ?b = "b[j := batch_set um j r (b ! j)]"
  have notin: "ids ! j \<notin> (\<lambda>r. raw_bytes (ID r)) ` set rs" using Cons.prems(2) j by auto
  from Cons.IH [of ?b] Cons.prems obtain b' where
    b': "batch_loop um ids (map (\<lambda>r. (Some r, None)) rs) ?b = Return (None, b')" "length b' = length b"
    "\<forall>k < length ids. (\<forall>r \<in> set rs. raw_bytes (ID r) = ids ! k \<longrightarrow> b' ! k = batch_set um k r (?b ! k))
         \<and> (ids ! k \<notin> (\<lambda>r. raw_bytes (ID r)) ` set rs \<longrightarrow> b' ! k = ?b ! k)" by auto
  have "(\<forall>q \<in> set (r # rs). raw_bytes (ID q) = ids ! k \<longrightarrow> b' ! k = batch_set um k q (b ! k))
      \<and> (ids ! k \<notin> (\<lambda>r. raw_bytes (ID r)) ` set (r # rs) \<longrightarrow> b' ! k = b ! k)" if k: "k < length ids" for k
  proof (cases "k = j")
    case True
    then have "b' ! k = batch_set um k r (b ! k)" using b'(3) k notin Cons.prems(1) by simp
    moreover have "\<forall>q \<in> set rs. raw_bytes (ID q) \<noteq> ids ! k" using notin True by (metis image_eqI)
    ultimately show ?thesis using j True by auto
  next
    case False
    then have "raw_bytes (ID r) \<noteq> ids ! k" using j k assms(1) by (simp add: nth_eq_iff_index_eq)
    with b'(3) k False show ?thesis by auto
  qed
  with b'(1,2) f show ?case by auto
qed simp

text \<open>
  C4. Batch calls put every response where it belongs: with a batch of at most \<open>2^32\<close> elements whose
  messages could be built and sent, and responses that come back in any order, one per request, the
  call returns without an error or panic, and element \<open>k\<close> holds exactly the outcome of the response
  that carries the ID of request \<open>k\<close>.
\<close>

theorem BatchCallContext_matches:
  assumes "length reqs \<le> 2 ^ 32" and "length b = length reqs"
    and "new_messages reqs n = (Inr msgs, n')" and "send (batch_op (map (\<lambda>m. raw_bytes (ID m)) msgs)) (WBatch msgs) = None"
    and "length rs = length reqs" and "\<forall>i < length reqs. wait i = (Some (rs ! i), None)"
    and "set (map ID rs) = set (map ID msgs)"
  shows "\<exists>b'. BatchCallContext reqs send wait um b n = (Return (None, b'), n')
    \<and> (\<forall>k < length reqs. \<exists>r \<in> set rs. ID r = ID (msgs ! k) \<and> b' ! k = batch_set um k r (b ! k))"
proof -
  let ?ids = "map (\<lambda>m. raw_bytes (ID m)) msgs"
  have ids: "?ids = map (\<lambda>k. dec_nat (unat (n + 1 + of_nat k))) [0..<length reqs]" and len: "length msgs = length reqs"
    using new_messages_ids [OF assms(3)] by auto
  have dist: "distinct ?ids" unfolding ids by (rule distinct_new_ids [OF assms(1)])
  have set_eq: "set (map (\<lambda>r. raw_bytes (ID r)) rs) = set ?ids"
  proof -
    have "raw_bytes ` set (map ID rs) = raw_bytes ` set (map ID msgs)" by (simp only: assms(7))
    then show ?thesis by (simp add: image_image)
  qed
  have "distinct (map (\<lambda>r. raw_bytes (ID r)) rs)"
    by (rule card_distinct) (use dist set_eq distinct_card [OF dist] len assms(5) in simp)
  with batch_loop_matches [OF dist, of b rs um] assms(2) len set_eq obtain b' where
    b': "batch_loop um ?ids (map (\<lambda>r. (Some r, None)) rs) b = Return (None, b')"
    "\<forall>k < length reqs. \<forall>r \<in> set rs. raw_bytes (ID r) = ?ids ! k \<longrightarrow> b' ! k = batch_set um k r (b ! k)"
    by auto
  have waits: "map wait [0..<length reqs] = map (\<lambda>r. (Some r, None)) rs"
    by (rule nth_equalityI) (use assms(5,6) in simp_all)
  have "\<exists>r \<in> set rs. ID r = ID (msgs ! k) \<and> b' ! k = batch_set um k r (b ! k)" if k: "k < length reqs" for k
  proof -
    have "ID (msgs ! k) \<in> set (map ID rs)" unfolding assms(7) using k len by simp
    then obtain r where r: "r \<in> set rs" "ID r = ID (msgs ! k)" by auto
    then have "raw_bytes (ID r) = ?ids ! k" using k len by simp
    with r b'(2) k show ?thesis by blast
  qed
  moreover have "BatchCallContext reqs send wait um b n = (Return (None, b'), n')"
    using assms(3,4) b'(1) waits by (simp add: BatchCallContext_def Let_def)
  ultimately show ?thesis by blast
qed

theorem BatchCallContext_matches_witness:
  "\<exists>b'. BatchCallContext [(''a'', None), (''b'', None)] (\<lambda>_ _. None)
       (\<lambda>i. (Some (zero_message\<lparr>ID := Some (if i = 0 then ''2'' else ''1''), Result := Some (if i = 0 then ''20'' else ''10'')\<rparr>), None))
       (\<lambda>_ _. None) [\<lparr>be_error = None, be_result = None\<rparr>, \<lparr>be_error = None, be_result = None\<rparr>] 0
     = (Return (None, b'), 2) \<and> be_result (b' ! 0) = Some ''10'' \<and> be_result (b' ! 1) = Some ''20''"
proof -
  let ?r = "\<lambda>i :: nat. zero_message\<lparr>ID := Some (if i = 0 then ''2'' else ''1''), Result := Some (if i = 0 then ''20'' else ''10'')\<rparr>"
  let ?m = "\<lambda>i x. zero_message\<lparr>Version := vsn, ID := Some i, Method := x\<rparr>"
  let ?b = "[\<lparr>be_error = None, be_result = None\<rparr>, \<lparr>be_error = None, be_result = None\<rparr>]"
  have "dec_nat (unat (1 :: uint32)) = ''1''" "dec_nat (unat (2 :: uint32)) = ''2''" by code_simp+
  then have m: "new_messages [(''a'', None), (''b'', None)] 0 = (Inr [?m ''1'' ''a'', ?m ''2'' ''b''], 2)"
    by (simp add: newMessage_def nextID_def Let_def)
  obtain b' where b': "BatchCallContext [(''a'', None), (''b'', None)] (\<lambda>_ _. None) (\<lambda>i. (Some (?r i), None)) (\<lambda>_ _. None) ?b 0
      = (Return (None, b'), 2)"
    "b' ! 0 = batch_set (\<lambda>_ _. None) 0 (?r 1) (?b ! 0)" "b' ! 1 = batch_set (\<lambda>_ _. None) 1 (?r 0) (?b ! 1)"
    using BatchCallContext_matches [OF _ _ m, of ?b "\<lambda>_ _. None" "[?r 0, ?r 1]" "\<lambda>i. (Some (?r i), None)" "\<lambda>_ _. None"]
    by (auto simp: less_Suc_eq insert_commute)
  moreover have "Err zero_message = None" by (simp add: zero_message_def)
  ultimately show ?thesis by (simp add: batch_set_def raw_bytes_def)
qed

section \<open>Writing with one retry\<close>

text \<open>What one attempt does: reconnect if needed, then write.\<close>

lemma client_write_retried:
  "case client_write wr connect accepted msg True w of (res, w') \<Rightarrow>
     (res = None \<longleftrightarrow> writeConn w' \<noteq> None)
     \<and> dials w' \<le> dials w + (if writeConn w = None then 1 else 0)
     \<and> (\<forall>c. writeConn w' = Some c \<longrightarrow> (\<exists>c0. wr msg c0 = (None, c) \<and> (writeConn w = Some c0 \<or> c0 \<in> set (reconnected w'))))
     \<and> set (reconnected w) \<subseteq> set (reconnected w')"
  by (subst client_write.simps)
    (auto simp: reconnect_def Let_def split: option.splits sum.splits prod.splits)

text \<open>
  Writing retries once: \<open>write\<close> dials at most twice (once if it had a connection), succeeds
  exactly if it leaves a connection behind, and in that case the message was written without an error
  on that connection, which is the one it had or one that the dispatch loop accepted.
\<close>

theorem client_write_once_more:
  "case client_write wr connect accepted msg False w of (res, w') \<Rightarrow>
     (res = None \<longleftrightarrow> writeConn w' \<noteq> None)
     \<and> dials w' \<le> dials w + (if writeConn w = None then 2 else 1)
     \<and> (\<forall>c. writeConn w' = Some c \<longrightarrow> (\<exists>c0. wr msg c0 = (None, c) \<and> (writeConn w = Some c0 \<or> c0 \<in> set (reconnected w'))))"
proof -
  obtain e w1 where a: "(if writeConn w = None then reconnect connect accepted w else (None, w)) = (e, w1)"
    by (cases "if writeConn w = None then reconnect connect accepted w else (None, w)")
  have w1: "dials w1 \<le> dials w + (if writeConn w = None then 1 else 0)" "set (reconnected w) \<subseteq> set (reconnected w1)"
    "e = None \<Longrightarrow> \<exists>c0. writeConn w1 = Some c0 \<and> (writeConn w = Some c0 \<or> c0 \<in> set (reconnected w1))"
    "e \<noteq> None \<Longrightarrow> writeConn w1 = None"
    using a by (auto simp: reconnect_def Let_def split: option.splits sum.splits if_splits)
  show ?thesis
  proof (cases e)
    case (Some err)
    with a w1 show ?thesis by (subst client_write.simps) (auto simp del: client_write.simps)
  next
    case None
    then obtain c0 where c0: "writeConn w1 = Some c0" "writeConn w = Some c0 \<or> c0 \<in> set (reconnected w1)" using w1(3) by blast
    obtain r c1 where wr: "wr msg c0 = (r, c1)" by (cases "wr msg c0")
    show ?thesis
    proof (cases r)
      case None': None
      then have "client_write wr connect accepted msg False w = (None, w1\<lparr>writeConn := Some c1\<rparr>)"
        using a None c0 wr by (subst client_write.simps) simp
      then show ?thesis using w1(1) wr c0 None' by (auto split: if_splits)
    next
      case (Some err)
      let ?w = "w1\<lparr>writeConn := None\<rparr>"
      have "client_write wr connect accepted msg False w = client_write wr connect accepted msg True ?w"
        using a None c0 wr Some by (subst client_write.simps) simp
      moreover note client_write_retried [where wr = wr and connect = connect and accepted = accepted and msg = msg and w = ?w]
      ultimately show ?thesis using w1(1) by (auto split: prod.splits if_splits)
    qed
  qed
qed

theorem client_write_once_more_witness:
  "\<exists>w'. client_write (\<lambda>_ c. if c = 0 then (Some errDead, c) else (None, c + 1)) (Some (\<lambda>_. Inr 5)) (\<lambda>_. True)
       (WMsg (errorMessage errDead)) False \<lparr>writeConn = Some (0 :: nat), dials = 0, reconnected = []\<rparr> = (None, w')
     \<and> writeConn w' = Some 6 \<and> dials w' = 1 \<and> 5 \<in> set (reconnected w')"
proof -
  let ?wr = "\<lambda>_ c. if c = (0 :: nat) then (Some errDead, c) else (None, c + 1)"
  let ?w = "\<lparr>writeConn = Some (0 :: nat), dials = 0, reconnected = []\<rparr>"
  let ?m = "WMsg (errorMessage errDead)"
  have e: "client_write ?wr (Some (\<lambda>_. Inr 5)) (\<lambda>_. True) ?m False ?w
      = (None, \<lparr>writeConn = Some 6, dials = 1, reconnected = [5]\<rparr>)"
    by (simp add: client_write.simps reconnect_def)
  from client_write_once_more [where wr = ?wr and connect = "Some (\<lambda>_. Inr 5)" and accepted = "\<lambda>_. True" and msg = ?m and w = ?w]
  obtain c0 where "?wr ?m c0 = (None, 6)" "c0 = 0 \<or> c0 = 5" unfolding e by auto
  then show ?thesis unfolding e by simp
qed

end
