(* ===== verification/Rpc_Calls.thy ===== *)
theory Rpc_Calls
  imports Rpc_Handler
begin

text \<open>
  The server side of a handler at work: what a call does to the state, call processes that run
  concurrently with each other, with the dispatch loop and with service goroutines, the order of
  answers and notifications, shutdown of subscriptions, and the answers to batches.
\<close>

section \<open>The server side of the state\<close>

text \<open>
  A notifier before its call has returned: it is inactive, and if it has a subscription, the
  error channel of that is as it was made.
\<close>

definition fresh_notifier :: "notifier \<Rightarrow> bool" where
  "fresh_notifier n \<longleftrightarrow> \<not> activated n \<and> \<not> callReturned n \<and> wf_notifier n
     \<and> (\<forall>s. n_sub n = Some s \<longrightarrow> sub_err s = make_chan 1)"

lemma fresh_new_notifier [simp]: "fresh_notifier (new_notifier ns)"
  by (simp add: fresh_notifier_def new_notifier_def wf_notifier_def)

lemma CreateSubscription_fresh:
  "fresh_notifier n \<Longrightarrow> CreateSubscription gen g n = Return (sub, n', g') \<Longrightarrow> fresh_notifier n'"
  by (auto simp: CreateSubscription_def fresh_notifier_def wf_notifier_def Let_def split: if_splits prod.splits)

lemma Notify_fresh:
  "fresh_notifier n \<Longrightarrow> Notify write sid data n c = Return (err, n', c') \<Longrightarrow> fresh_notifier n' \<and> c' = c"
  by (auto simp: Notify_def fresh_notifier_def wf_notifier_def split: sum.splits option.splits if_splits)

text \<open>A service method touches the handler only through its own notifier and the ID generator.\<close>

lemma run_prog_frame:
  assumes "i < length (notifiers h)" and "fresh_notifier (notifiers h ! i)"
    and "run_prog p E (Some i) h = (r, h')"
  shows "\<exists>g n. h' = h\<lparr>h_idgen := g, notifiers := (notifiers h)[i := n]\<rparr> \<and> fresh_notifier n"
  using assms
proof (induction p arbitrary: h)
  case (Done r')
  then show ?case by (intro exI [of _ "h_idgen h"] exI [of _ "notifiers h ! i"]) simp
next
  case (DoCreate k)
  show ?case
  proof (cases "CreateSubscription (e_idgen E) (h_idgen h) (notifiers h ! i)")
    case (Return t)
    obtain sub n g where t: "t = (sub, n, g)" by (cases t)
    let ?h = "h\<lparr>h_idgen := g, notifiers := (notifiers h)[i := n]\<rparr>"
    have n: "fresh_notifier n" using CreateSubscription_fresh [OF DoCreate.prems(2)] Return t by simp
    have "\<exists>g' n'. h' = ?h\<lparr>h_idgen := g', notifiers := (notifiers ?h)[i := n']\<rparr> \<and> fresh_notifier n'"
      using DoCreate.prems n Return t by (intro DoCreate.IH [OF rangeI]) (simp_all add: t)
    then show ?thesis by (auto simp: handler.equality)
  next
    case (Panic p)
    with DoCreate.prems show ?thesis
      by (intro exI [of _ "h_idgen h"] exI [of _ "notifiers h ! i"]) simp
  qed
next
  case (DoNotify sid data k)
  show ?case
  proof (cases "Notify (e_write E) sid data (notifiers h ! i) (h_conn h)")
    case (Return t)
    obtain err n c where t: "t = (err, n, c)" by (cases t)
    have n: "fresh_notifier n" "c = h_conn h"
      using Notify_fresh [OF DoNotify.prems(2) Return [unfolded t]] by simp_all
    let ?h = "h\<lparr>h_conn := c, notifiers := (notifiers h)[i := n]\<rparr>"
    have "\<exists>g' n'. h' = ?h\<lparr>h_idgen := g', notifiers := (notifiers ?h)[i := n']\<rparr> \<and> fresh_notifier n'"
      using DoNotify.prems n Return t by (intro DoNotify.IH [OF rangeI]) (simp_all add: t)
    then show ?thesis by (auto simp: n handler.equality)
  next
    case (Panic p)
    with DoNotify.prems show ?thesis
      by (intro exI [of _ "h_idgen h"] exI [of _ "notifiers h ! i"]) simp
  qed
qed

lemma run_prog_plain: "run_prog p E None h = (r, h') \<Longrightarrow> h' = h"
  by (cases p) auto

lemma runMethod_plain: "runMethod E None msg callb args h = (a, h') \<Longrightarrow> h' = h"
  by (auto simp: runMethod_def split: prod.splits sum.splits dest: run_prog_plain)

lemma runMethod_frame:
  assumes "i < length (notifiers h)" and "fresh_notifier (notifiers h ! i)"
    and "runMethod E (Some i) msg callb args h = (a, h')"
  shows "\<exists>g n. h' = h\<lparr>h_idgen := g, notifiers := (notifiers h)[i := n]\<rparr> \<and> fresh_notifier n"
  using run_prog_frame [OF assms(1,2)] assms(3)
  by (auto simp: runMethod_def split: prod.splits sum.splits)

text \<open>
  What the handling of one call does to the state: at most one new notifier, fresh and last, becomes
  one of the call process; an unsubscribe call closes the error channel of a subscription and drops
  it from the map; the connection and the client side are untouched.
\<close>

datatype call_effect = NoEffect | NewNotifier notifier | Unsubscribed string nat "rpc_error chan"

fun apply_effect :: "call_effect \<Rightarrow> notifier list \<Rightarrow> (string \<times> nat) list \<Rightarrow> notifier list \<times> (string \<times> nat) list" where
  "apply_effect NoEffect ns subs = (ns, subs)"
| "apply_effect (NewNotifier n) ns subs = (ns @ [n], subs)"
| "apply_effect (Unsubscribed sid i ch) ns subs = (set_sub_err i ch ns, AList.delete sid subs)"

definition effect_ok :: "call_effect \<Rightarrow> notifier list \<Rightarrow> (string \<times> nat) list \<Rightarrow> bool" where
  "effect_ok e ns subs =
     (case e of
        NoEffect \<Rightarrow> True
      | NewNotifier n \<Rightarrow> fresh_notifier n
      | Unsubscribed sid i ch \<Rightarrow> map_of subs sid = Some i \<and> ch_closed ch)"

definition client_side :: "('f, 'c, 'g) handler \<Rightarrow> _" where
  "client_side h = (h_reg h, respWait h, clientSubs h, rootCanceled h, h_conn h, allowSubscribe h, ops h, csubs h)"

definition call_result_ok ::
  "('f, 'c, 'g) handler \<Rightarrow> nat list \<Rightarrow> ('f, 'c, 'g) handler \<Rightarrow> nat list \<Rightarrow> call_effect \<Rightarrow> bool" where
  "call_result_ok h nn h' nn' e \<longleftrightarrow>
     client_side h' = client_side h \<and> (notifiers h', serverSubs h') = apply_effect e (notifiers h) (serverSubs h)
     \<and> effect_ok e (notifiers h) (serverSubs h)
     \<and> nn' = nn @ (case e of NewNotifier n \<Rightarrow> [length (notifiers h)] | _ \<Rightarrow> [])"

lemma call_result_ok_NoEffect [simp]:
  "call_result_ok h nn h' nn' NoEffect \<longleftrightarrow>
     client_side h' = client_side h \<and> notifiers h' = notifiers h \<and> serverSubs h' = serverSubs h \<and> nn' = nn"
  by (auto simp: call_result_ok_def effect_ok_def)

lemma handleSubscribe_effect:
  assumes "handleSubscribe E msg h nn = (a, h', nn')"
  shows "\<exists>e. call_result_ok h nn h' nn' e"
proof (cases "h' = h \<and> nn' = nn")
  case True
  then show ?thesis by (intro exI [of _ NoEffect]) simp
next
  case False
  let ?h = "h\<lparr>notifiers := notifiers h @ [new_notifier (namespace msg)]\<rparr>"
  from assms False obtain callb args where
    run: "runMethod E (Some (length (notifiers h))) msg callb args ?h = (a, h')"
    and nn: "nn' = nn @ [length (notifiers h)]"
    by (auto simp: handleSubscribe_def Let_def split: if_splits sum.splits option.splits prod.splits)
  have "\<exists>g n. h' = ?h\<lparr>h_idgen := g, notifiers := (notifiers ?h)[length (notifiers h) := n]\<rparr> \<and> fresh_notifier n"
    by (rule runMethod_frame [OF _ _ run]) (simp_all add: nth_append)
  then obtain g n where "h' = ?h\<lparr>h_idgen := g, notifiers := notifiers h @ [n]\<rparr>" "fresh_notifier n"
    by auto
  then show ?thesis
    using nn by (intro exI [of _ "NewNotifier n"]) (simp add: call_result_ok_def client_side_def effect_ok_def)
qed

lemma run_unsubscribe_effect:
  assumes "run_unsubscribe msg sid h = (a, h')"
  shows "\<exists>e. call_result_ok h nn h' nn e"
proof (cases "h' = h")
  case True
  then show ?thesis by (intro exI [of _ NoEffect]) simp
next
  case False
  with assms obtain i s ch where "map_of (serverSubs h) sid = Some i" "n_sub (notifiers h ! i) = Some s"
    "chan_close (sub_err s) = Proceed ch"
    "h' = h\<lparr>notifiers := set_sub_err i ch (notifiers h), serverSubs := AList.delete sid (serverSubs h)\<rparr>"
    by (auto simp: run_unsubscribe_def unsubscribe_def split: option.splits chan_step.splits prod.splits outcome.splits)
  then show ?thesis
    by (intro exI [of _ "Unsubscribed sid i ch"])
      (auto simp: call_result_ok_def client_side_def effect_ok_def chan_close_def split: if_splits)
qed

lemma handleCall_effect:
  assumes "handleCall E msg h nn = (a, h', nn')"
  shows "\<exists>e. call_result_ok h nn h' nn' e"
proof -
  consider "isSubscribe msg" | "\<not> isSubscribe msg" "isUnsubscribe msg" | "\<not> isSubscribe msg" "\<not> isUnsubscribe msg"
    by blast
  then show ?thesis
  proof cases
    case 1
    with assms show ?thesis by (auto simp: handleCall_def intro: handleSubscribe_effect)
  next
    case 2
    show ?thesis
    proof (cases "parsePositionalArguments (e_dec E) (e_zero E) (Params msg) [IDType]")
      case (Inl err)
      with assms 2 show ?thesis by (intro exI [of _ NoEffect]) (auto simp: handleCall_def)
    next
      case (Inr args)
      with assms 2 have "run_unsubscribe msg (e_id E (args ! 0)) h = (a, h')" "nn' = nn"
        by (auto simp: handleCall_def split: prod.splits)
      then show ?thesis using run_unsubscribe_effect by blast
    qed
  next
    case 3
    with assms show ?thesis
      by (intro exI [of _ NoEffect])
        (auto simp: handleCall_def Let_def client_side_def dest!: runMethod_plain
          split: option.splits sum.splits prod.splits if_splits)
  qed
qed

lemma handleCallMsg_effect:
  assumes "handleCallMsg E msg h nn = (a, h', nn')"
  shows "\<exists>e. call_result_ok h nn h' nn' e"
proof (cases "isNotification msg \<or> isCall msg")
  case True
  with assms obtain a' where "handleCall E msg h nn = (a', h', nn')"
    by (auto simp: handleCallMsg_def split: prod.splits if_splits)
  then show ?thesis by (rule handleCall_effect)
next
  case False
  with assms show ?thesis
    by (intro exI [of _ NoEffect]) (auto simp: handleCallMsg_def split: if_splits)
qed

section \<open>Concurrent call processes\<close>

text \<open>
  The invariant of the server's subscriptions: notifiers whose call has not returned are fresh, and
  every entry of the map points to a distinct notifier whose call has returned and whose
  subscription has that ID and an untouched error channel.
\<close>

definition srv_inv :: "notifier list \<Rightarrow> (string \<times> nat) list \<Rightarrow> bool" where
  "srv_inv ns subs \<longleftrightarrow>
     (\<forall>n \<in> set ns. wf_notifier n) \<and> (\<forall>n \<in> set ns. \<not> callReturned n \<longrightarrow> fresh_notifier n)
     \<and> distinct (map fst subs) \<and> distinct (map snd subs)
     \<and> (\<forall>(sid, i) \<in> set subs. i < length ns \<and> callReturned (ns ! i)
          \<and> (\<exists>s. n_sub (ns ! i) = Some s \<and> sub_ID s = sid \<and> sub_err s = make_chan 1))"

lemma srv_inv_entry:
  assumes "srv_inv ns subs" and "(sid, i) \<in> set subs"
  shows "i < length ns" "callReturned (ns ! i)"
    "\<exists>s. n_sub (ns ! i) = Some s \<and> sub_ID s = sid \<and> sub_err s = make_chan 1"
  using assms by (auto simp: srv_inv_def)

text \<open>Replacing a notifier by one that agrees on what the map needs.\<close>

lemma srv_inv_replace:
  assumes inv: "srv_inv ns subs" and i: "i < length ns" and wf: "wf_notifier n"
    and fresh: "\<not> callReturned n \<longrightarrow> fresh_notifier n"
    and keep: "i \<notin> snd ` set subs \<or> callReturned n \<and> n_sub n = n_sub (ns ! i)"
  shows "srv_inv (ns[i := n]) subs"
proof -
  have set: "m \<in> set (ns[i := n]) \<Longrightarrow> m = n \<or> m \<in> set ns" for m
    using set_update_subset_insert by fastforce
  have "j < length (ns[i := n]) \<and> callReturned (ns[i := n] ! j)
      \<and> (\<exists>s. n_sub (ns[i := n] ! j) = Some s \<and> sub_ID s = sid \<and> sub_err s = make_chan 1)"
    if "(sid, j) \<in> set subs" for sid j
    using srv_inv_entry [OF inv that] that keep i by (cases "j = i") (force simp: nth_list_update)+
  with inv wf fresh set show ?thesis unfolding srv_inv_def by blast
qed

lemma srv_inv_snoc:
  assumes "srv_inv ns subs" and "fresh_notifier n"
  shows "srv_inv (ns @ [n]) subs"
  using assms unfolding srv_inv_def
  by (auto simp: nth_append fresh_notifier_def)

lemma srv_inv_unsubscribed:
  assumes inv: "srv_inv ns subs" and sid: "map_of subs sid = Some i"
  shows "srv_inv (set_sub_err i ch ns) (AList.delete sid subs)"
proof -
  have mem: "(sid, i) \<in> set subs" using sid by (rule map_of_SomeD)
  let ?subs = "AList.delete sid subs"
  have "srv_inv ns ?subs"
    using inv unfolding srv_inv_def by (auto simp: distinct_delete set_delete)
  moreover have "i \<notin> snd ` set ?subs"
    using inv mem eq_key_imp_eq_value
    by (auto simp: set_delete srv_inv_def distinct_map inj_on_def) (metis fst_conv snd_conv)
  ultimately show ?thesis
    unfolding set_sub_err_def
    using srv_inv_entry [OF inv mem] inv
    by (intro srv_inv_replace) (auto simp: wf_notifier_def srv_inv_def)
qed

lemma srv_inv_effect:
  assumes "srv_inv ns subs" and "effect_ok e ns subs" and "apply_effect e ns subs = (ns', subs')"
  shows "srv_inv ns' subs'"
  using assms by (cases e) (auto simp: effect_ok_def srv_inv_snoc srv_inv_unsubscribed)

lemma srv_inv_update:
  assumes inv: "srv_inv ns subs" and i: "i < length ns" "callReturned (ns ! i)" "i \<notin> snd ` set subs"
    and sub: "n_sub (ns ! i) = Some s" "sub_err s = make_chan 1"
  shows "srv_inv ns (AList.update (sub_ID s) i subs)"
proof -
  have d: "distinct (map fst subs)" "distinct (map snd subs)" using inv by (auto simp: srv_inv_def)
  have "j < length ns \<and> callReturned (ns ! j)
      \<and> (\<exists>t. n_sub (ns ! j) = Some t \<and> sub_ID t = sid \<and> sub_err t = make_chan 1)"
    if "(sid, j) \<in> set (AList.update (sub_ID s) i subs)" for sid j
    using update_mem [OF that d(1)] srv_inv_entry [OF inv, of sid j] i sub by auto
  moreover have "distinct (map fst (AList.update (sub_ID s) i subs))" "distinct (map snd (AList.update (sub_ID s) i subs))"
    using d i(3) by (simp_all add: distinct_update distinct_snd_update)
  ultimately show ?thesis using inv unfolding srv_inv_def by blast
qed

text \<open>\<open>addSubscriptions\<close> on notifiers whose calls are returning.\<close>

lemma addSubscriptions_frame:
  "client_side (addSubscriptions nn h) = client_side h"
  "length (notifiers (addSubscriptions nn h)) = length (notifiers h)"
  by (induction nn h rule: addSubscriptions.induct)
    (simp_all add: takeSubscription_def client_side_def Let_def split: option.split)

lemma addSubscriptions_inv:
  assumes "srv_inv (notifiers h) (serverSubs h)" and "distinct nn"
    and "\<forall>i \<in> set nn. i < length (notifiers h) \<and> \<not> callReturned (notifiers h ! i)"
  shows "srv_inv (notifiers (addSubscriptions nn h)) (serverSubs (addSubscriptions nn h))
    \<and> (\<forall>i < length (notifiers h). notifiers (addSubscriptions nn h) ! i =
         (if i \<in> set nn then (notifiers h ! i)\<lparr>callReturned := True\<rparr> else notifiers h ! i))"
  using assms
proof (induction nn arbitrary: h)
  case (Cons i nn)
  let ?n = "(notifiers h ! i)\<lparr>callReturned := True\<rparr>"
  let ?ns = "(notifiers h)[i := ?n]"
  have i: "i < length (notifiers h)" "\<not> callReturned (notifiers h ! i)" using Cons.prems by auto
  then have fr: "fresh_notifier (notifiers h ! i)" using Cons.prems(1) nth_mem unfolding srv_inv_def by blast
  have out: "i \<notin> snd ` set (serverSubs h)"
    using srv_inv_entry(2) [OF Cons.prems(1)] i(2) by force
  have inv1: "srv_inv ?ns (serverSubs h)"
    using out fr by (intro srv_inv_replace [OF Cons.prems(1) i(1)]) (auto simp: fresh_notifier_def wf_notifier_def)
  define h1 where "h1 = (case n_sub (notifiers h ! i) of
      None \<Rightarrow> h\<lparr>notifiers := ?ns\<rparr>
    | Some s \<Rightarrow> h\<lparr>notifiers := ?ns, serverSubs := AList.update (sub_ID s) i (serverSubs h)\<rparr>)"
  have step: "addSubscriptions (i # nn) h = addSubscriptions nn h1"
    by (simp add: takeSubscription_def h1_def split: option.split)
  have ns1: "notifiers h1 = ?ns" by (simp add: h1_def split: option.split)
  have "srv_inv (notifiers h1) (serverSubs h1)"
  proof (cases "n_sub (notifiers h ! i)")
    case None
    with inv1 show ?thesis by (simp add: h1_def)
  next
    case (Some s)
    have "srv_inv ?ns (AList.update (sub_ID s) i (serverSubs h))"
      using i out Some fr by (intro srv_inv_update [OF inv1]) (auto simp: fresh_notifier_def)
    with Some show ?thesis by (simp add: h1_def)
  qed
  moreover have "\<forall>j \<in> set nn. j < length (notifiers h1) \<and> \<not> callReturned (notifiers h1 ! j)"
    using Cons.prems(2,3) by (auto simp: ns1 nth_list_update)
  ultimately have IH: "srv_inv (notifiers (addSubscriptions nn h1)) (serverSubs (addSubscriptions nn h1))
    \<and> (\<forall>j < length (notifiers h1). notifiers (addSubscriptions nn h1) ! j =
         (if j \<in> set nn then (notifiers h1 ! j)\<lparr>callReturned := True\<rparr> else notifiers h1 ! j))"
    using Cons.IH Cons.prems(2) by simp
  then show ?case
    unfolding step using Cons.prems(2) i by (auto simp: ns1 nth_list_update)
qed simp

text \<open>
  A connection at work: the handler and all call processes started so far. Steps of the dispatch
  loop, steps of any process and notifications sent by service goroutines interleave freely; a
  process may also have been started for any list of messages.
\<close>

type_synonym ('f, 'c, 'g) sys = "('f, 'c, 'g) handler \<times> callProc list"

inductive sys_step :: "('f, 'v, 'c, 'g) env \<Rightarrow> ('f, 'c, 'g) sys \<Rightarrow> ('f, 'c, 'g) sys \<Rightarrow> bool" for E where
  message: "handleMsg pick msg h = Proceed (po, h') \<Longrightarrow>
    sys_step E (h, ps) (h', ps @ (case po of None \<Rightarrow> [] | Some p \<Rightarrow> [p]))"
| batch: "handleBatch picks msgs h = Proceed (po, h') \<Longrightarrow>
    sys_step E (h, ps) (h', ps @ (case po of None \<Rightarrow> [] | Some p \<Rightarrow> [p]))"
| process: "j < length ps \<Longrightarrow> proc_step E (ps ! j) h = Return (p, h') \<Longrightarrow> sys_step E (h, ps) (h', ps[j := p])"
| notify: "i < length (notifiers h) \<Longrightarrow>
    Notify (e_write E) sid data (notifiers h ! i) (h_conn h) = Return (err, n, c) \<Longrightarrow>
    sys_step E (h, ps) (h\<lparr>h_conn := c, notifiers := (notifiers h)[i := n]\<rparr>, ps)"

definition sys_start :: "('f, 'c, 'g) sys \<Rightarrow> bool" where
  "sys_start s \<longleftrightarrow> (\<exists>c g reg os cs. s = (newHandler c g reg os cs, []))"

definition sys_reach :: "('f, 'v, 'c, 'g) env \<Rightarrow> ('f, 'c, 'g) sys \<Rightarrow> bool" where
  "sys_reach E = reach sys_start (sys_step E)"

lemma sys_reach_init: "sys_reach E (newHandler c g reg os cs, [])"
  unfolding sys_reach_def by (rule reach.start) (unfold sys_start_def, blast)

lemma sys_reach_step: "sys_reach E s \<Longrightarrow> sys_step E s s' \<Longrightarrow> sys_reach E s'"
  unfolding sys_reach_def by (rule reach.step)

text \<open>What the phase of a process says of its notifiers.\<close>

definition phase_ok :: "notifier list \<Rightarrow> callProc \<Rightarrow> bool" where
  "phase_ok ns p =
     (case cp_phase p of
        Calling \<Rightarrow> \<forall>i \<in> set (cp_notifiers p). \<not> callReturned (ns ! i)
      | Answering \<Rightarrow> \<forall>i \<in> set (cp_notifiers p). callReturned (ns ! i) \<and> \<not> activated (ns ! i)
      | Activating is \<Rightarrow> set is \<subseteq> set (cp_notifiers p) \<and> (\<forall>i \<in> set (cp_notifiers p). callReturned (ns ! i))
      | Finished \<Rightarrow> \<forall>i \<in> set (cp_notifiers p). callReturned (ns ! i))"

definition procs_ok :: "notifier list \<Rightarrow> callProc list \<Rightarrow> bool" where
  "procs_ok ns ps \<longleftrightarrow>
     (\<forall>p \<in> set ps. phase_ok ns p) \<and> distinct (concat (map cp_notifiers ps))
     \<and> set (concat (map cp_notifiers ps)) = {..<length ns}"

definition sys_inv :: "('f, 'c, 'g) sys \<Rightarrow> bool" where
  "sys_inv s \<longleftrightarrow> srv_inv (notifiers (fst s)) (serverSubs (fst s)) \<and> procs_ok (notifiers (fst s)) (snd s)"

lemma handleImmediate_server:
  assumes "handleImmediate pick msg h = Proceed (b, h')"
  shows "notifiers h' = notifiers h" "serverSubs h' = serverSubs h"
proof -
  have "handleResponse msg h = Proceed h1 \<Longrightarrow> notifiers h1 = notifiers h \<and> serverSubs h1 = serverSubs h" for h1
    by (auto simp: handleResponse_def Let_def step_bind_Proceed_iff split: option.splits sum.splits)
  moreover have "notifiers (handleSubscriptionResult pick msg h) = notifiers h
    \<and> serverSubs (handleSubscriptionResult pick msg h) = serverSubs h"
    by (simp add: handleSubscriptionResult_def split: option.split)
  ultimately show "notifiers h' = notifiers h" "serverSubs h' = serverSubs h"
    using assms by (auto simp: handleImmediate_def step_bind_Proceed_iff split: if_splits)
qed

lemma immediate_loop_server:
  "immediate_loop pick msgs calls h = Proceed (calls', h') \<Longrightarrow>
   notifiers h' = notifiers h \<and> serverSubs h' = serverSubs h"
  by (induction pick msgs calls h rule: immediate_loop.induct)
    (auto simp: step_bind_Proceed_iff dest: handleImmediate_server)

lemma procs_ok_start:
  "procs_ok ns ps \<Longrightarrow> cp_notifiers p = [] \<Longrightarrow> cp_phase p \<in> {Calling, Answering} \<Longrightarrow> procs_ok ns (ps @ [p])"
  by (auto simp: procs_ok_def phase_ok_def)

lemma procs_ok_mem:
  assumes "procs_ok ns ps" and "p \<in> set ps"
  shows "distinct (cp_notifiers p)" "\<forall>i \<in> set (cp_notifiers p). i < length ns" "phase_ok ns p"
proof -
  have "distinct (concat (map cp_notifiers ps)) \<Longrightarrow> distinct (cp_notifiers p)"
    using assms(2) by (induction ps) auto
  with assms show "distinct (cp_notifiers p)" by (simp add: procs_ok_def)
  have "set (cp_notifiers p) \<subseteq> set (concat (map cp_notifiers ps))" using assms(2) by auto
  with assms(1) show "\<forall>i \<in> set (cp_notifiers p). i < length ns" by (auto simp: procs_ok_def)
  show "phase_ok ns p" using assms by (simp add: procs_ok_def)
qed

text \<open>The notifiers of two processes are different ones.\<close>

lemma procs_ok_disjoint:
  assumes "procs_ok ns ps" and "j < length ps" and "k < length ps" and "j \<noteq> k"
  shows "set (cp_notifiers (ps ! j)) \<inter> set (cp_notifiers (ps ! k)) = {}"
proof -
  have "distinct (concat (map cp_notifiers ps)) \<Longrightarrow> j < k \<Longrightarrow> k < length ps \<Longrightarrow>
      set (cp_notifiers (ps ! j)) \<inter> set (cp_notifiers (ps ! k)) = {}" for j k
  proof (induction ps arbitrary: j k)
    case (Cons p ps)
    then show ?case
      by (cases j; cases k) (auto simp: disjoint_iff)
  qed simp
  with assms show ?thesis by (metis Int_commute linorder_neqE_nat procs_ok_def)
qed

text \<open>
  Replacing process \<open>j\<close> by one with the same notifiers, when the notifiers changed only in its own
  and other processes see the flags they rely on.
\<close>

lemma procs_ok_replace:
  assumes ok: "procs_ok ns ps" and j: "j < length ps" and len: "length ns' = length ns"
    and nn: "cp_notifiers p = cp_notifiers (ps ! j)" and p: "phase_ok ns' p"
    and other: "\<forall>i < length ns. i \<notin> set (cp_notifiers p) \<longrightarrow>
      callReturned (ns' ! i) = callReturned (ns ! i) \<and> activated (ns' ! i) = activated (ns ! i)"
  shows "procs_ok ns' (ps[j := p])"
proof -
  have map: "map cp_notifiers (ps[j := p]) = map cp_notifiers ps"
    using j nn by (metis list_update_id map_update)
  have "phase_ok ns' q" if q: "q \<in> set (ps[j := p])" for q
  proof -
    from q obtain k where k: "k < length ps" "q = ps[j := p] ! k" by (auto simp: in_set_conv_nth)
    show ?thesis
    proof (cases "k = j")
      case True
      with k p show ?thesis by simp
    next
      case False
      then have qk: "q = ps ! k" using k by simp
      have "set (cp_notifiers q) \<inter> set (cp_notifiers p) = {}"
        using procs_ok_disjoint [OF ok k(1) j False] nn qk by simp
      moreover have "\<forall>i \<in> set (cp_notifiers q). i < length ns" "phase_ok ns q"
        using procs_ok_mem [OF ok, of q] qk k by auto
      ultimately have "\<forall>i \<in> set (cp_notifiers q).
          callReturned (ns' ! i) = callReturned (ns ! i) \<and> activated (ns' ! i) = activated (ns ! i)"
        using other by blast
      with \<open>phase_ok ns q\<close> show ?thesis by (auto simp: phase_ok_def split: phase.splits)
    qed
  qed
  then show ?thesis using ok len unfolding procs_ok_def map by simp
qed

lemma procs_ok_flags:
  assumes "procs_ok ns ps" and "length ns' = length ns"
    and "\<forall>i < length ns. callReturned (ns' ! i) = callReturned (ns ! i) \<and> activated (ns' ! i) = activated (ns ! i)"
  shows "procs_ok ns' ps"
proof -
  have "phase_ok ns' p" if "p \<in> set ps" for p
    using procs_ok_mem [OF assms(1) that] assms(3) by (auto simp: phase_ok_def split: phase.splits)
  with assms(1,2) show ?thesis by (simp add: procs_ok_def)
qed

lemma procs_ok_new:
  assumes ok: "procs_ok ns ps" and j: "j < length ps" and fresh: "fresh_notifier n"
    and p: "cp_notifiers p = cp_notifiers (ps ! j) @ [length ns]" "cp_phase p = Calling" "cp_phase (ps ! j) = Calling"
  shows "procs_ok (ns @ [n]) (ps[j := p])"
proof -
  have split: "ps = take j ps @ ps ! j # drop (Suc j) ps" using j by (rule id_take_nth_drop)
  have upd: "ps[j := p] = take j ps @ p # drop (Suc j) ps" using j by (rule upd_conv_take_nth_drop)
  let ?A = "concat (map cp_notifiers (take j ps))" and ?B = "concat (map cp_notifiers (drop (Suc j) ps))"
  have cc: "concat (map cp_notifiers ps) = ?A @ cp_notifiers (ps ! j) @ ?B"
    by (subst split) (simp only: map_append list.map concat_append concat.simps)
  have cc': "concat (map cp_notifiers (ps[j := p])) = ?A @ cp_notifiers (ps ! j) @ [length ns] @ ?B"
    by (simp add: upd p)
  have set: "set (concat (map cp_notifiers ps)) = {..<length ns}" and dist: "distinct (concat (map cp_notifiers ps))"
    using ok by (auto simp: procs_ok_def)
  have notin: "length ns \<notin> set (?A @ cp_notifiers (ps ! j) @ ?B)" using set unfolding cc by simp
  have 1: "distinct (concat (map cp_notifiers (ps[j := p])))"
    using dist notin unfolding cc cc' by auto
  have "set (concat (map cp_notifiers (ps[j := p]))) = insert (length ns) (set (concat (map cp_notifiers ps)))"
    unfolding cc cc' by auto
  then have 2: "set (concat (map cp_notifiers (ps[j := p]))) = {..<length (ns @ [n])}"
    unfolding set by auto
  have "phase_ok (ns @ [n]) q" if q: "q \<in> set (ps[j := p])" for q
  proof (cases "q = p")
    case True
    have "phase_ok ns (ps ! j)" "\<forall>i \<in> set (cp_notifiers (ps ! j)). i < length ns"
      using procs_ok_mem [OF ok nth_mem [OF j]] by auto
    with True p fresh show ?thesis
      by (auto simp: phase_ok_def nth_append fresh_notifier_def)
  next
    case False
    then have "q \<in> set ps" using q set_update_subset_insert by fastforce
    from procs_ok_mem [OF ok this] show ?thesis
      by (auto simp: phase_ok_def nth_append split: phase.splits)
  qed
  with 1 2 show ?thesis by (simp add: procs_ok_def)
qed

lemma set_sub_err_flags [simp]:
  "length (set_sub_err i ch ns) = length ns"
  "j < length ns \<Longrightarrow> callReturned (set_sub_err i ch ns ! j) = callReturned (ns ! j)"
  "j < length ns \<Longrightarrow> activated (set_sub_err i ch ns ! j) = activated (ns ! j)"
  by (cases "i = j", simp_all add: set_sub_err_def)+

lemma activate_fields:
  assumes "activate write n c = Return (err, n', c')"
  shows "n' = n \<or> n' = n\<lparr>activated := True\<rparr>"
  using assms by (auto simp: activate_def outcome_bind_Return_iff split: if_splits)

lemma Notify_fields:
  assumes "Notify write sid data n c = Return (err, n', c')"
  shows "\<exists>b. n' = n\<lparr>n_buffer := b\<rparr> \<and> (b \<noteq> n_buffer n \<longrightarrow> n_sub n \<noteq> None)"
proof (cases "n' = n")
  case True
  then show ?thesis by (intro exI [of _ "n_buffer n"]) simp
next
  case False
  with assms show ?thesis
    by (auto simp: Notify_def split: sum.splits option.splits if_splits prod.splits)
qed

text \<open>Each kind of step keeps the invariant.\<close>

lemma call_step_inv:
  assumes inv: "sys_inv (h, ps)" and j: "j < length ps" and ph: "cp_phase (ps ! j) = Calling"
    and run: "handleCallMsg E msg h (cp_notifiers (ps ! j)) = (a, h', nn')"
    and p: "cp_notifiers p = nn'" "cp_phase p = Calling"
  shows "sys_inv (h', ps[j := p])"
proof -
  have srv: "srv_inv (notifiers h) (serverSubs h)" and procs: "procs_ok (notifiers h) ps"
    using inv by (auto simp: sys_inv_def)
  from handleCallMsg_effect [OF run] obtain e where e: "call_result_ok h (cp_notifiers (ps ! j)) h' nn' e" by blast
  then have "srv_inv (notifiers h') (serverSubs h')"
    using srv by (auto simp: call_result_ok_def intro!: srv_inv_effect [OF srv])
  moreover have "procs_ok (notifiers h') (ps[j := p])"
  proof (cases e)
    case (NewNotifier n)
    with e p have "notifiers h' = notifiers h @ [n]" "fresh_notifier n"
      "cp_notifiers p = cp_notifiers (ps ! j) @ [length (notifiers h)]"
      by (auto simp: call_result_ok_def effect_ok_def)
    then show ?thesis using procs_ok_new [OF procs j] p ph by simp
  next
    case NoEffect
    with e p ph show ?thesis
      by (intro procs_ok_replace [OF procs j]) (use procs_ok_mem(3) [OF procs nth_mem [OF j]] in \<open>auto simp: phase_ok_def\<close>)
  next
    case (Unsubscribed sid i ch)
    with e have ns: "notifiers h' = set_sub_err i ch (notifiers h)" and nn: "nn' = cp_notifiers (ps ! j)"
      by (auto simp: call_result_ok_def)
    have "phase_ok (notifiers h') p"
      using procs_ok_mem [OF procs nth_mem [OF j]] p ph nn ns by (auto simp: phase_ok_def)
    then show ?thesis
      using ns nn p by (intro procs_ok_replace [OF procs j]) auto
  qed
  ultimately show ?thesis by (simp add: sys_inv_def)
qed

lemma proc_step_inv:
  assumes inv: "sys_inv (h, ps)" and j: "j < length ps" and step: "proc_step E (ps ! j) h = Return (p, h')"
  shows "sys_inv (h', ps[j := p])"
proof -
  have srv: "srv_inv (notifiers h) (serverSubs h)" and procs: "procs_ok (notifiers h) ps"
    using inv by (auto simp: sys_inv_def)
  note mem = procs_ok_mem [OF procs nth_mem [OF j]]
  show ?thesis
  proof (cases "cp_phase (ps ! j)")
    case Calling
    show ?thesis
    proof (cases "cp_todo (ps ! j)")
      case (Cons msg rest)
      with Calling step show ?thesis
        by (auto simp: proc_step_def split: prod.splits intro!: call_step_inv [OF inv j Calling])
    next
      case Nil
      let ?nn = "cp_notifiers (ps ! j)"
      have h': "h' = addSubscriptions ?nn h" and p: "p = (ps ! j)\<lparr>cp_phase := Answering\<rparr>"
        using step Calling Nil by (auto simp: proc_step_def)
      have ret: "\<forall>i \<in> set ?nn. i < length (notifiers h) \<and> \<not> callReturned (notifiers h ! i)"
        using mem Calling by (auto simp: phase_ok_def)
      note add = addSubscriptions_inv [OF srv mem(1) ret]
      have "\<forall>i \<in> set ?nn. \<not> activated (notifiers h ! i)"
        using ret srv nth_mem unfolding srv_inv_def fresh_notifier_def by blast
      then have "phase_ok (notifiers h') p"
        using add ret by (auto simp: p h' phase_ok_def)
      then have "procs_ok (notifiers h') (ps[j := p])"
        using add by (intro procs_ok_replace [OF procs j]) (auto simp: p h' addSubscriptions_frame)
      with add h' show ?thesis by (simp add: sys_inv_def)
    qed
  next
    case Answering
    then have h': "notifiers h' = notifiers h" "serverSubs h' = serverSubs h"
      and p: "p = (ps ! j)\<lparr>cp_phase := Activating (cp_notifiers (ps ! j))\<rparr>"
      using step by (auto simp: proc_step_def write_answers_def split: list.split)
    have "procs_ok (notifiers h') (ps[j := p])"
      using mem Answering by (intro procs_ok_replace [OF procs j]) (auto simp: p h' phase_ok_def)
    with srv h' show ?thesis by (simp add: sys_inv_def)
  next
    case (Activating todo)
    show ?thesis
    proof (cases todo)
      case Nil
      then have "h' = h" "p = (ps ! j)\<lparr>cp_phase := Finished\<rparr>"
        using step Activating by (auto simp: proc_step_def)
      then have "procs_ok (notifiers h') (ps[j := p])"
        using mem Activating by (intro procs_ok_replace [OF procs j]) (auto simp: phase_ok_def)
      with srv \<open>h' = h\<close> show ?thesis by (simp add: sys_inv_def)
    next
      case (Cons i rest)
      from step obtain err n c where act: "activate (e_write E) (notifiers h ! i) (h_conn h) = Return (err, n, c)"
        and h': "h' = h\<lparr>h_conn := c, notifiers := (notifiers h)[i := n]\<rparr>"
        and p: "p = (ps ! j)\<lparr>cp_phase := Activating rest\<rparr>"
        by (auto simp: proc_step_def Activating Cons activate_notifier_def outcome_bind_Return_iff)
      have i: "i \<in> set (cp_notifiers (ps ! j))" "i < length (notifiers h)" "callReturned (notifiers h ! i)"
        using mem Activating Cons by (auto simp: phase_ok_def)
      have n: "callReturned n" "n_sub n = n_sub (notifiers h ! i)" "wf_notifier n"
        using activate_fields [OF act] i srv nth_mem [OF i(2)] by (auto simp: srv_inv_def wf_notifier_def)
      have "srv_inv ((notifiers h)[i := n]) (serverSubs h)"
        using n by (intro srv_inv_replace [OF srv i(2)]) auto
      moreover have "procs_ok ((notifiers h)[i := n]) (ps[j := p])"
        using mem Activating Cons i n
        by (intro procs_ok_replace [OF procs j]) (auto simp: p phase_ok_def nth_list_update)
      ultimately show ?thesis by (simp add: sys_inv_def h')
    qed
  next
    case Finished
    with step have "p = ps ! j" "h' = h" by (auto simp: proc_step_def)
    with inv j show ?thesis by simp
  qed
qed

lemma sys_step_inv:
  assumes "sys_step E s s'" and "sys_inv s"
  shows "sys_inv s'"
  using assms
proof (induction rule: sys_step.induct)
  case (message pick msg h po h' ps)
  then obtain b where imm: "handleImmediate pick msg h = Proceed (b, h')"
    and po: "po = (if b then None else Some (startCallProc False [msg]))"
    by (auto simp: handleMsg_def step_bind_Proceed_iff)
  from imm message(2) po show ?case
    by (auto simp: sys_inv_def handleImmediate_server startCallProc_def intro!: procs_ok_start)
next
  case (batch picks msgs h po h' ps)
  show ?case
  proof (cases "msgs = []")
    case True
    with batch show ?thesis
      by (auto simp: sys_inv_def handleBatch_def empty_batch_proc_def intro!: procs_ok_start)
  next
    case False
    with batch(1) obtain calls where loop: "immediate_loop picks msgs [] h = Proceed (calls, h')"
      and po: "po = (if calls = [] then None else Some (startCallProc True calls))"
      by (auto simp: handleBatch_def step_bind_Proceed_iff)
    from immediate_loop_server [OF loop] batch(2) po show ?thesis
      by (auto simp: sys_inv_def startCallProc_def intro!: procs_ok_start)
  qed
next
  case (process j ps h p h')
  then show ?case by (blast intro: proc_step_inv)
next
  case (notify i h sid data err n c ps)
  have srv: "srv_inv (notifiers h) (serverSubs h)" and procs: "procs_ok (notifiers h) ps"
    using notify(3) by (auto simp: sys_inv_def)
  from Notify_fields [OF notify(2)] obtain b where n: "n = (notifiers h ! i)\<lparr>n_buffer := b\<rparr>"
    "b \<noteq> n_buffer (notifiers h ! i) \<longrightarrow> n_sub (notifiers h ! i) \<noteq> None" by blast
  have old: "wf_notifier (notifiers h ! i)" "\<not> callReturned (notifiers h ! i) \<longrightarrow> fresh_notifier (notifiers h ! i)"
    using srv nth_mem [OF notify(1)] by (auto simp: srv_inv_def)
  have wf: "wf_notifier n" using n old by (auto simp: wf_notifier_def)
  have "srv_inv ((notifiers h)[i := n]) (serverSubs h)"
    using srv_inv_entry(2) [OF srv] n old wf
    by (intro srv_inv_replace [OF srv notify(1) wf]) (force simp: fresh_notifier_def)+
  moreover have "procs_ok ((notifiers h)[i := n]) ps"
    using n notify(1) by (intro procs_ok_flags [OF procs]) (auto simp: nth_list_update)
  ultimately show ?case by (simp add: sys_inv_def)
qed

lemma sys_start_inv: "sys_start s \<Longrightarrow> sys_inv s"
  by (auto simp: sys_start_def sys_inv_def newHandler_def srv_inv_def procs_ok_def)

interpretation calls: machine_invariant sys_start "sys_step E" sys_inv for E
  by unfold_locales (fact sys_start_inv sys_step_inv)+

lemma sys_reach_inv: "sys_reach E s \<Longrightarrow> sys_inv s"
  unfolding sys_reach_def by (rule calls.reach_inv)

section \<open>Subscriptions of concurrent calls\<close>

lemma proc_of_notifier:
  assumes "procs_ok ns ps" and "i < length ns"
  obtains p where "p \<in> set ps" "i \<in> set (cp_notifiers p)"
proof -
  have "i \<in> set (concat (map cp_notifiers ps))" using assms by (auto simp: procs_ok_def)
  then show thesis using that by auto
qed

lemma calling_keeps_conn:
  assumes "cp_phase p = Calling" and "proc_step E p h = Return (p', h')"
  shows "h_conn h' = h_conn h"
proof (cases "cp_todo p")
  case Nil
  then show ?thesis
    using assms addSubscriptions_frame(1) [of "cp_notifiers p" h]
    by (simp add: proc_step_def client_side_def)
next
  case (Cons msg rest)
  then obtain a nn where "handleCallMsg E msg h (cp_notifiers p) = (a, h', nn)"
    using assms by (auto simp: proc_step_def split: prod.splits)
  from handleCallMsg_effect [OF this] show ?thesis by (auto simp: call_result_ok_def client_side_def)
qed


text \<open>A small connection for the examples: one service \<open>eth\<close> with the subscription \<open>sub\<close>.\<close>

definition demo_env :: "(nat, string, jsonCodec, unit) env" where
  "demo_env =
     \<lparr>e_dec = (\<lambda>_ v. Inr v), e_zero = (\<lambda>_. []), e_marshal = Inr, e_id = (\<lambda>v. v),
      e_invoke = (\<lambda>_ _. DoCreate (\<lambda>sid. Done (Return [RVal sid, RErr None]))),
      e_write = writeJSON (\<lambda>_. None) 0 None, e_idgen = (\<lambda>g. (''0x1'', g))\<rparr>"

definition demo_callback :: "nat callback" where
  "demo_callback =
     \<lparr>fn = \<lparr>fn_id = 0, fn_in = [ContextType], fn_out = [Ptr SubscriptionType, ErrorType]\<rparr>,
      has_rcvr = False, argTypes = [], hasCtx = True, errPos = 1, cb_isSubscribe = True\<rparr>"

definition demo_registry :: "nat serviceRegistry" where
  "demo_registry =
     [''eth'' \<mapsto> \<lparr>name = ''eth'', callbacks = Map.empty, subscriptions = [''sub'' \<mapsto> demo_callback]\<rparr>]"

definition demo_handler :: "(nat, jsonCodec, unit) handler" where
  "demo_handler = newHandler (NewFuncCodec None) () demo_registry
     (\<lambda>_. \<lparr>op_ids = [], op_err = None, op_resp = make_chan 0, op_sub = None\<rparr>) (\<lambda>_. newClientSubscription [])"

definition demo_msg :: jsonrpcMessage where
  "demo_msg = zero_message\<lparr>Version := vsn, ID := Some ''1'', Method := ''eth_subscribe'',
     Params := Some (CHR ''['' # quote_char # ''sub'' @ [quote_char, CHR '']''])\<rparr>"

text \<open>The system after \<open>n\<close> steps of the only process.\<close>

fun proc_run ::
  "('f, 'v, 'c, 'g) env \<Rightarrow> nat \<Rightarrow> callProc \<Rightarrow> ('f, 'c, 'g) handler \<Rightarrow> (callProc \<times> ('f, 'c, 'g) handler) outcome" where
  "proc_run E 0 p h = Return (p, h)"
| "proc_run E (Suc n) p h = outcome_bind (proc_step E p h) (\<lambda>(p, h). proc_run E n p h)"

lemma sys_reach_proc_run:
  "sys_reach E (h, [p]) \<Longrightarrow> proc_run E n p h = Return (p', h') \<Longrightarrow> sys_reach E (h', [p'])"
proof (induction n arbitrary: p h)
  case (Suc n)
  then obtain p1 h1 where st: "proc_step E p h = Return (p1, h1)" and rest: "proc_run E n p1 h1 = Return (p', h')"
    by (auto simp: outcome_bind_Return_iff)
  have "sys_step E (h, [p]) (h1, [p][0 := p1])"
    by (rule sys_step.process) (simp_all add: st)
  then have "sys_reach E (h1, [p1])" using Suc.prems(1) by (auto intro: sys_reach_step)
  then show ?case using Suc.IH rest by blast
qed simp

lemma demo_start: "sys_reach demo_env (demo_handler, [startCallProc False [demo_msg]])"
proof -
  have "\<not> isNotification demo_msg" "\<not> isResponse demo_msg"
    by (simp_all add: demo_msg_def isNotification_def isResponse_def)
  then have "handleMsg False demo_msg demo_handler = Proceed (Some (startCallProc False [demo_msg]), demo_handler)"
    by (simp add: handleMsg_def handleImmediate_def)
  from sys_step.message [OF this, of demo_env "[]"] show ?thesis
    unfolding demo_handler_def using sys_reach_init by (fastforce intro: sys_reach_step)
qed


lemma cancel_server_subs_ok:
  assumes "distinct (map snd subs)"
    and "\<forall>(sid, i) \<in> set subs. i < length ns \<and> (\<exists>s. n_sub (ns ! i) = Some s \<and> sub_ID s = sid \<and> sub_err s = make_chan 1)"
  shows "\<exists>ns'. cancel_server_subs err subs ns = Proceed ns' \<and> length ns' = length ns
    \<and> (\<forall>i. i \<notin> snd ` set subs \<longrightarrow> ns' ! i = ns ! i)
    \<and> (\<forall>(sid, i) \<in> set subs. \<exists>s. n_sub (ns' ! i) = Some s \<and> sub_ID s = sid
         \<and> sub_err s = \<lparr>ch_buf = [err], ch_cap = 1, ch_closed = True\<rparr>)"
  using assms
proof (induction subs arbitrary: ns)
  case (Cons x subs)
  obtain sid i where x: "x = (sid, i)" by (cases x)
  obtain s where i: "i < length ns" "n_sub (ns ! i) = Some s" "sub_ID s = sid" "sub_err s = make_chan 1"
    using Cons.prems(2) by (auto simp: x)
  let ?ch = "\<lparr>ch_buf = [err], ch_cap = 1, ch_closed = True\<rparr>"
  have ne: "i \<notin> snd ` set subs" using Cons.prems(1) by (simp add: x)
  have st: "cancel_server_subs err (x # subs) ns = cancel_server_subs err subs (set_sub_err i ?ch ns)"
    using i by (simp add: x chan_send_def chan_close_def make_chan_def)
  have other: "set_sub_err i ?ch ns ! j = ns ! j" if "j \<noteq> i" for j using that by (simp add: set_sub_err_def)
  have "\<forall>(sid, j) \<in> set subs. j < length (set_sub_err i ?ch ns)
      \<and> (\<exists>s. n_sub (set_sub_err i ?ch ns ! j) = Some s \<and> sub_ID s = sid \<and> sub_err s = make_chan 1)"
  proof (intro ballI, clarify)
    fix sid' j assume m: "(sid', j) \<in> set subs"
    then have "j \<noteq> i" using ne by force
    moreover have "j < length ns \<and> (\<exists>s. n_sub (ns ! j) = Some s \<and> sub_ID s = sid' \<and> sub_err s = make_chan 1)"
      using Cons.prems(2) m by auto
    ultimately show "j < length (set_sub_err i ?ch ns)
      \<and> (\<exists>s. n_sub (set_sub_err i ?ch ns ! j) = Some s \<and> sub_ID s = sid' \<and> sub_err s = make_chan 1)"
      by (simp only: other set_sub_err_flags not_False_eq_True)
  qed
  then obtain ns' where ns': "cancel_server_subs err subs (set_sub_err i ?ch ns) = Proceed ns'"
    "length ns' = length ns" "\<forall>j. j \<notin> snd ` set subs \<longrightarrow> ns' ! j = set_sub_err i ?ch ns ! j"
    "\<forall>(sid, j) \<in> set subs. \<exists>s. n_sub (ns' ! j) = Some s \<and> sub_ID s = sid \<and> sub_err s = ?ch"
    using Cons.IH [of "set_sub_err i ?ch ns"] Cons.prems(1) by auto
  have "n_sub (ns' ! i) = Some (s\<lparr>sub_err := ?ch\<rparr>)"
    using ns'(3) ne i by (simp add: set_sub_err_def)
  then have "\<forall>(sid', j) \<in> set (x # subs). \<exists>s. n_sub (ns' ! j) = Some s \<and> sub_ID s = sid' \<and> sub_err s = ?ch"
    using ns'(4) i(3) by (simp add: x)
  moreover have "\<forall>j. j \<notin> snd ` set (x # subs) \<longrightarrow> ns' ! j = ns ! j"
    using ns'(3) other by (simp add: x)
  ultimately show ?case unfolding st using ns'(1,2) by blast
qed simp

text \<open>
  Shutting down the server side is safe: in every reachable state, \<open>cancelServerSubscriptions\<close>
  neither blocks nor panics, and it hands the error to every registered subscription and closes its
  channel.
\<close>

theorem cancelServerSubscriptions_safe:
  assumes "sys_reach E (h, ps)"
  shows "\<exists>h'. cancelServerSubscriptions err h = Proceed h' \<and> serverSubs h' = []
    \<and> (\<forall>(sid, i) \<in> set (serverSubs h). \<exists>s. n_sub (notifiers h' ! i) = Some s \<and> sub_ID s = sid
         \<and> ch_buf (sub_err s) = [err] \<and> ch_closed (sub_err s))"
proof -
  have inv: "srv_inv (notifiers h) (serverSubs h)"
    using sys_reach_inv [OF assms] by (simp add: sys_inv_def)
  then have d: "distinct (map snd (serverSubs h))" by (simp add: srv_inv_def)
  have "\<forall>(sid, i) \<in> set (serverSubs h). i < length (notifiers h)
      \<and> (\<exists>s. n_sub (notifiers h ! i) = Some s \<and> sub_ID s = sid \<and> sub_err s = make_chan 1)"
    using inv unfolding srv_inv_def by blast
  from cancel_server_subs_ok [OF d this, of err] obtain ns' where
    "cancel_server_subs err (serverSubs h) (notifiers h) = Proceed ns'"
    "\<forall>(sid, i) \<in> set (serverSubs h). \<exists>s. n_sub (ns' ! i) = Some s \<and> sub_ID s = sid
       \<and> sub_err s = \<lparr>ch_buf = [err], ch_cap = 1, ch_closed = True\<rparr>" by blast
  then show ?thesis by (force simp: cancelServerSubscriptions_def)
qed

theorem cancelServerSubscriptions_safe_witness:
  "\<exists>p h h' i s. proc_run demo_env 2 (startCallProc False [demo_msg]) demo_handler = Return (p, h)
     \<and> cancelServerSubscriptions ErrClientQuit h = Proceed h'
     \<and> n_sub (notifiers h' ! i) = Some s \<and> sub_ID s = ''0x1'' \<and> ch_buf (sub_err s) = [ErrClientQuit]"
proof -
  have run: "case proc_run demo_env 2 (startCallProc False [demo_msg]) demo_handler of
     Return (p, h) \<Rightarrow> serverSubs h = [(''0x1'', 0)] | _ \<Rightarrow> False"
    by code_simp
  then obtain p h where ph: "proc_run demo_env 2 (startCallProc False [demo_msg]) demo_handler = Return (p, h)"
    and subs: "serverSubs h = [(''0x1'', 0)]"
    by (auto split: outcome.splits)
  from cancelServerSubscriptions_safe [OF sys_reach_proc_run [OF demo_start ph], of ErrClientQuit] ph subs
  show ?thesis by auto
qed

section \<open>Batches\<close>

text \<open>The messages that are handled at once, without an answer.\<close>

definition immediate :: "jsonrpcMessage \<Rightarrow> bool" where
  "immediate msg \<longleftrightarrow> (if isNotification msg then HasSuffix (Method msg) notificationMethodSuffix else isResponse msg)"

lemma handleImmediate_handled: "handleImmediate pick msg h = Proceed (b, h') \<Longrightarrow> b = immediate msg"
  by (auto simp: handleImmediate_def immediate_def step_bind_Proceed_iff split: if_splits)

lemma immediate_loop_calls:
  "immediate_loop pick msgs calls h = Proceed (calls', h') \<Longrightarrow> calls' = calls @ filter (\<lambda>m. \<not> immediate m) msgs"
proof (induction msgs arbitrary: calls h)
  case (Cons msg msgs)
  then obtain b h1 where "handleImmediate (pick (length msgs)) msg h = Proceed (b, h1)"
    and rest: "immediate_loop pick msgs (if b then calls else calls @ [msg]) h1 = Proceed (calls', h')"
    by (auto simp: step_bind_Proceed_iff)
  then have "b = immediate msg" by (blast dest: handleImmediate_handled)
  with Cons.IH [OF rest] show ?case by simp
qed simp

lemma call_loop_answers:
  assumes "call_loop E calls answers h nn = (answers', h', nn')"
  shows "\<exists>new. answers' = answers @ new \<and> list_all2 answers_to (filter (\<lambda>m. \<not> isNotification m) calls) new"
  using assms
proof (induction E calls answers h nn rule: call_loop.induct)
  case (2 E msg calls answers h nn)
  obtain a h1 nn1 where c: "handleCallMsg E msg h nn = (a, h1, nn1)" by (cases "handleCallMsg E msg h nn")
  from 2(1) [OF c [symmetric] refl refl] 2(2) obtain new where
    new: "answers' = (answers @ (case a of None \<Rightarrow> [] | Some x \<Rightarrow> [x])) @ new"
      "list_all2 answers_to (filter (\<lambda>m. \<not> isNotification m) calls) new"
    by (auto simp: c)
  show ?case
    using handleCallMsg_answer [where E = E and msg = msg and h = h and nn = nn] new by (auto simp: c split: option.splits)
qed simp

lemma call_loop_state:
  assumes "call_loop E calls answers h nn = (answers', h', nn')" and "\<forall>n \<in> set (notifiers h). wf_notifier n"
    and "\<forall>i \<in> set nn. i < length (notifiers h)"
  shows "h_conn h' = h_conn h \<and> (\<forall>n \<in> set (notifiers h'). wf_notifier n)
    \<and> (\<forall>i \<in> set nn'. i < length (notifiers h')) \<and> length (notifiers h) \<le> length (notifiers h')"
  using assms
proof (induction E calls answers h nn rule: call_loop.induct)
  case (2 E msg calls answers h nn)
  obtain a h1 nn1 where c: "handleCallMsg E msg h nn = (a, h1, nn1)" by (cases "handleCallMsg E msg h nn")
  from handleCallMsg_effect [OF c] obtain e where e: "call_result_ok h nn h1 nn1 e" by blast
  have set_err: "\<forall>n \<in> set (set_sub_err i ch ns). wf_notifier n" if wf: "\<forall>n \<in> set ns. wf_notifier n" for i ch ns
  proof (cases "i < length ns")
    case True
    then have "wf_notifier (ns ! i)" using wf by simp
    then have "wf_notifier ((ns ! i)\<lparr>n_sub := map_option (\<lambda>s. s\<lparr>sub_err := ch\<rparr>) (n_sub (ns ! i))\<rparr>)"
      by (auto simp: wf_notifier_def)
    then show ?thesis
      using wf set_update_subset_insert unfolding set_sub_err_def by fastforce
  qed (use wf in \<open>simp add: set_sub_err_def list_update_beyond\<close>)
  have h1: "h_conn h1 = h_conn h" "\<forall>n \<in> set (notifiers h1). wf_notifier n"
    "\<forall>i \<in> set nn1. i < length (notifiers h1)" "length (notifiers h) \<le> length (notifiers h1)"
    using e 2(3,4) set_err
    by (cases e; auto simp: call_result_ok_def client_side_def effect_ok_def fresh_notifier_def)+
  from 2(1) [OF c [symmetric] refl refl] 2(2) h1 show ?case by (auto simp: c)
qed simp

lemma activate_loop_total:
  assumes "n_sub n = Some sub" and "\<forall>v c. \<exists>c'. wr v c = (None, c')"
  shows "\<exists>c'. activate_loop wr n ds c = Return (None, c')"
proof (induction ds arbitrary: c)
  case (Cons d ds)
  obtain c1 where "wr (WMsg (notification (n_namespace n) (sub_ID sub) d)) c = (None, c1)" using assms(2) by blast
  with Cons show ?case by (simp add: assms(1) notifier_send_def)
qed simp

lemma activate_total:
  assumes "wf_notifier n" and "\<forall>v c. \<exists>c'. wr v c = (None, c')"
  shows "\<exists>c'. activate wr n c = Return (None, n\<lparr>activated := True\<rparr>, c')"
proof (cases "n_sub n")
  case None
  with assms(1) show ?thesis by (simp add: activate_def wf_notifier_def)
next
  case (Some sub)
  then obtain c' where "activate_loop wr n (n_buffer n) c = Return (None, c')"
    using activate_loop_total [OF _ assms(2)] by blast
  then show ?thesis by (simp add: activate_def)
qed

text \<open>Which values on the connection are notifications.\<close>

definition is_note :: "wire \<Rightarrow> bool" where
  "is_note w \<longleftrightarrow> (\<exists>ns sid d. w = WMsg (notification ns sid d))"

lemma activate_all_total:
  assumes "\<forall>n \<in> set (notifiers h). wf_notifier n" and "\<forall>i \<in> set nn. i < length (notifiers h)"
    and w: "e_write E = writeJSON (\<lambda>_. None) now dl"
  shows "\<exists>h' nts. activate_all E nn h = Return h' \<and> written (h_conn h') = written (h_conn h) @ nts
    \<and> (\<forall>w \<in> set nts. is_note w)"
  using assms(1,2)
proof (induction nn arbitrary: h)
  case (Cons i nn)
  have tot: "\<forall>v c. \<exists>c'. e_write E v c = (None, c')" by (simp add: w writeJSON_def Let_def)
  have wf: "wf_notifier (notifiers h ! i)" using Cons.prems by simp
  from activate_total [OF this tot] obtain c where
    act: "activate (e_write E) (notifiers h ! i) (h_conn h) = Return (None, (notifiers h ! i)\<lparr>activated := True\<rparr>, c)"
    by blast
  let ?n = "(notifiers h ! i)\<lparr>activated := True\<rparr>"
  let ?h = "h\<lparr>h_conn := c, notifiers := (notifiers h)[i := ?n]\<rparr>"
  have out: "written c = written (h_conn h) @ map (\<lambda>d. WMsg (notification (n_namespace (notifiers h ! i))
      (sub_ID (the (n_sub (notifiers h ! i)))) d)) (n_buffer (notifiers h ! i))"
    by (rule codec.activate_out(1) [OF act [unfolded w]])
  have "wf_notifier ?n" using wf by (simp add: wf_notifier_def)
  then have "\<forall>n \<in> set (notifiers ?h). wf_notifier n"
    using Cons.prems(1) set_update_subset_insert [of "notifiers h" i ?n] by auto
  with Cons.IH [of ?h] Cons.prems obtain h' nts where
    "activate_all E nn ?h = Return h'" "written (h_conn h') = written (h_conn ?h) @ nts" "\<forall>w \<in> set nts. is_note w"
    by auto
  then show ?case
    using out act by (auto simp: activate_notifier_def is_note_def)
qed simp

lemma addSubscriptions_wf:
  assumes "\<forall>n \<in> set (notifiers h). wf_notifier n" and "\<forall>i \<in> set nn. i < length (notifiers h)"
  shows "\<forall>n \<in> set (notifiers (addSubscriptions nn h)). wf_notifier n"
  using assms
proof (induction nn arbitrary: h)
  case (Cons i nn)
  let ?n = "(notifiers h ! i)\<lparr>callReturned := True\<rparr>"
  let ?h = "h\<lparr>notifiers := (notifiers h)[i := ?n]\<rparr>"
  have "wf_notifier ?n" using Cons.prems by (auto simp: wf_notifier_def)
  then have wf: "\<forall>n \<in> set ((notifiers h)[i := ?n]). wf_notifier n"
    using Cons.prems(1) set_update_subset_insert [of "notifiers h" i ?n] by auto
  have i: "\<forall>j \<in> set nn. j < length ((notifiers h)[i := ?n])" using Cons.prems(2) by simp
  show ?case
  proof (cases "n_sub (notifiers h ! i)")
    case None
    then have "addSubscriptions (i # nn) h = addSubscriptions nn ?h" by (simp add: takeSubscription_def)
    with Cons.IH [of ?h] wf i show ?thesis by simp
  next
    case (Some sub)
    let ?h' = "?h\<lparr>serverSubs := AList.update (sub_ID sub) i (serverSubs h)\<rparr>"
    from Some have "addSubscriptions (i # nn) h = addSubscriptions nn ?h'" by (simp add: takeSubscription_def)
    with Cons.IH [of ?h'] wf i show ?thesis by simp
  qed
qed simp

text \<open>
  C3. A batch is answered by one array: whatever the services do, on a connection that accepts
  writes, the process of a batch ends, and it writes, in one value and before any notification,
  exactly one well-formed answer for each message that is neither a notification nor handled at
  once, in the order of the batch, with the ID of that message (null if it had no valid one).
\<close>

theorem handleBatch_answers:
  assumes "sys_reach E (h0, ps)" and "msgs \<noteq> []" and "handleBatch pick msgs h0 = Proceed (Some p, h)"
    and "e_write E = writeJSON (\<lambda>_. None) now dl"
  shows "\<exists>calls h' answers nts. p = startCallProc True calls \<and> calls = filter (\<lambda>m. \<not> immediate m) msgs
    \<and> runProc E True calls h = Return h'
    \<and> written (h_conn h') = written (h_conn h) @ answer_wire True answers @ nts
    \<and> list_all2 answers_to (filter (\<lambda>m. \<not> isNotification m) calls) answers
    \<and> (\<forall>w \<in> set nts. is_note w)"
proof -
  from assms(2,3) obtain calls where loop: "immediate_loop pick msgs [] h0 = Proceed (calls, h)"
    and p: "p = startCallProc True calls"
    by (auto simp: handleBatch_def step_bind_Proceed_iff split: if_splits)
  have calls: "calls = filter (\<lambda>m. \<not> immediate m) msgs" using immediate_loop_calls [OF loop] by simp
  have wf: "\<forall>n \<in> set (notifiers h). wf_notifier n"
    using sys_reach_inv [OF assms(1)] immediate_loop_server [OF loop] by (simp add: sys_inv_def srv_inv_def)
  obtain answers h1 nn where cl: "call_loop E calls [] h [] = (answers, h1, nn)" by (cases "call_loop E calls [] h []")
  have ans: "list_all2 answers_to (filter (\<lambda>m. \<not> isNotification m) calls) answers"
    using call_loop_answers [OF cl] by simp
  have st: "h_conn h1 = h_conn h" "\<forall>n \<in> set (notifiers h1). wf_notifier n" "\<forall>i \<in> set nn. i < length (notifiers h1)"
    using call_loop_state [OF cl wf] by auto
  define h2 where "h2 = addSubscriptions nn h1"
  have h2: "h_conn h2 = h_conn h" "length (notifiers h2) = length (notifiers h1)"
    "\<forall>n \<in> set (notifiers h2). wf_notifier n"
    using addSubscriptions_frame [of nn h1] st addSubscriptions_wf [OF st(2,3)]
    by (simp_all add: h2_def client_side_def)
  define h3 where "h3 = write_answers E True answers h2"
  have h3: "written (h_conn h3) = written (h_conn h) @ answer_wire True answers" "notifiers h3 = notifiers h2"
    using h2 by (auto simp: h3_def write_answers_def answer_wire_def assms(4) writeJSON_def Let_def)
  from activate_all_total [of h3 nn E, OF _ _ assms(4)] h2 h3 st obtain h' nts where
    "activate_all E nn h3 = Return h'" "written (h_conn h') = written (h_conn h3) @ nts" "\<forall>w \<in> set nts. is_note w"
    by auto
  moreover have "runProc E True calls h = activate_all E nn h3"
    by (simp add: runProc_def cl h2_def h3_def)
  ultimately show ?thesis using p calls ans h3(1)
    by (intro exI [of _ calls] exI [of _ h'] exI [of _ answers] exI [of _ nts]) simp
qed

theorem handleBatch_answers_witness:
  "\<exists>h' a nts. runProc demo_env True [demo_msg] demo_handler = Return h'
     \<and> written (h_conn h') = WBatch [a] # nts \<and> ID a = Some ''1''"
proof -
  have m: "\<not> isNotification demo_msg" "\<not> immediate demo_msg" "hasValidID demo_msg" "ID demo_msg = Some ''1''"
    by (simp_all add: demo_msg_def isNotification_def isResponse_def immediate_def hasValidID_def)
  then have b: "handleBatch (\<lambda>_. False) [demo_msg] demo_handler = Proceed (Some (startCallProc True [demo_msg]), demo_handler)"
    by (simp add: handleBatch_def handleImmediate_def immediate_def)
  have r: "sys_reach demo_env (demo_handler, [])" unfolding demo_handler_def by (rule sys_reach_init)
  have w: "e_write demo_env = writeJSON (\<lambda>_. None) 0 None" by (simp add: demo_env_def)
  have c: "written (h_conn demo_handler) = []" by (simp add: demo_handler_def newHandler_def NewFuncCodec_def)
  from handleBatch_answers [OF r _ b w] m c obtain h' answers nts where
    "runProc demo_env True [demo_msg] demo_handler = Return h'"
    "written (h_conn h') = answer_wire True answers @ nts" "list_all2 answers_to [demo_msg] answers"
    by (auto simp: startCallProc_def)
  then show ?thesis using m by (auto simp: list_all2_Cons1 answer_wire_def answers_to_def)
qed

section \<open>Call processes end\<close>

lemma proc_run_calls:
  assumes "cp_phase p = Calling" and "call_loop E (cp_todo p) (cp_answers p) h (cp_notifiers p) = (answers, h', nn)"
  shows "proc_run E (length (cp_todo p) + k) p h =
    proc_run E k (p\<lparr>cp_todo := [], cp_answers := answers, cp_notifiers := nn\<rparr>) h'"
  using assms
proof (induction "cp_todo p" arbitrary: p h)
  case Nil
  then show ?case by (cases p) auto
next
  case (Cons msg calls)
  obtain a h1 nn1 where c: "handleCallMsg E msg h (cp_notifiers p) = (a, h1, nn1)"
    by (cases "handleCallMsg E msg h (cp_notifiers p)")
  let ?p = "p\<lparr>cp_todo := calls, cp_notifiers := nn1,
    cp_answers := cp_answers p @ (case a of None \<Rightarrow> [] | Some x \<Rightarrow> [x])\<rparr>"
  have todo: "cp_todo p = msg # calls" using Cons.hyps(2) by simp
  have "proc_step E p h = Return (?p, h1)" using Cons.prems(1) c by (simp add: proc_step_def todo)
  moreover have "call_loop E (cp_todo ?p) (cp_answers ?p) h1 (cp_notifiers ?p) = (answers, h', nn)"
    using Cons.prems(2) c by (simp add: todo)
  ultimately show ?case
    using Cons.hyps(1) [of ?p h1] Cons.prems(1) by (simp add: todo)
qed

lemma proc_run_activate:
  "cp_phase p = Activating todo \<Longrightarrow>
   proc_run E (length todo + k) p h =
     outcome_bind (activate_all E todo h) (\<lambda>h. proc_run E k (p\<lparr>cp_phase := Activating []\<rparr>) h)"
proof (induction todo arbitrary: p h)
  case Nil
  then have "p\<lparr>cp_phase := Activating []\<rparr> = p" by (cases p) auto
  then show ?case by simp
next
  case (Cons i todo)
  show ?case
  proof (cases "activate_notifier E i h")
    case (Return h1)
    with Cons.prems have "proc_step E p h = Return (p\<lparr>cp_phase := Activating todo\<rparr>, h1)"
      by (simp add: proc_step_def)
    with Return Cons.IH [of "p\<lparr>cp_phase := Activating todo\<rparr>" h1] show ?thesis by simp
  next
    case (Panic x)
    with Cons.prems show ?thesis by (simp add: proc_step_def)
  qed
qed


end
