(* ===== verification/Rpc_Requests.thy ===== *)
theory Rpc_Requests
  imports Rpc_Client Rpc_Calls
begin

text \<open>
  The client under concurrency: callers that register, write, wait and time out, the server's
  messages in any order, lost connections, reconnection and shutdown. The invariant ties the map of
  waiting requests to the room in their channels, so that the dispatch loop never blocks on a
  delivery and never touches a closed channel.
\<close>

section \<open>The map of waiting requests\<close>

definition regs :: "nat \<Rightarrow> (string \<times> nat) list \<Rightarrow> nat" where
  "regs a rw = length (filter (\<lambda>e. snd e = a) rw)"

definition req_inv :: "(string \<times> nat) list \<Rightarrow> (nat \<Rightarrow> requestOp) \<Rightarrow> bool" where
  "req_inv rw os \<longleftrightarrow> distinct (map fst rw)
     \<and> (\<forall>(i, a) \<in> set rw. i \<in> set (op_ids (os a)) \<and> \<not> ch_closed (op_resp (os a)))
     \<and> (\<forall>a. op_sub (os a) = None \<longrightarrow> length (ch_buf (op_resp (os a))) + regs a rw \<le> ch_cap (op_resp (os a)))
     \<and> (\<forall>a. op_sub (os a) \<noteq> None \<longrightarrow> length (op_ids (os a)) \<le> 1)"

lemma regs_zero: "a \<notin> snd ` set rw \<Longrightarrow> regs a rw = 0"
  by (auto simp: regs_def filter_empty_conv)

lemma regs_pos: "(i, a) \<in> set rw \<Longrightarrow> 0 < regs a rw"
  by (auto simp: regs_def length_greater_0_conv filter_empty_conv simp del: length_greater_0_conv)
    (metis filter_empty_conv length_greater_0_conv snd_conv)

lemma regs_le_ids:
  assumes "distinct (map fst rw)" and "\<forall>(i, b) \<in> set rw. b = a \<longrightarrow> i \<in> S" and "finite S"
  shows "regs a rw \<le> card S"
proof -
  let ?r = "filter (\<lambda>e. snd e = a) rw"
  have "distinct (map fst ?r)" using assms(1) by (simp add: distinct_map_filter)
  moreover have "set (map fst ?r) \<subseteq> S" using assms(2) by auto
  ultimately have "length (map fst ?r) \<le> card S"
    using card_mono [OF assms(3)] distinct_card by metis
  then show ?thesis by (simp add: regs_def)
qed

lemma regs_delete_le: "regs b (AList.delete k rw) \<le> regs b rw"
  by (induction rw) (auto simp: regs_def AList.delete_eq)

lemma regs_delete:
  assumes "distinct (map fst rw)" and "map_of rw k = Some a"
  shows "regs a rw = Suc (regs a (AList.delete k rw))"
  using assms
proof (induction rw)
  case (Cons x rw)
  obtain i b where x: "x = (i, b)" by (cases x)
  show ?case
  proof (cases "i = k")
    case True
    with Cons.prems have "b = a" "AList.delete k rw = rw"
      by (force simp: x AList.delete_eq filter_id_conv)+
    with True show ?thesis by (simp add: x regs_def AList.delete_eq)
  next
    case False
    with Cons show ?thesis by (simp add: x regs_def AList.delete_eq)
  qed
qed simp

lemma regs_update_other: "b \<noteq> a \<Longrightarrow> regs b (AList.update i a rw) \<le> regs b rw"
  by (induction rw) (auto simp: regs_def)

text \<open>Registering and removing a request.\<close>

lemma foldl_update_props:
  fixes reqids :: "string list" and a :: nat and rw :: "(string \<times> nat) list"
  assumes "distinct (map fst rw)"
  defines "rw' \<equiv> foldl (\<lambda>m i. AList.update i a m) rw reqids"
  shows "distinct (map fst rw') \<and> (\<forall>(i, b) \<in> set rw'. (b = a \<and> i \<in> set reqids) \<or> (i, b) \<in> set rw)
    \<and> (\<forall>b. b \<noteq> a \<longrightarrow> regs b rw' \<le> regs b rw) \<and> (\<forall>i \<in> set reqids. map_of rw' i = Some a)"
  using assms(1) unfolding rw'_def
proof (induction reqids rule: rev_induct)
  case (snoc j reqids)
  let ?r = "foldl (\<lambda>m i. AList.update i a m) rw reqids"
  have IH: "distinct (map fst ?r)" "\<forall>(i, b) \<in> set ?r. (b = a \<and> i \<in> set reqids) \<or> (i, b) \<in> set rw"
    "\<forall>b. b \<noteq> a \<longrightarrow> regs b ?r \<le> regs b rw" "\<forall>i \<in> set reqids. map_of ?r i = Some a"
    using snoc by auto
  have 1: "distinct (map fst (AList.update j a ?r))" using IH(1) by (rule distinct_update)
  have 2: "(b = a \<and> i \<in> set (reqids @ [j])) \<or> (i, b) \<in> set rw" if "(i, b) \<in> set (AList.update j a ?r)" for i b
    using update_mem [OF that IH(1)] IH(2) by auto
  have 3: "regs b (AList.update j a ?r) \<le> regs b rw" if "b \<noteq> a" for b
    using regs_update_other [OF that] IH(3) that le_trans by blast
  have 4: "\<forall>i \<in> set (reqids @ [j]). map_of (AList.update j a ?r) i = Some a"
    using IH(4) by (auto simp: update_conv')
  show ?case using 1 2 3 4 by auto
qed auto

lemma foldl_delete_props:
  fixes reqids :: "string list" and rw :: "(string \<times> nat) list"
  assumes "distinct (map fst rw)"
  defines "rw' \<equiv> foldl (\<lambda>m i. AList.delete i m) rw reqids"
  shows "distinct (map fst rw') \<and> set rw' = {(i, b) \<in> set rw. i \<notin> set reqids} \<and> (\<forall>b. regs b rw' \<le> regs b rw)"
  using assms(1) unfolding rw'_def
proof (induction reqids rule: rev_induct)
  case (snoc j reqids)
  then show ?case
    by (auto simp: distinct_delete set_delete intro: order_trans [OF regs_delete_le])
qed auto

text \<open>A request that nothing has been delivered to.\<close>

definition untouched :: "requestOp \<Rightarrow> bool" where
  "untouched op \<longleftrightarrow> ch_buf (op_resp op) = [] \<and> \<not> ch_closed (op_resp op)"

definition op_shape :: "requestOp \<Rightarrow> bool" where
  "op_shape op \<longleftrightarrow> (case op_sub op of None \<Rightarrow> length (op_ids op) \<le> ch_cap (op_resp op) | Some _ \<Rightarrow> length (op_ids op) \<le> 1)"

lemma op_shapes [simp]:
  "op_shape (call_op i)" "op_shape (batch_op reqids)" "op_shape (subscribe_op i s)" "op_shape notify_op"
  "untouched (call_op i)" "untouched (batch_op reqids)" "untouched (subscribe_op i s)" "untouched notify_op"
  by (simp_all add: op_shape_def untouched_def call_op_def batch_op_def subscribe_op_def notify_op_def)

lemma op_shape_resp [simp]:
  "op_shape (op\<lparr>op_err := e\<rparr>) = op_shape op"
  "ch_cap ch = ch_cap (op_resp op) \<Longrightarrow> op_shape (op\<lparr>op_resp := ch\<rparr>) = op_shape op"
  by (simp_all add: op_shape_def split: option.split)

lemma addRequestOp_inv:
  assumes inv: "req_inv (respWait h) (ops h)" and a: "untouched (ops h a)" "op_shape (ops h a)"
  shows "req_inv (respWait (addRequestOp a h)) (ops (addRequestOp a h))"
proof -
  let ?rw = "respWait (addRequestOp a h)"
  have d: "distinct (map fst (respWait h))" using inv by (simp add: req_inv_def)
  note p = foldl_update_props [OF d, where a = a and reqids = "op_ids (ops h a)"]
  have rw: "?rw = foldl (\<lambda>m i. AList.update i a m) (respWait h) (op_ids (ops h a))" by (simp add: addRequestOp_def)
  have e: "\<forall>(i, b) \<in> set ?rw. i \<in> set (op_ids (ops h b)) \<and> \<not> ch_closed (op_resp (ops h b))"
  proof (intro ballI, clarify)
    fix i b assume "(i, b) \<in> set ?rw"
    then have "(b = a \<and> i \<in> set (op_ids (ops h a))) \<or> (i, b) \<in> set (respWait h)" using p unfolding rw by blast
    then show "i \<in> set (op_ids (ops h b)) \<and> \<not> ch_closed (op_resp (ops h b))"
      using inv a(1) by (auto simp: req_inv_def untouched_def)
  qed
  have "regs a ?rw \<le> card (set (op_ids (ops h a)))"
    using p e unfolding rw by (intro regs_le_ids) auto
  then have ra: "regs a ?rw \<le> length (op_ids (ops h a))" using card_length le_trans by blast
  have r: "length (ch_buf (op_resp (ops h b))) + regs b ?rw \<le> ch_cap (op_resp (ops h b))"
    if "op_sub (ops h b) = None" for b
  proof (cases "b = a")
    case True
    with ra a that show ?thesis by (simp add: untouched_def op_shape_def)
  next
    case False
    then have "regs b ?rw \<le> regs b (respWait h)" using p unfolding rw by blast
    moreover have "length (ch_buf (op_resp (ops h b))) + regs b (respWait h) \<le> ch_cap (op_resp (ops h b))"
      using inv that by (simp add: req_inv_def)
    ultimately show ?thesis by linarith
  qed
  have "\<forall>b. op_sub (ops h b) \<noteq> None \<longrightarrow> length (op_ids (ops h b)) \<le> 1" using inv by (simp add: req_inv_def)
  with p e r show ?thesis unfolding req_inv_def by (simp add: addRequestOp_def)
qed

lemma req_inv_subset:
  assumes "req_inv rw os" and "distinct (map fst rw')" and "set rw' \<subseteq> set rw" and "\<forall>b. regs b rw' \<le> regs b rw"
  shows "req_inv rw' os"
  using assms unfolding req_inv_def by (auto intro: order_trans [OF add_left_mono])

lemma req_inv_replace:
  assumes inv: "req_inv rw os" and a: "a \<notin> snd ` set rw" and shape: "op_sub op \<noteq> None \<longrightarrow> length (op_ids op) \<le> 1"
    and room: "op_sub op = None \<longrightarrow> length (ch_buf (op_resp op)) \<le> ch_cap (op_resp op)"
  shows "req_inv rw (os(a := op))"
proof -
  have "\<forall>(i, b) \<in> set rw. i \<in> set (op_ids ((os(a := op)) b)) \<and> \<not> ch_closed (op_resp ((os(a := op)) b))"
  proof (intro ballI, clarify)
    fix i b assume m: "(i, b) \<in> set rw"
    with a have "b \<noteq> a" by force
    with inv m show "i \<in> set (op_ids ((os(a := op)) b)) \<and> \<not> ch_closed (op_resp ((os(a := op)) b))"
      by (auto simp: req_inv_def)
  qed
  then show ?thesis using inv shape room regs_zero [OF a] by (simp add: req_inv_def)
qed

lemma removeRequestOp_inv:
  assumes "req_inv (respWait h) (ops h)"
  shows "req_inv (respWait (removeRequestOp a h)) (ops (removeRequestOp a h))"
proof -
  have "distinct (map fst (respWait h))" using assms by (simp add: req_inv_def)
  from foldl_delete_props [OF this, where reqids = "op_ids (ops h a)"] assms show ?thesis
    by (auto simp: removeRequestOp_def intro!: req_inv_subset [OF assms])
qed

section \<open>Responses\<close>

lemma regs_delete_other:
  assumes "map_of rw k = Some a" and "distinct (map fst rw)" and "b \<noteq> a"
  shows "regs b (AList.delete k rw) = regs b rw"
  using assms
proof (induction rw)
  case (Cons x rw)
  obtain i c where x: "x = (i, c)" by (cases x)
  show ?case
  proof (cases "i = k")
    case True
    with Cons.prems have "c = a" "AList.delete k rw = rw"
      by (force simp: x AList.delete_eq filter_id_conv)+
    with True Cons.prems(3) show ?thesis by (simp add: x regs_def AList.delete_eq)
  next
    case False
    with Cons show ?thesis by (simp add: x regs_def AList.delete_eq)
  qed
qed simp

text \<open>
  A delivery takes one registration of its request away and uses one place of the channel; a
  response to a subscription closes the channel, whose only registration it was.
\<close>

lemma handleResponse_safe:
  assumes inv: "req_inv (respWait h) (ops h)" and subs: "\<forall>s. \<exists>k. sub_inv (csubs h s) k"
  shows "\<exists>h'. handleResponse msg h = Proceed h' \<and> req_inv (respWait h') (ops h') \<and> (\<forall>s. \<exists>k. sub_inv (csubs h' s) k)
    \<and> set (respWait h') \<subseteq> set (respWait h)
    \<and> (\<forall>a. raw_bytes (ID msg) \<notin> set (op_ids (ops h a)) \<or> a \<notin> snd ` set (respWait h) \<longrightarrow> ops h' a = ops h a)
    \<and> (\<forall>a. op_ids (ops h' a) = op_ids (ops h a) \<and> op_shape (ops h' a) = op_shape (ops h a))"
proof (cases "map_of (respWait h) (raw_bytes (ID msg))")
  case None
  then show ?thesis using inv subs by (simp add: handleResponse_def)
next
  case (Some a)
  let ?k = "raw_bytes (ID msg)" let ?rw = "AList.delete ?k (respWait h)" let ?op = "ops h a"
  have d: "distinct (map fst (respWait h))" using inv by (simp add: req_inv_def)
  have mem: "(?k, a) \<in> set (respWait h)" using Some by (rule map_of_SomeD)
  have open': "\<not> ch_closed (op_resp ?op)" "?k \<in> set (op_ids ?op)" "a \<in> snd ` set (respWait h)"
    using inv mem by (force simp: req_inv_def)+
  have regs: "regs a (respWait h) = Suc (regs a ?rw)" using regs_delete [OF d Some] .
  have sub_rw: "set ?rw \<subseteq> set (respWait h)" "distinct (map fst ?rw)" by (auto simp: set_delete distinct_delete [OF d])
  show ?thesis
  proof (cases "op_sub ?op")
    case None
    have room: "length (ch_buf (op_resp ?op)) < ch_cap (op_resp ?op)"
    proof -
      have "length (ch_buf (op_resp ?op)) + regs a (respWait h) \<le> ch_cap (op_resp ?op)"
        using inv None by (simp add: req_inv_def)
      with regs show ?thesis by linarith
    qed
    let ?op' = "?op\<lparr>op_resp := (op_resp ?op)\<lparr>ch_buf := ch_buf (op_resp ?op) @ [msg]\<rparr>\<rparr>"
    let ?h' = "h\<lparr>respWait := ?rw, ops := (ops h)(a := ?op')\<rparr>"
    have "handleResponse msg h = Proceed ?h'"
      using Some None room open' by (simp add: handleResponse_def chan_send_def Let_def)
    moreover have "req_inv ?rw ((ops h)(a := ?op'))"
    proof -
      have "length (ch_buf (op_resp (((ops h)(a := ?op')) b))) + regs b ?rw \<le> ch_cap (op_resp (((ops h)(a := ?op')) b))"
        if "op_sub (((ops h)(a := ?op')) b) = None" for b
      proof (cases "b = a")
        case True
        have "length (ch_buf (op_resp ?op)) + regs a (respWait h) \<le> ch_cap (op_resp ?op)"
          using inv None by (simp add: req_inv_def)
        with True regs show ?thesis by simp
      next
        case False
        then show ?thesis using inv that regs_delete_other [OF Some d False] by (simp add: req_inv_def)
      qed
      moreover have "\<forall>(i, b) \<in> set ?rw. i \<in> set (op_ids (((ops h)(a := ?op')) b))
          \<and> \<not> ch_closed (op_resp (((ops h)(a := ?op')) b))"
        using inv sub_rw(1) by (auto simp: req_inv_def)
      moreover have "\<forall>b. op_sub (((ops h)(a := ?op')) b) \<noteq> None \<longrightarrow> length (op_ids (((ops h)(a := ?op')) b)) \<le> 1"
        using inv by (simp add: req_inv_def)
      ultimately show ?thesis using sub_rw(2) by (simp add: req_inv_def)
    qed
    ultimately show ?thesis using subs sub_rw open' by (intro exI [of _ ?h'] conjI) auto
  next
    case (Some s)
    have one: "regs a (respWait h) \<le> 1"
    proof -
      have "regs a (respWait h) \<le> card (set (op_ids ?op))"
        using inv d by (intro regs_le_ids) (auto simp: req_inv_def)
      also have "\<dots> \<le> length (op_ids ?op)" by (rule card_length)
      finally show ?thesis using inv Some by (force simp: req_inv_def)
    qed
    then have gone: "a \<notin> snd ` set ?rw" using regs regs_pos [of _ a ?rw] by force
    obtain err cs cl where h1: "handleResponse msg h =
        Proceed (h\<lparr>respWait := ?rw, csubs := cs, clientSubs := cl,
          ops := (ops h)(a := ?op\<lparr>op_err := err, op_resp := (op_resp ?op)\<lparr>ch_closed := True\<rparr>\<rparr>)\<rparr>)"
      and cs: "cs = csubs h \<or> (\<exists>sid. cs = (csubs h)(s := (csubs h s)\<lparr>cs_subid := sid, cs_started := True\<rparr>))"
    proof -
      show thesis
      proof (cases "Err msg")
        case (Some e)
        show thesis
          by (rule that [where cs = "csubs h" and cl = "clientSubs h" and err = "Some (JsonError e)"])
            (use \<open>map_of _ _ = Some a\<close> \<open>op_sub ?op = Some s\<close> open' Some in \<open>simp_all add: handleResponse_def chan_close_def Let_def\<close>)
      next
        case None
        show thesis
        proof (cases "unmarshal_string (Result msg) (cs_subid (csubs h s))")
          case (Inl e)
          show thesis
            by (rule that [where cs = "csubs h" and cl = "clientSubs h" and err = "Some e"])
              (use \<open>map_of _ _ = Some a\<close> \<open>op_sub ?op = Some s\<close> open' None Inl in \<open>simp_all add: handleResponse_def chan_close_def Let_def\<close>)
        next
          case (Inr sid)
          show thesis
            by (rule that [where cs = "(csubs h)(s := (csubs h s)\<lparr>cs_subid := sid, cs_started := True\<rparr>)"
                  and cl = "AList.update sid s (clientSubs h)" and err = None])
              (use \<open>map_of _ _ = Some a\<close> \<open>op_sub ?op = Some s\<close> open' None Inr in \<open>auto simp: handleResponse_def chan_close_def Let_def\<close>)
        qed
      qed
    qed
    have "req_inv ?rw ((ops h)(a := ?op\<lparr>op_err := err, op_resp := (op_resp ?op)\<lparr>ch_closed := True\<rparr>\<rparr>))"
    proof (rule req_inv_replace [OF _ gone])
      show "req_inv ?rw (ops h)" by (rule req_inv_subset [OF inv sub_rw(2,1)]) (simp add: regs_delete_le)
    qed (use inv Some in \<open>simp_all add: req_inv_def\<close>)
    moreover have "\<forall>t. \<exists>k. sub_inv (cs t) k"
      using cs subs by (auto simp: sub_inv_def)
    ultimately show ?thesis unfolding h1 using sub_rw open' by (simp only: chan_step.inject ex_simps simp_thms) auto
  qed
qed

section \<open>Shutdown\<close>

lemma cancel_ops_ok:
  assumes "\<forall>(i, a) \<in> set rw. a \<notin> set did \<longrightarrow> \<not> ch_closed (op_resp (os a))"
  shows "cancel_ops err did rw os = Proceed (\<lambda>a. if a \<in> snd ` set rw \<and> a \<notin> set did
      then (os a)\<lparr>op_err := Some err, op_resp := (op_resp (os a))\<lparr>ch_closed := True\<rparr>\<rparr> else os a)"
  using assms
proof (induction err did rw os rule: cancel_ops.induct)
  case (1 err did os)
  show ?case by simp
next
  case (2 err did i a rest os)
  show ?case
  proof (cases "a \<in> set did")
    case True
    with 2 show ?thesis by (auto simp: fun_eq_iff)
  next
    case False
    let ?op = "(os a)\<lparr>op_err := Some err, op_resp := (op_resp (os a))\<lparr>ch_closed := True\<rparr>\<rparr>"
    have cl: "chan_close (op_resp (os a)) = Proceed ((op_resp (os a))\<lparr>ch_closed := True\<rparr>)"
      using 2(3) False by (auto simp: chan_close_def)
    have "\<forall>(j, b) \<in> set rest. b \<notin> set (a # did) \<longrightarrow> \<not> ch_closed (op_resp ((os(a := ?op)) b))"
      using 2(3) by auto
    note IH = 2(2) [OF False this]
    have "cancel_ops err did ((i, a) # rest) os = cancel_ops err (a # did) rest (os(a := ?op))"
      using False cl by simp
    also note IH
    also have "(\<lambda>b. if b \<in> snd ` set rest \<and> b \<notin> set (a # did)
        then ((os(a := ?op)) b)\<lparr>op_err := Some err, op_resp := (op_resp ((os(a := ?op)) b))\<lparr>ch_closed := True\<rparr>\<rparr>
        else (os(a := ?op)) b) =
      (\<lambda>b. if b \<in> snd ` set ((i, a) # rest) \<and> b \<notin> set did
        then (os b)\<lparr>op_err := Some err, op_resp := (op_resp (os b))\<lparr>ch_closed := True\<rparr>\<rparr> else os b)"
      using False by (rule_tac ext) auto
    finally show ?thesis .
  qed
qed

lemma cancel_subs_ok:
  assumes "\<forall>s. \<exists>k. sub_inv (cs s) k"
  shows "\<exists>cs'. cancel_subs err subs cs = Proceed cs' \<and> (\<forall>s. \<exists>k. sub_inv (cs' s) k)
    \<and> (\<forall>s \<in> snd ` set subs. quitOnce (cs' s)) \<and> (\<forall>s. quitOnce (cs s) \<longrightarrow> quitOnce (cs' s))"
  using assms
proof (induction subs arbitrary: cs)
  case (Cons x subs)
  obtain i s where x: "x = (i, s)" by (cases x)
  obtain k where "sub_inv (cs s) k" using Cons.prems by blast
  then obtain s' where s': "quitWithError False (Some err) (cs s) = Proceed s'" "sub_inv s' k" "quitOnce s'"
    using quitWithError_inv by blast
  then have "\<forall>t. \<exists>k. sub_inv ((cs(s := s')) t) k" using Cons.prems by auto
  from Cons.IH [OF this] obtain cs' where
    "cancel_subs err subs (cs(s := s')) = Proceed cs'" "\<forall>s. \<exists>k. sub_inv (cs' s) k"
    "\<forall>s \<in> snd ` set subs. quitOnce (cs' s)" "\<forall>t. quitOnce ((cs(s := s')) t) \<longrightarrow> quitOnce (cs' t)" by blast
  then show ?case using s' by (auto simp: x)
qed simp

lemma set_sub_err_same:
  shows "n_buffer (set_sub_err i ch ns ! j) = n_buffer (ns ! j)"
    "callReturned (set_sub_err i ch ns ! j) = callReturned (ns ! j)"
    "activated (set_sub_err i ch ns ! j) = activated (ns ! j)"
    "(n_sub (set_sub_err i ch ns ! j) = None) = (n_sub (ns ! j) = None)"
proof -
  have "n_buffer (set_sub_err i ch ns ! j) = n_buffer (ns ! j)
    \<and> callReturned (set_sub_err i ch ns ! j) = callReturned (ns ! j)
    \<and> activated (set_sub_err i ch ns ! j) = activated (ns ! j)
    \<and> (n_sub (set_sub_err i ch ns ! j) = None) = (n_sub (ns ! j) = None)"
  proof (cases "i < length ns \<and> i = j")
    case True
    then show ?thesis by (simp add: set_sub_err_def)
  next
    case False
    then have "set_sub_err i ch ns ! j = ns ! j" unfolding set_sub_err_def
      by (cases "i < length ns") (simp_all add: list_update_beyond)
    then show ?thesis by simp
  qed
  then show "n_buffer (set_sub_err i ch ns ! j) = n_buffer (ns ! j)"
    "callReturned (set_sub_err i ch ns ! j) = callReturned (ns ! j)"
    "activated (set_sub_err i ch ns ! j) = activated (ns ! j)"
    "(n_sub (set_sub_err i ch ns ! j) = None) = (n_sub (ns ! j) = None)" by blast+
qed

lemma cancel_server_subs_flags:
  assumes "cancel_server_subs err subs ns = Proceed ns'"
  shows "length ns' = length ns \<and> (\<forall>j. callReturned (ns' ! j) = callReturned (ns ! j)
    \<and> activated (ns' ! j) = activated (ns ! j) \<and> n_buffer (ns' ! j) = n_buffer (ns ! j)
    \<and> (n_sub (ns' ! j) = None) = (n_sub (ns ! j) = None))"
  using assms
proof (induction err subs ns rule: cancel_server_subs.induct)
  case (2 err sid i rest ns)
  then obtain s ch ch' where s: "n_sub (ns ! i) = Some s" "chan_send err (sub_err s) = Proceed ch"
    "chan_close ch = Proceed ch'" "cancel_server_subs err rest (set_sub_err i ch' ns) = Proceed ns'"
    by (auto simp: step_bind_Proceed_iff split: option.splits)
  from 2(1) [OF s(1,4)] show ?case by (simp add: set_sub_err_same)
qed simp

lemma srv_inv_cancelled:
  assumes inv: "srv_inv ns subs" and c: "cancel_server_subs err subs ns = Proceed ns'"
  shows "srv_inv ns' []"
proof -
  note f = cancel_server_subs_flags [OF c]
  have "distinct (map snd subs)" "\<forall>(sid, i) \<in> set subs. i < length ns
      \<and> (\<exists>s. n_sub (ns ! i) = Some s \<and> sub_ID s = sid \<and> sub_err s = make_chan 1)"
    using inv unfolding srv_inv_def by blast+
  from cancel_server_subs_ok [OF this, of err] c
  have same: "\<forall>i. i \<notin> snd ` set subs \<longrightarrow> ns' ! i = ns ! i" by auto
  have "wf_notifier (ns' ! j) \<and> (\<not> callReturned (ns' ! j) \<longrightarrow> fresh_notifier (ns' ! j))" if j: "j < length ns" for j
  proof -
    have "wf_notifier (ns ! j)" "\<not> callReturned (ns ! j) \<longrightarrow> fresh_notifier (ns ! j)"
      using inv nth_mem [OF j] by (auto simp: srv_inv_def)
    moreover have "j \<in> snd ` set subs \<Longrightarrow> callReturned (ns ! j)" using inv by (force simp: srv_inv_def)
    moreover have "wf_notifier (ns' ! j) = wf_notifier (ns ! j)" using f by (simp add: wf_notifier_def)
    ultimately show ?thesis using f same by metis
  qed
  with f show ?thesis by (auto simp: srv_inv_def in_set_conv_nth)
qed

text \<open>What closing a handler does to the requests.\<close>

definition cancelled :: "rpc_error \<Rightarrow> nat option \<Rightarrow> (string \<times> nat) list \<Rightarrow> (nat \<Rightarrow> requestOp) \<Rightarrow> nat \<Rightarrow> requestOp" where
  "cancelled err infl rw os a =
     (if a \<in> snd ` set rw \<and> infl \<noteq> Some a
      then (os a)\<lparr>op_err := Some err, op_resp := (op_resp (os a))\<lparr>ch_closed := True\<rparr>\<rparr> else os a)"

lemma handler_close_ok:
  assumes req: "req_inv (respWait h) (ops h)" and subs: "\<forall>s. \<exists>k. sub_inv (csubs h s) k"
    and srv: "srv_inv (notifiers h) (serverSubs h)"
  shows "\<exists>h'. handler_close err infl h = Proceed h' \<and> respWait h' = [] \<and> clientSubs h' = []
    \<and> ops h' = cancelled err infl (respWait h) (ops h)
    \<and> (\<forall>s. \<exists>k. sub_inv (csubs h' s) k) \<and> srv_inv (notifiers h') (serverSubs h')
    \<and> length (notifiers h') = length (notifiers h)
    \<and> (\<forall>j. callReturned (notifiers h' ! j) = callReturned (notifiers h ! j)
         \<and> activated (notifiers h' ! j) = activated (notifiers h ! j))"
proof -
  let ?did = "case infl of None \<Rightarrow> [] | Some a \<Rightarrow> [a]"
  have "\<forall>(i, a) \<in> set (respWait h). a \<notin> set ?did \<longrightarrow> \<not> ch_closed (op_resp (ops h a))"
    using req by (auto simp: req_inv_def)
  then have c1: "cancel_ops err ?did (respWait h) (ops h) = Proceed (cancelled err infl (respWait h) (ops h))"
    by (subst cancel_ops_ok) (auto simp: cancelled_def fun_eq_iff split: option.split)
  obtain cs where c2: "cancel_subs err (clientSubs h) (csubs h) = Proceed cs" and cs: "\<forall>s. \<exists>k. sub_inv (cs s) k"
    using cancel_subs_ok [OF subs] by blast
  have "distinct (map snd (serverSubs h))" "\<forall>(sid, i) \<in> set (serverSubs h). i < length (notifiers h)
      \<and> (\<exists>s. n_sub (notifiers h ! i) = Some s \<and> sub_ID s = sid \<and> sub_err s = make_chan 1)"
    using srv unfolding srv_inv_def by blast+
  from cancel_server_subs_ok [OF this, of err] obtain ns where
    c3: "cancel_server_subs err (serverSubs h) (notifiers h) = Proceed ns" by blast
  let ?h' = "h\<lparr>respWait := [], ops := cancelled err infl (respWait h) (ops h), clientSubs := [], csubs := cs,
    rootCanceled := True, notifiers := ns, serverSubs := []\<rparr>"
  have "handler_close err infl h = Proceed ?h'"
    by (simp add: handler_close_def cancelAllRequests_def c1 c2 cancelServerSubscriptions_def c3)
  with cs srv_inv_cancelled [OF srv c3] cancel_server_subs_flags [OF c3] show ?thesis
    by (intro exI [of _ ?h'] conjI) auto
qed

lemma cancelled_inv:
  assumes "req_inv rw os"
  shows "req_inv [] (cancelled err infl rw os)"
proof -
  have "length (ch_buf (op_resp (os a))) \<le> ch_cap (op_resp (os a))" if "op_sub (os a) = None" for a
    using assms that add_leD1 unfolding req_inv_def by blast
  then show ?thesis using assms by (auto simp: req_inv_def cancelled_def regs_def)
qed

lemma cancelled_fields [simp]:
  "op_ids (cancelled err infl rw os a) = op_ids (os a)"
  "op_shape (cancelled err infl rw os a) = op_shape (os a)"
  by (simp_all add: cancelled_def)

section \<open>The client as a transition system\<close>

text \<open>
  How far the caller of a request is: it has created it (\<open>Ready\<close>), the dispatch loop has taken it and
  the write is under way (\<open>Sending\<close>), the write has succeeded (\<open>Sent\<close>), the dispatch loop has seen
  that (\<open>Waiting\<close>), or the caller has given up or the write has failed (\<open>Over\<close>).
\<close>

datatype op_status = Unused | Ready | Sending | Sent | Waiting | Over

type_synonym ('f, 'g) csys = "('f, 'g) client \<times> (nat \<Rightarrow> op_status)"

text \<open>
  When an event can reach the dispatch loop. Two facts about the environment are in it: the read
  loop hands over at least one message outside a batch, and the server does not answer a request
  before its write has succeeded.
\<close>

fun enabled :: "dispatch_event \<Rightarrow> ('f, 'g) csys \<Rightarrow> bool" where
  "enabled EvClose (c, st) = True"
| "enabled (EvReadOp pick msgs batch) (c, st) \<longleftrightarrow>
     c_reading c \<and> (batch \<or> msgs \<noteq> [])
     \<and> (\<forall>a. c_lastOp c = Some a \<and> st a = Sending \<longrightarrow>
          (\<forall>m \<in> set msgs. raw_bytes (ID m) \<notin> set (op_ids (ops (c_handler c) a))))"
| "enabled (EvReadErr err) (c, st) = c_reading c"
| "enabled (EvReconnected codec) (c, st) = (\<exists>a. c_lastOp c = Some a \<and> st a = Sending)"
| "enabled (EvReqInit a) (c, st) = (st a = Ready)"
| "enabled (EvReqSent err) (c, st) =
     (\<exists>a. c_lastOp c = Some a \<and> (case err of None \<Rightarrow> st a \<in> {Sent, Over} | Some _ \<Rightarrow> st a = Sending))"
| "enabled (EvReqTimeout a) (c, st) = (st a \<in> {Sent, Waiting})"

fun after :: "dispatch_event \<Rightarrow> ('f, 'g) csys \<Rightarrow> nat \<Rightarrow> op_status" where
  "after (EvReqInit a) (c, st) = st(a := Sending)"
| "after (EvReqSent err) (c, st) =
     (case c_lastOp c of
        None \<Rightarrow> st
      | Some a \<Rightarrow> st(a := (if err \<noteq> None then Over else if st a = Sent then Waiting else st a)))"
| "after (EvReqTimeout a) (c, st) = st(a := Over)"
| "after _ (c, st) = st"

definition map_handler ::
  "(('f, jsonCodec, 'g) handler \<Rightarrow> ('f, jsonCodec, 'g) handler) \<Rightarrow> ('f, 'g) client \<Rightarrow> ('f, 'g) client" where
  "map_handler f c = c\<lparr>c_handler := f (c_handler c)\<rparr>"

inductive client_step :: "('f, 'v, jsonCodec, 'g) env \<Rightarrow> ('f, 'g) csys \<Rightarrow> ('f, 'g) csys \<Rightarrow> bool" for E where
  new_op: "st a = Unused \<Longrightarrow> op \<in> {call_op i, batch_op reqids, subscribe_op i s, notify_op} \<Longrightarrow>
    client_step E (c, st) (map_handler (\<lambda>h. h\<lparr>ops := (ops h)(a := op)\<rparr>) c, st(a := Ready))"
| event: "c_running c \<Longrightarrow> enabled ev (c, st) \<Longrightarrow> dispatch ev c = Proceed c' \<Longrightarrow>
    client_step E (c, st) (c', after ev (c, st))"
| write_done: "c_lastOp c = Some a \<Longrightarrow> st a = Sending \<Longrightarrow> client_step E (c, st) (c, st(a := Sent))"
| receive: "st a \<in> {Sent, Waiting} \<Longrightarrow> op_wait (ops (c_handler c) a) = Proceed (r, op) \<Longrightarrow>
    client_step E (c, st) (map_handler (\<lambda>h. h\<lparr>ops := (ops h)(a := op)\<rparr>) c, st)"
| sub_quit: "quitWithError u e (csubs (c_handler c) s) = Proceed s' \<Longrightarrow>
    client_step E (c, st) (map_handler (\<lambda>h. h\<lparr>csubs := (csubs h)(s := s')\<rparr>) c, st)"
| sub_unsubscribe: "Unsubscribe (csubs (c_handler c) s) = Proceed s' \<Longrightarrow>
    client_step E (c, st) (map_handler (\<lambda>h. h\<lparr>csubs := (csubs h)(s := s')\<rparr>) c, st)"
| sub_receive: "chan_recv (cs_err (csubs (c_handler c) s)) = Proceed (v, ch) \<Longrightarrow>
    client_step E (c, st) (map_handler (\<lambda>h. h\<lparr>csubs := (csubs h)(s := (csubs h s)\<lparr>cs_err := ch\<rparr>)\<rparr>) c, st)"
| process: "j < length (c_procs c) \<Longrightarrow> proc_step E (c_procs c ! j) (c_handler c) = Return (p, h) \<Longrightarrow>
    client_step E (c, st) (c\<lparr>c_handler := h, c_procs := (c_procs c)[j := p]\<rparr>, st)"

text \<open>The client starts without requests; the subscriptions are the ones it will create.\<close>

definition client_start :: "('f, 'g) csys \<Rightarrow> bool" where
  "client_start s \<longleftrightarrow>
     (\<exists>codec g reg ns. s = (initClient codec g reg (\<lambda>_. notify_op) (\<lambda>s. newClientSubscription (ns s)), \<lambda>_. Unused))"

definition client_reach :: "('f, 'v, jsonCodec, 'g) env \<Rightarrow> ('f, 'g) csys \<Rightarrow> bool" where
  "client_reach E = reach client_start (client_step E)"

lemma client_reach_init:
  "client_reach E (initClient codec g reg (\<lambda>_. notify_op) (\<lambda>s. newClientSubscription (ns s)), \<lambda>_. Unused)"
  unfolding client_reach_def by (rule reach.start) (auto simp: client_start_def)

lemma client_reach_step: "client_reach E s \<Longrightarrow> client_step E s s' \<Longrightarrow> client_reach E s'"
  unfolding client_reach_def by (rule reach.step)

definition client_inv :: "('f, 'g) csys \<Rightarrow> bool" where
  "client_inv cs \<longleftrightarrow> (let (c, st) = cs; h = c_handler c in
     req_inv (respWait h) (ops h) \<and> (\<forall>s. \<exists>k. sub_inv (csubs h s) k) \<and> sys_inv (h, c_procs c)
     \<and> c_locked c = (c_lastOp c \<noteq> None)
     \<and> (\<forall>a. op_shape (ops h a))
     \<and> (\<forall>a. st a \<in> {Unused, Ready} \<or> st a = Sending \<and> c_running c \<longrightarrow> untouched (ops h a))
     \<and> (\<forall>a. st a \<in> {Unused, Ready} \<longrightarrow> a \<notin> snd ` set (respWait h))
     \<and> (\<forall>a. st a = Sending \<longrightarrow> c_lastOp c = Some a)
     \<and> (\<forall>a. c_lastOp c = Some a \<longrightarrow> st a \<in> {Sending, Sent, Over}))"

text \<open>The parts of the invariant, for use.\<close>

lemma client_invD:
  assumes "client_inv (c, st)"
  shows "req_inv (respWait (c_handler c)) (ops (c_handler c))" "\<forall>s. \<exists>k. sub_inv (csubs (c_handler c) s) k"
    "sys_inv (c_handler c, c_procs c)" "c_locked c = (c_lastOp c \<noteq> None)" "op_shape (ops (c_handler c) a)"
    "st a \<in> {Unused, Ready} \<or> st a = Sending \<and> c_running c \<Longrightarrow> untouched (ops (c_handler c) a)"
    "st a \<in> {Unused, Ready} \<Longrightarrow> a \<notin> snd ` set (respWait (c_handler c))"
    "st a = Sending \<Longrightarrow> c_lastOp c = Some a" "c_lastOp c = Some a \<Longrightarrow> st a \<in> {Sending, Sent, Over}"
  using assms unfolding client_inv_def Let_def prod.case by blast+

lemma client_invI:
  assumes "req_inv (respWait (c_handler c)) (ops (c_handler c))" and "\<forall>s. \<exists>k. sub_inv (csubs (c_handler c) s) k"
    and "sys_inv (c_handler c, c_procs c)" and "c_locked c = (c_lastOp c \<noteq> None)"
    and "\<And>a. op_shape (ops (c_handler c) a)"
    and "\<And>a. st a \<in> {Unused, Ready} \<or> st a = Sending \<and> c_running c \<Longrightarrow> untouched (ops (c_handler c) a)"
    and "\<And>a. st a \<in> {Unused, Ready} \<Longrightarrow> a \<notin> snd ` set (respWait (c_handler c))"
    and "\<And>a. st a = Sending \<Longrightarrow> c_lastOp c = Some a" and "\<And>a. c_lastOp c = Some a \<Longrightarrow> st a \<in> {Sending, Sent, Over}"
  shows "client_inv (c, st)"
  using assms unfolding client_inv_def Let_def prod.case by blast

text \<open>What handling messages with the given IDs may do to the requests and subscriptions.\<close>

definition msgs_ok :: "string set \<Rightarrow> ('f, 'c, 'g) handler \<Rightarrow> ('f, 'c, 'g) handler \<Rightarrow> bool" where
  "msgs_ok I h h' \<longleftrightarrow> req_inv (respWait h') (ops h') \<and> (\<forall>s. \<exists>k. sub_inv (csubs h' s) k)
     \<and> set (respWait h') \<subseteq> set (respWait h)
     \<and> (\<forall>a. set (op_ids (ops h a)) \<inter> I = {} \<or> a \<notin> snd ` set (respWait h) \<longrightarrow> ops h' a = ops h a)
     \<and> (\<forall>a. op_ids (ops h' a) = op_ids (ops h a) \<and> op_shape (ops h' a) = op_shape (ops h a))
     \<and> notifiers h' = notifiers h \<and> serverSubs h' = serverSubs h"

lemma msgs_ok_refl: "req_inv (respWait h) (ops h) \<Longrightarrow> \<forall>s. \<exists>k. sub_inv (csubs h s) k \<Longrightarrow> msgs_ok I h h"
  by (simp add: msgs_ok_def)

lemma msgs_ok_trans:
  assumes "msgs_ok I h h1" and "msgs_ok J h1 h2"
  shows "msgs_ok (I \<union> J) h h2"
proof -
  have "ops h2 a = ops h a" if "set (op_ids (ops h a)) \<inter> (I \<union> J) = {} \<or> a \<notin> snd ` set (respWait h)" for a
  proof -
    have "ops h1 a = ops h a" using assms(1) that unfolding msgs_ok_def by blast
    moreover have "set (op_ids (ops h1 a)) \<inter> J = {} \<or> a \<notin> snd ` set (respWait h1)"
      using that assms(1) unfolding msgs_ok_def by (metis Un_Int_eq(4) Int_Un_distrib Un_empty image_mono subset_iff)
    ultimately show ?thesis using assms(2) unfolding msgs_ok_def by metis
  qed
  then show ?thesis using assms unfolding msgs_ok_def by auto
qed

lemma deliver_inv: "sub_inv s k \<Longrightarrow> deliver pick r s = (b, s') \<Longrightarrow> sub_inv s' k"
  by (auto simp: sub_inv_def deliver_def split: if_splits)

lemma handleSubscriptionResult_ok:
  assumes "req_inv (respWait h) (ops h)" and "\<forall>s. \<exists>k. sub_inv (csubs h s) k"
  shows "msgs_ok I h (handleSubscriptionResult pick msg h)"
proof -
  have "\<exists>k. sub_inv (snd (deliver pick r (csubs h s))) k" for r s
    using assms(2) deliver_inv by (metis prod.collapse)
  then show ?thesis using assms by (auto simp: msgs_ok_def handleSubscriptionResult_def split: option.split)
qed

lemma handleImmediate_ok:
  assumes "req_inv (respWait h) (ops h)" and "\<forall>s. \<exists>k. sub_inv (csubs h s) k"
  shows "\<exists>b h'. handleImmediate pick msg h = Proceed (b, h') \<and> msgs_ok {raw_bytes (ID msg)} h h'"
proof -
  obtain h1 where h1: "handleResponse msg h = Proceed h1"
    "req_inv (respWait h1) (ops h1)" "\<forall>s. \<exists>k. sub_inv (csubs h1 s) k" "set (respWait h1) \<subseteq> set (respWait h)"
    "\<forall>a. raw_bytes (ID msg) \<notin> set (op_ids (ops h a)) \<or> a \<notin> snd ` set (respWait h) \<longrightarrow> ops h1 a = ops h a"
    "\<forall>a. op_ids (ops h1 a) = op_ids (ops h a) \<and> op_shape (ops h1 a) = op_shape (ops h a)"
    using handleResponse_safe [OF assms] by blast
  have r: "handleImmediate pick msg h = Proceed (True, h1)" if "\<not> isNotification msg" "isResponse msg"
    using that h1(1) by (simp add: handleImmediate_def)
  have "msgs_ok {raw_bytes (ID msg)} h h1" if "\<not> isNotification msg" "isResponse msg"
    using h1 handleImmediate_server [OF r [OF that]] unfolding msgs_ok_def by auto
  with r msgs_ok_refl [OF assms] handleSubscriptionResult_ok [OF assms] show ?thesis
    by (auto simp: handleImmediate_def)
qed

lemma immediate_loop_ok:
  assumes "req_inv (respWait h) (ops h)" and "\<forall>s. \<exists>k. sub_inv (csubs h s) k"
  shows "\<exists>calls' h'. immediate_loop pick msgs calls h = Proceed (calls', h')
    \<and> msgs_ok ((\<lambda>m. raw_bytes (ID m)) ` set msgs) h h'"
  using assms
proof (induction msgs arbitrary: calls h)
  case Nil
  then show ?case by (simp add: msgs_ok_refl)
next
  case (Cons msg msgs)
  obtain b h1 where h1: "handleImmediate (pick (length msgs)) msg h = Proceed (b, h1)" "msgs_ok {raw_bytes (ID msg)} h h1"
    using handleImmediate_ok [OF Cons.prems] by blast
  then have "req_inv (respWait h1) (ops h1)" "\<forall>s. \<exists>k. sub_inv (csubs h1 s) k" by (simp_all add: msgs_ok_def)
  from Cons.IH [OF this] obtain calls' h' where
    "immediate_loop pick msgs (if b then calls else calls @ [msg]) h1 = Proceed (calls', h')"
    "msgs_ok ((\<lambda>m. raw_bytes (ID m)) ` set msgs) h1 h'" by blast
  with h1 msgs_ok_trans [OF h1(2)] show ?case by fastforce
qed

lemma handle_messages_ok:
  assumes "req_inv (respWait h) (ops h)" and "\<forall>s. \<exists>k. sub_inv (csubs h s) k"
  shows "\<exists>po h'. handleMsg pick0 msg h = Proceed (po, h') \<and> msgs_ok {raw_bytes (ID msg)} h h'"
    and "\<exists>po h'. handleBatch pick msgs h = Proceed (po, h') \<and> msgs_ok ((\<lambda>m. raw_bytes (ID m)) ` set msgs) h h'"
proof -
  show "\<exists>po h'. handleMsg pick0 msg h = Proceed (po, h') \<and> msgs_ok {raw_bytes (ID msg)} h h'"
    using handleImmediate_ok [OF assms, of pick0 msg] by (auto simp: handleMsg_def)
  show "\<exists>po h'. handleBatch pick msgs h = Proceed (po, h') \<and> msgs_ok ((\<lambda>m. raw_bytes (ID m)) ` set msgs) h h'"
  proof (cases "msgs = []")
    case True
    then show ?thesis using msgs_ok_refl [OF assms] by (simp add: handleBatch_def)
  next
    case False
    then show ?thesis using immediate_loop_ok [OF assms, of pick msgs "[]"] by (auto simp: handleBatch_def)
  qed
qed

lemma conn_close_ok:
  assumes inv: "client_inv (c, st)" and fin: "\<forall>p \<in> set (c_procs c). cp_phase p = Finished"
  shows "\<exists>h. conn_close err infl c = Proceed (c\<lparr>c_handler := h\<rparr>) \<and> respWait h = []
    \<and> ops h = cancelled err infl (respWait (c_handler c)) (ops (c_handler c))
    \<and> (\<forall>s. \<exists>k. sub_inv (csubs h s) k) \<and> sys_inv (h, c_procs c)"
proof -
  note I = client_invD [OF inv]
  have srv: "srv_inv (notifiers (c_handler c)) (serverSubs (c_handler c))"
    and procs: "procs_ok (notifiers (c_handler c)) (c_procs c)"
    using I(3) by (simp_all add: sys_inv_def)
  from handler_close_ok [OF I(1,2) srv, of err infl] obtain h where
    h: "handler_close err infl (c_handler c) = Proceed h" "respWait h = []"
      "ops h = cancelled err infl (respWait (c_handler c)) (ops (c_handler c))"
      "\<forall>s. \<exists>k. sub_inv (csubs h s) k" "srv_inv (notifiers h) (serverSubs h)"
      "length (notifiers h) = length (notifiers (c_handler c))"
      "\<forall>j. callReturned (notifiers h ! j) = callReturned (notifiers (c_handler c) ! j)
         \<and> activated (notifiers h ! j) = activated (notifiers (c_handler c) ! j)" by blast
  have "procs_ok (notifiers h) (c_procs c)"
    by (rule procs_ok_flags [OF procs h(6)]) (use h(7) in blast)
  with h fin show ?thesis
    by (intro exI [of _ "h\<lparr>h_conn := codec_close (h_conn h)\<rparr>"]) (simp add: conn_close_def sys_inv_def)
qed

lemma conn_close_blocked:
  "\<not> (\<forall>p \<in> set (c_procs c). cp_phase p = Finished) \<Longrightarrow> conn_close err infl c = Blocked"
  unfolding conn_close_def by (rule if_not_P)

lemma cancelled_other: "a \<notin> snd ` set rw \<or> infl = Some a \<Longrightarrow> cancelled err infl rw os a = os a"
  by (auto simp: cancelled_def)

text \<open>The invariant after a shutdown that spares the request being sent.\<close>

lemma close_inv:
  assumes inv: "client_inv (c, st)" and h: "respWait h = []"
    "ops h = cancelled err infl (respWait (c_handler c)) (ops (c_handler c))"
    "\<forall>s. \<exists>k. sub_inv (csubs h s) k" "sys_inv (h, c_procs c)"
    and infl: "infl = c_lastOp c \<or> \<not> run" and run: "run \<longrightarrow> c_running c"
  shows "client_inv (c\<lparr>c_handler := h, c_running := run, c_closing := b1, c_didClose := b2, c_reading := b3\<rparr>, st)"
proof -
  note I = client_invD [OF inv]
  have "req_inv (respWait h) (ops h)" unfolding h by (rule cancelled_inv [OF I(1)])
  moreover have "op_shape (ops h a)" for a using I(5) by (simp add: h)
  moreover have "untouched (ops h a)" if "st a \<in> {Unused, Ready} \<or> st a = Sending \<and> run" for a
    using I(6,7,8) [of a] that infl run by (auto simp: h cancelled_other)
  ultimately show ?thesis
    using I(4,8,9) h(1,3,4) by (intro client_invI) simp_all
qed

text \<open>The invariant after messages whose IDs are not those of the request being sent.\<close>

lemma messages_inv:
  assumes inv: "client_inv (c, st)" and ok: "msgs_ok I (c_handler c) h"
    and new: "procs_ok (notifiers (c_handler c)) ps"
    and ids: "\<forall>a. c_lastOp c = Some a \<and> st a = Sending \<longrightarrow> set (op_ids (ops (c_handler c) a)) \<inter> I = {}"
  shows "client_inv (c\<lparr>c_handler := h, c_procs := ps\<rparr>, st)"
proof -
  note D = client_invD [OF inv]
  have same: "ops h a = ops (c_handler c) a" if "st a \<in> {Unused, Ready} \<or> st a = Sending" for a
    using ok D(7,8) [of a] ids that unfolding msgs_ok_def by blast
  have "untouched (ops h a)" if "st a \<in> {Unused, Ready} \<or> st a = Sending \<and> c_running c" for a
    using same [of a] D(6) [of a] that by auto
  moreover have "a \<notin> snd ` set (respWait h)" if "st a \<in> {Unused, Ready}" for a
    using D(7) [OF that] ok unfolding msgs_ok_def by blast
  moreover have "sys_inv (h, ps)" using ok D(3) new by (simp add: msgs_ok_def sys_inv_def)
  ultimately show ?thesis
    using ok D(4,5,8,9) by (intro client_invI) (simp_all add: msgs_ok_def)
qed

lemma add_proc_procs:
  assumes "procs_ok ns ps" and "po = None \<or> (\<exists>b calls. po = Some (startCallProc b calls)) \<or> po = Some empty_batch_proc"
  shows "procs_ok ns (ps @ (case po of None \<Rightarrow> [] | Some p \<Rightarrow> [p]))"
  using assms by (auto simp: startCallProc_def empty_batch_proc_def intro!: procs_ok_start)

lemma handled_proc:
  "handleMsg pick0 msg h = Proceed (po, h') \<Longrightarrow> po = None \<or> (\<exists>b calls. po = Some (startCallProc b calls))"
  "handleBatch pick msgs h = Proceed (po, h') \<Longrightarrow>
     po = None \<or> (\<exists>b calls. po = Some (startCallProc b calls)) \<or> po = Some empty_batch_proc"
  by (auto simp: handleMsg_def handleBatch_def step_bind_Proceed_iff split: if_splits)

lemma readop_inv:
  assumes inv: "client_inv (c, st)" and en: "enabled (EvReadOp pick msgs batch) (c, st)"
  shows "\<exists>c'. dispatch (EvReadOp pick msgs batch) c = Proceed c' \<and> client_inv (c', st)"
proof -
  note D = client_invD [OF inv]
  have procs: "procs_ok (notifiers (c_handler c)) (c_procs c)" using D(3) by (simp add: sys_inv_def)
  have ids: "\<forall>a. c_lastOp c = Some a \<and> st a = Sending \<longrightarrow>
      set (op_ids (ops (c_handler c) a)) \<inter> (\<lambda>m. raw_bytes (ID m)) ` set msgs = {}"
    using en by auto
  show ?thesis
  proof (cases batch)
    case True
    obtain po h where h: "handleBatch pick msgs (c_handler c) = Proceed (po, h)"
      "msgs_ok ((\<lambda>m. raw_bytes (ID m)) ` set msgs) (c_handler c) h"
      using handle_messages_ok(2) [OF D(1,2)] by blast
    have "client_inv (c\<lparr>c_handler := h, c_procs := c_procs c @ (case po of None \<Rightarrow> [] | Some p \<Rightarrow> [p])\<rparr>, st)"
      using handled_proc(2) [OF h(1)] by (intro messages_inv [OF inv h(2) _ ids] add_proc_procs [OF procs]) blast
    with True h(1) show ?thesis by (simp add: dispatch_def add_proc_def)
  next
    case False
    then obtain msg rest where m: "msgs = msg # rest" using en by (cases msgs) auto
    obtain po h where h: "handleMsg (pick 0) msg (c_handler c) = Proceed (po, h)"
      "msgs_ok {raw_bytes (ID msg)} (c_handler c) h"
      using handle_messages_ok(1) [OF D(1,2)] by blast
    have "client_inv (c\<lparr>c_handler := h, c_procs := c_procs c @ (case po of None \<Rightarrow> [] | Some p \<Rightarrow> [p])\<rparr>, st)"
      using handled_proc(1) [OF h(1)] ids
      by (intro messages_inv [OF inv h(2)] add_proc_procs [OF procs]) (auto simp: m)
    with False h(1) show ?thesis by (simp add: dispatch_def add_proc_def m)
  qed
qed

lemma remove_inv:
  assumes inv: "client_inv (c, st)" and st': "\<forall>a. st' a \<noteq> st a \<longrightarrow> st' a \<in> {Waiting, Over}"
    and last': "last' = c_lastOp c \<or> last' = None" and sending: "\<forall>a. st' a = Sending \<longrightarrow> last' = Some a"
    and keep: "last' = c_lastOp c \<longrightarrow> (\<forall>a. st' a \<noteq> st a \<longrightarrow> st' a = Over)"
    and h: "h = c_handler c \<or> (\<exists>b. h = removeRequestOp b (c_handler c))"
  shows "client_inv (c\<lparr>c_handler := h, c_locked := (last' \<noteq> None), c_lastOp := last'\<rparr>, st')"
proof -
  note D = client_invD [OF inv]
  have d: "distinct (map fst (respWait (c_handler c)))" using D(1) by (simp add: req_inv_def)
  have h': "ops h = ops (c_handler c)" "csubs h = csubs (c_handler c)" "notifiers h = notifiers (c_handler c)"
    "serverSubs h = serverSubs (c_handler c)" "set (respWait h) \<subseteq> set (respWait (c_handler c))"
    "req_inv (respWait h) (ops h)"
    using h removeRequestOp_inv [OF D(1)] foldl_delete_props [OF d] D(1) by (auto simp: removeRequestOp_def)
  have st: "st' a \<in> {Unused, Ready, Sending} \<Longrightarrow> st a = st' a" for a
    using st' by (cases "st' a = st a") (force dest: spec [of _ a])+
  have last: "st' a \<in> {Sending, Sent, Over}" if "last' = Some a" for a
  proof -
    have "c_lastOp c = Some a" using that last' by auto
    then have "st a \<in> {Sending, Sent, Over}" by (rule D(9))
    then show ?thesis using keep that last' by (cases "st' a = st a") auto
  qed
  show ?thesis
  proof (rule client_invI)
    show "untouched (ops (c_handler (c\<lparr>c_handler := h, c_locked := last' \<noteq> None, c_lastOp := last'\<rparr>)) a)"
      if "st' a \<in> {Unused, Ready} \<or> st' a = Sending \<and> c_running (c\<lparr>c_handler := h, c_locked := last' \<noteq> None, c_lastOp := last'\<rparr>)" for a
      using that D(6) [of a] st [of a] h' by auto
    show "a \<notin> snd ` set (respWait (c_handler (c\<lparr>c_handler := h, c_locked := last' \<noteq> None, c_lastOp := last'\<rparr>)))"
      if "st' a \<in> {Unused, Ready}" for a
    proof -
      have "st a \<in> {Unused, Ready}" using that st [of a] by auto
      from D(7) [OF this] image_mono [OF h'(5), of snd] show ?thesis by auto
    qed
  qed (use h' D(2,3,5) sending last in \<open>auto simp: sys_inv_def\<close>)
qed

lemma reconnected_inv:
  assumes inv: "client_inv (c, st)" and a: "c_lastOp c = Some a" "st a = Sending" and run: "c_running c"
    and h: "\<forall>b. op_shape (ops h b)"
      "req_inv [] (ops h)" "\<forall>s. \<exists>k. sub_inv (csubs h s) k"
      "\<forall>b. st b \<in> {Unused, Ready, Sending} \<longrightarrow> untouched (ops h b)"
  shows "client_inv (c\<lparr>c_reading := True,
      c_handler := addRequestOp a (newHandler codec (h_idgen h) (h_reg h) (ops h) (csubs h)), c_procs := []\<rparr>, st)"
proof -
  note D = client_invD [OF inv]
  let ?n = "newHandler codec (h_idgen h) (h_reg h) (ops h) (csubs h)"
  have n: "respWait ?n = []" "ops ?n = ops h" "csubs ?n = csubs h" "notifiers ?n = []" "serverSubs ?n = []"
    by (simp_all add: newHandler_def)
  have "untouched (ops h a)" using h(4) a(2) by blast
  then have req: "req_inv (respWait (addRequestOp a ?n)) (ops (addRequestOp a ?n))"
    using h by (intro addRequestOp_inv) (simp_all add: n)
  have rw: "b = a" if "(i, b) \<in> set (respWait (addRequestOp a ?n))" for i b
  proof -
    have "distinct (map fst ([] :: (string \<times> nat) list))" by simp
    from foldl_update_props [OF this, where a = a and reqids = "op_ids (ops h a)"] that show ?thesis
      by (auto simp: addRequestOp_def n)
  qed
  have f: "ops (addRequestOp a ?n) = ops h" "csubs (addRequestOp a ?n) = csubs h"
    "notifiers (addRequestOp a ?n) = []" "serverSubs (addRequestOp a ?n) = []"
    by (simp_all add: addRequestOp_def n)
  have "sys_inv (addRequestOp a ?n, [])" by (simp add: sys_inv_def f srv_inv_def procs_ok_def)
  moreover have "b \<notin> snd ` set (respWait (addRequestOp a ?n))" if "st b \<in> {Unused, Ready}" for b
  proof
    assume "b \<in> snd ` set (respWait (addRequestOp a ?n))"
    then obtain i where "(i, b) \<in> set (respWait (addRequestOp a ?n))" by force
    with rw have "b = a" by blast
    with a(2) that show False by simp
  qed
  ultimately show ?thesis
    using req h D(4,8,9) by (intro client_invI) (auto simp: f)
qed

text \<open>Every event that can reach the loop is handled, and the invariant is kept.\<close>

lemma dispatch_ok:
  assumes inv: "client_inv (c, st)" and run: "c_running c" and en: "enabled ev (c, st)"
  shows "(\<exists>c'. dispatch ev c = Proceed c' \<and> client_inv (c', after ev (c, st)))
    \<or> (dispatch ev c = Blocked \<and> ((\<exists>p \<in> set (c_procs c). cp_phase p \<noteq> Finished) \<or> (\<exists>a. ev = EvReqInit a \<and> c_locked c)))"
proof -
  note D = client_invD [OF inv]
  show ?thesis
  proof (cases ev)
    case EvClose
    show ?thesis
    proof (cases "c_reading c")
      case False
      have "client_inv (c\<lparr>c_running := False, c_closing := True, c_didClose := True\<rparr>, st)"
        using D by (intro client_invI) auto
      with EvClose False show ?thesis by (simp add: dispatch_def)
    next
      case True
      let ?c = "c\<lparr>c_running := False, c_closing := True\<rparr>"
      have inv': "client_inv (?c, st)" using D by (intro client_invI) auto
      show ?thesis
      proof (cases "\<forall>p \<in> set (c_procs c). cp_phase p = Finished")
        case False
        then have "conn_close ErrClientQuit None ?c = Blocked" by (intro conn_close_blocked) simp
        with EvClose True False show ?thesis by (simp add: dispatch_def)
      next
        case fin: True
        from conn_close_ok [OF inv', of ErrClientQuit None] fin obtain h where
          h: "conn_close ErrClientQuit None ?c = Proceed (?c\<lparr>c_handler := h\<rparr>)" "respWait h = []"
          "ops h = cancelled ErrClientQuit None (respWait (c_handler c)) (ops (c_handler c))"
          "\<forall>s. \<exists>k. sub_inv (csubs h s) k" "sys_inv (h, c_procs c)" by auto
        have "client_inv (c\<lparr>c_handler := h, c_running := False, c_closing := True, c_didClose := True, c_reading := True\<rparr>, st)"
          by (rule close_inv [OF inv h(2-5)]) simp_all
        moreover have "c\<lparr>c_handler := h, c_running := False, c_closing := True, c_didClose := True, c_reading := True\<rparr>
            = ?c\<lparr>c_handler := h, c_didClose := True\<rparr>" using True by (cases c) simp
        ultimately show ?thesis using EvClose True h(1) by (simp add: dispatch_def)
      qed
    qed
  next
    case (EvReadOp pick msgs batch)
    with readop_inv [OF inv] en show ?thesis by auto
  next
    case (EvReadErr err)
    show ?thesis
    proof (cases "\<forall>p \<in> set (c_procs c). cp_phase p = Finished")
      case False
      with EvReadErr conn_close_blocked [OF False] show ?thesis by (simp add: dispatch_def)
    next
      case True
      from conn_close_ok [OF inv True, of err "c_lastOp c"] obtain h where
        h: "conn_close err (c_lastOp c) c = Proceed (c\<lparr>c_handler := h\<rparr>)" "respWait h = []"
        "ops h = cancelled err (c_lastOp c) (respWait (c_handler c)) (ops (c_handler c))"
        "\<forall>s. \<exists>k. sub_inv (csubs h s) k" "sys_inv (h, c_procs c)" by auto
      have "client_inv (c\<lparr>c_handler := h, c_running := c_running c, c_closing := c_closing c,
          c_didClose := c_didClose c, c_reading := False\<rparr>, st)"
        by (rule close_inv [OF inv h(2-5)]) simp_all
      with EvReadErr h(1) show ?thesis by (simp add: dispatch_def)
    qed
  next
    case (EvReconnected codec)
    then obtain a where a: "c_lastOp c = Some a" "st a = Sending" using en by auto
    show ?thesis
    proof (cases "c_reading c")
      case False
      have "req_inv [] (ops (c_handler c))"
        by (rule req_inv_subset [OF D(1)]) (simp_all add: regs_def)
      then have "client_inv (c\<lparr>c_reading := True, c_handler := addRequestOp a (newHandler codec (h_idgen (c_handler c))
          (h_reg (c_handler c)) (ops (c_handler c)) (csubs (c_handler c))), c_procs := []\<rparr>, st)"
        using D(2,5,6) run by (intro reconnected_inv [OF inv a run]) auto
      with EvReconnected False a show ?thesis by (simp add: dispatch_def Let_def)
    next
      case True
      show ?thesis
      proof (cases "\<forall>p \<in> set (c_procs c). cp_phase p = Finished")
        case False
        with EvReconnected True conn_close_blocked [OF False] show ?thesis by (simp add: dispatch_def)
      next
        case fin: True
        from conn_close_ok [OF inv fin, of errClientReconnected "c_lastOp c"] obtain h where
          h: "conn_close errClientReconnected (c_lastOp c) c = Proceed (c\<lparr>c_handler := h\<rparr>)" "respWait h = []"
          "ops h = cancelled errClientReconnected (c_lastOp c) (respWait (c_handler c)) (ops (c_handler c))"
          "\<forall>s. \<exists>k. sub_inv (csubs h s) k" by auto
        have unt: "untouched (ops h b)" if "st b \<in> {Unused, Ready, Sending}" for b
          using D(6,7,8) [of b] that run by (auto simp: h cancelled_other)
        have "client_inv (c\<lparr>c_reading := True, c_handler := addRequestOp a (newHandler codec (h_idgen h)
            (h_reg h) (ops h) (csubs h)), c_procs := []\<rparr>, st)"
          using h(2,4) D(5) unt cancelled_inv [OF D(1)]
          by (intro reconnected_inv [OF inv a run]) (auto simp: h(3))
        with EvReconnected True a h(1) show ?thesis by (simp add: dispatch_def Let_def)
      qed
    qed
  next
    case (EvReqInit a)
    show ?thesis
    proof (cases "c_locked c")
      case True
      with EvReqInit show ?thesis by (simp add: dispatch_def)
    next
      case False
      have rdy: "st a = Ready" using en EvReqInit by simp
      let ?h = "addRequestOp a (c_handler c)"
      have "req_inv (respWait ?h) (ops ?h)"
        using D(1,5) D(6) [of a] rdy by (intro addRequestOp_inv) auto
      moreover have "distinct (map fst (respWait (c_handler c)))" using D(1) by (simp add: req_inv_def)
      note up = foldl_update_props [OF this, where a = a and reqids = "op_ids (ops (c_handler c) a)"]
      have "b \<notin> snd ` set (respWait ?h)" if "(st(a := Sending)) b \<in> {Unused, Ready}" for b
      proof -
        have "b \<noteq> a" "b \<notin> snd ` set (respWait (c_handler c))" using that D(7) [of b] by (auto split: if_splits)
        then show ?thesis using up by (force simp: addRequestOp_def)
      qed
      moreover have "ops ?h = ops (c_handler c)" "csubs ?h = csubs (c_handler c)" "notifiers ?h = notifiers (c_handler c)"
        "serverSubs ?h = serverSubs (c_handler c)" by (simp_all add: addRequestOp_def)
      moreover have "c_lastOp c = None" using False D(4) by simp
      ultimately have "client_inv (c\<lparr>c_locked := True, c_lastOp := Some a, c_handler := ?h\<rparr>, st(a := Sending))"
        using D(2,3,5,6,8) rdy by (intro client_invI) (auto simp: sys_inv_def split: if_splits)
      with EvReqInit False show ?thesis by (simp add: dispatch_def)
    qed
  next
    case (EvReqSent err)
    then obtain a where a: "c_lastOp c = Some a" and sa: "case err of None \<Rightarrow> st a \<in> {Sent, Over} | Some _ \<Rightarrow> st a = Sending"
      using en by auto
    let ?st = "st(a := (if err \<noteq> None then Over else if st a = Sent then Waiting else st a))"
    let ?h = "case err of None \<Rightarrow> c_handler c | Some _ \<Rightarrow> removeRequestOp a (c_handler c)"
    have "client_inv (c\<lparr>c_handler := ?h, c_locked := (None :: nat option) \<noteq> None, c_lastOp := None\<rparr>, ?st)"
    proof (rule remove_inv [OF inv])
      have "st b \<noteq> Sending" if "b \<noteq> a" for b using D(8) [of b] a that by auto
      then show "\<forall>b. ?st b = Sending \<longrightarrow> None = Some b"
        using sa by (cases err) auto
      show "\<forall>b. ?st b \<noteq> st b \<longrightarrow> ?st b \<in> {Waiting, Over}" by simp
      show "None = c_lastOp c \<longrightarrow> (\<forall>b. ?st b \<noteq> st b \<longrightarrow> ?st b = Over)" using a by simp
      show "?h = c_handler c \<or> (\<exists>b. ?h = removeRequestOp b (c_handler c))"
        by (cases err) (simp, simp, blast)
    qed simp
    then show ?thesis using EvReqSent a by (cases err) (simp_all add: dispatch_def)
  next
    case (EvReqTimeout a)
    then have sa: "st a \<in> {Sent, Waiting}" using en by simp
    have "client_inv (c\<lparr>c_handler := removeRequestOp a (c_handler c), c_locked := (c_lastOp c \<noteq> None),
        c_lastOp := c_lastOp c\<rparr>, st(a := Over))"
      using sa D(8) by (intro remove_inv [OF inv]) (auto split: if_splits)
    moreover have "c\<lparr>c_handler := removeRequestOp a (c_handler c), c_locked := (c_lastOp c \<noteq> None), c_lastOp := c_lastOp c\<rparr>
      = c\<lparr>c_handler := removeRequestOp a (c_handler c)\<rparr>" using D(4) by simp
    ultimately show ?thesis using EvReqTimeout by (simp add: dispatch_def)
  qed
qed

lemma proc_step_client:
  assumes "proc_step E p h = Return (p', h')"
  shows "respWait h' = respWait h \<and> ops h' = ops h \<and> csubs h' = csubs h"
proof (cases "cp_phase p")
  case Calling
  show ?thesis
  proof (cases "cp_todo p")
    case Nil
    then show ?thesis
      using assms Calling addSubscriptions_frame(1) [of "cp_notifiers p" h]
      by (simp add: proc_step_def client_side_def)
  next
    case (Cons msg rest)
    then obtain a nn where "handleCallMsg E msg h (cp_notifiers p) = (a, h', nn)"
      using assms Calling by (auto simp: proc_step_def split: prod.splits)
    from handleCallMsg_effect [OF this] show ?thesis by (auto simp: call_result_ok_def client_side_def)
  qed
next
  case Answering
  with assms show ?thesis by (auto simp: proc_step_def write_answers_def split: list.splits)
next
  case (Activating todo)
  with assms show ?thesis
    by (auto simp: proc_step_def activate_notifier_def outcome_bind_Return_iff split: list.splits)
next
  case Finished
  with assms show ?thesis by (simp add: proc_step_def)
qed

lemma req_inv_receive:
  assumes inv: "req_inv rw os" and w: "op_wait (os a) = Proceed (r, op)"
  shows "req_inv rw (os(a := op))" "op_shape op = op_shape (os a)" "op_ids op = op_ids (os a)"
proof -
  from w obtain v ch where ch: "chan_recv (op_resp (os a)) = Proceed (v, ch)" and op: "op = (os a)\<lparr>op_resp := ch\<rparr>"
    by (auto simp: op_wait_def step_bind_Proceed_iff)
  then have c: "ch_closed ch = ch_closed (op_resp (os a))" "ch_cap ch = ch_cap (op_resp (os a))"
    "length (ch_buf ch) \<le> length (ch_buf (op_resp (os a)))"
    by (auto simp: chan_recv_def split: list.splits if_splits)
  have "length (ch_buf ch) + regs a rw \<le> ch_cap ch" if "op_sub (os a) = None"
    using inv that c unfolding req_inv_def by (metis add_le_mono1 le_trans)
  then show "req_inv rw (os(a := op))"
    using inv c unfolding req_inv_def op by auto
  show "op_shape op = op_shape (os a)" "op_ids op = op_ids (os a)" using c by (simp_all add: op)
qed

lemma client_inv_ops:
  assumes inv: "client_inv (c, st)" and "req_inv (respWait (c_handler c)) os" and "\<And>b. op_shape (os b)"
    and "\<And>b. st' b \<in> {Unused, Ready} \<or> st' b = Sending \<and> c_running c \<Longrightarrow> untouched (os b)"
    and "\<And>b. st' b = st b \<or> st b = Unused \<and> st' b = Ready \<or> st b = Sending \<and> st' b = Sent"
  shows "client_inv (map_handler (\<lambda>h. h\<lparr>ops := os\<rparr>) c, st')"
proof -
  note D = client_invD [OF inv]
  have "b \<notin> snd ` set (respWait (c_handler c))" if "st' b \<in> {Unused, Ready}" for b
  proof -
    have "st b \<in> {Unused, Ready}" using assms(5) [of b] that by auto
    then show ?thesis by (rule D(7))
  qed
  moreover have "c_lastOp c = Some b" if "st' b = Sending" for b
    using assms(5) [of b] that D(8) [of b] by auto
  moreover have "st' b \<in> {Sending, Sent, Over}" if "c_lastOp c = Some b" for b
    using assms(5) [of b] D(9) [OF that] by auto
  ultimately show ?thesis
    using assms(2-4) D(2,3,4) by (intro client_invI) (auto simp: map_handler_def sys_inv_def)
qed

lemma client_inv_subs:
  assumes inv: "client_inv (c, st)" and k: "sub_inv s' k"
  shows "client_inv (map_handler (\<lambda>h. h\<lparr>csubs := (csubs h)(s := s')\<rparr>) c, st)"
proof -
  note D = client_invD [OF inv]
  have "\<forall>t. \<exists>k. sub_inv (((csubs (c_handler c))(s := s')) t) k" using D(2) k by auto
  then show ?thesis
    using D(1,3-9) by (intro client_invI) (auto simp: map_handler_def sys_inv_def)
qed

lemma client_step_inv:
  assumes "client_step E s s'" and "client_inv s"
  shows "client_inv s'"
  using assms
proof (induction rule: client_step.induct)
  case (new_op st a op i reqids s c)
  note D = client_invD [OF new_op(3)]
  have op: "op_shape op" "untouched op" using new_op(2) by auto
  have "req_inv (respWait (c_handler c)) ((ops (c_handler c))(a := op))"
    using D(1) D(7) [of a] new_op(1) op
    by (intro req_inv_replace) (auto simp: op_shape_def untouched_def split: option.splits)
  then have "client_inv (map_handler (\<lambda>h. h\<lparr>ops := (ops (c_handler c))(a := op)\<rparr>) c, st(a := Ready))"
    using D(5,6) op new_op(1) by (intro client_inv_ops [OF new_op(3)]) auto
  then show ?case by (simp add: map_handler_def)
next
  case (event c ev st c')
  with dispatch_ok [OF event(4,1,2)] show ?case by auto
next
  case (write_done c a st)
  have "client_inv (map_handler (\<lambda>h. h\<lparr>ops := ops (c_handler c)\<rparr>) c, st(a := Sent))"
    using client_invD [OF write_done(3)] write_done(2) by (intro client_inv_ops [OF write_done(3)]) (auto split: if_splits)
  then show ?case by (simp add: map_handler_def)
next
  case (receive st a c r op)
  note D = client_invD [OF receive(3)]
  note R = req_inv_receive [OF D(1) receive(2)]
  have "client_inv (map_handler (\<lambda>h. h\<lparr>ops := (ops (c_handler c))(a := op)\<rparr>) c, st)"
    using D(5,6) R receive(1) by (intro client_inv_ops [OF receive(3)]) auto
  then show ?case by (simp add: map_handler_def)
next
  case (sub_quit u e c s s' st)
  obtain k where "sub_inv (csubs (c_handler c) s) k" using client_invD(2) [OF sub_quit(2)] by blast
  then have "sub_inv s' k" using quitWithError_inv sub_quit(1) by (metis chan_step.inject)
  then show ?case by (rule client_inv_subs [OF sub_quit(2)])
next
  case (sub_unsubscribe c s s' st)
  obtain k where "sub_inv (csubs (c_handler c) s) k" using client_invD(2) [OF sub_unsubscribe(2)] by blast
  then obtain t where t: "quitWithError True None (csubs (c_handler c) s) = Proceed t" "sub_inv t k" "quitOnce t"
    using quitWithError_inv by blast
  then have "sub_inv t (Suc k)" by (simp add: sub_inv_def)
  moreover have "close_err t = Proceed s'" using t(1) sub_unsubscribe(1) by (simp add: Unsubscribe_def)
  ultimately have "sub_inv s' k" using close_err_inv by (metis chan_step.inject)
  then show ?case by (rule client_inv_subs [OF sub_unsubscribe(2)])
next
  case (sub_receive c s v ch st)
  obtain k where "sub_inv (csubs (c_handler c) s) k" using client_invD(2) [OF sub_receive(2)] by blast
  then have "sub_inv ((csubs (c_handler c) s)\<lparr>cs_err := ch\<rparr>) k"
    using sub_receive(1) by (auto simp: sub_inv_def chan_recv_def split: list.splits if_splits)
  from client_inv_subs [OF sub_receive(2) this] show ?case by (simp add: map_handler_def)
next
  case (process j c p h st)
  note D = client_invD [OF process(3)]
  have "sys_inv (h, (c_procs c)[j := p])" by (rule proc_step_inv [OF D(3) process(1,2)])
  with proc_step_client [OF process(2)] D(1,2,4-9) show ?case
    by (intro client_invI) auto
qed

lemma client_start_inv: "client_start s \<Longrightarrow> client_inv s"
proof -
  assume "client_start s"
  then obtain codec g reg ns where s: "s = (initClient codec g reg (\<lambda>_. notify_op) (\<lambda>s. newClientSubscription (ns s)), \<lambda>_. Unused)"
    by (auto simp: client_start_def)
  have "sub_inv (newClientSubscription (ns s)) 0" for s by (rule sub_reach_inv [OF sub_reach.created])
  then have "\<forall>s. \<exists>k. sub_inv (newClientSubscription (ns s)) k" by blast
  then show "client_inv s"
    unfolding s by (intro client_invI)
      (auto simp: initClient_def newHandler_def req_inv_def regs_def sys_inv_def srv_inv_def procs_ok_def notify_op_def
        op_shape_def untouched_def)
qed

interpretation requests: machine_invariant client_start "client_step E" client_inv for E
  by unfold_locales (fact client_start_inv client_step_inv)+

lemma client_reach_inv: "client_reach E s \<Longrightarrow> client_inv s"
  unfolding client_reach_def by (rule requests.reach_inv)


text \<open>A client with one call, for the examples.\<close>

definition demo_client :: "'g \<Rightarrow> ('f, 'g) client" where
  "demo_client g = initClient (NewFuncCodec None) g Map.empty (\<lambda>_. notify_op) (\<lambda>s. newClientSubscription [])"

definition demo_call :: "'g \<Rightarrow> ('f, 'g) client" where
  "demo_call g = map_handler (\<lambda>h. h\<lparr>ops := (ops h)(0 := call_op ''1'')\<rparr>) (demo_client g)"

lemma demo_call_reach: "client_reach E (demo_call g, (\<lambda>_. Unused)(0 := Ready))"
proof -
  have "client_step E (demo_client g, \<lambda>_. Unused) (demo_call g, (\<lambda>_. Unused)(0 := Ready))"
    unfolding demo_call_def by (rule client_step.new_op [where i = "''1''"]) simp_all
  moreover have "client_reach E (demo_client g, \<lambda>_. Unused)"
    unfolding demo_client_def by (rule client_reach_init)
  ultimately show ?thesis by (rule client_reach_step [rotated])
qed


section \<open>A call that is never answered\<close>

text \<open>
  A request that was accepted but that no handler knows any more, and whose channel is open and
  empty. The state is kept by every step, so that its caller waits until its context ends.
\<close>

definition forgotten :: "nat \<Rightarrow> ('f, 'g) csys \<Rightarrow> bool" where
  "forgotten a cs \<longleftrightarrow> (let (c, st) = cs in
     st a \<in> {Waiting, Over} \<and> untouched (ops (c_handler c) a) \<and> a \<notin> snd ` set (respWait (c_handler c))
     \<and> c_lastOp c \<noteq> Some a)"

lemma forgottenI:
  "st a \<in> {Waiting, Over} \<Longrightarrow> untouched (ops (c_handler c) a) \<Longrightarrow> a \<notin> snd ` set (respWait (c_handler c))
    \<Longrightarrow> c_lastOp c \<noteq> Some a \<Longrightarrow> forgotten a (c, st)"
  by (simp add: forgotten_def)

lemma forgottenD:
  assumes "forgotten a (c, st)"
  shows "st a \<in> {Waiting, Over}" "untouched (ops (c_handler c) a)" "a \<notin> snd ` set (respWait (c_handler c))"
    "c_lastOp c \<noteq> Some a"
  using assms by (auto simp: forgotten_def)

lemma conn_close_forgotten:
  assumes inv: "client_inv (c, st)" and f: "forgotten a (c, st)" and cl: "conn_close err infl c = Proceed c'"
  shows "forgotten a (c', st)" "c_lastOp c' = c_lastOp c"
proof -
  have "\<forall>p \<in> set (c_procs c). cp_phase p = Finished"
  proof (rule ccontr)
    assume "\<not> ?thesis"
    from conn_close_blocked [OF this, of err infl] cl show False by simp
  qed
  from conn_close_ok [OF inv this, of err infl] cl obtain h where h: "c' = c\<lparr>c_handler := h\<rparr>" "respWait h = []"
    "ops h = cancelled err infl (respWait (c_handler c)) (ops (c_handler c))" by auto
  with forgottenD [OF f] show "forgotten a (c', st)" by (auto simp: cancelled_other intro!: forgottenI)
  show "c_lastOp c' = c_lastOp c" using h by simp
qed

lemma add_remove_regs:
  assumes "req_inv (respWait h) (ops h)" and "a \<notin> snd ` set (respWait h)"
  shows "b \<noteq> a \<Longrightarrow> a \<notin> snd ` set (respWait (addRequestOp b h))" "a \<notin> snd ` set (respWait (removeRequestOp b h))"
    "ops (addRequestOp b h) = ops h" "ops (removeRequestOp b h) = ops h"
proof -
  have d: "distinct (map fst (respWait h))" using assms(1) by (simp add: req_inv_def)
  show "b \<noteq> a \<Longrightarrow> a \<notin> snd ` set (respWait (addRequestOp b h))"
    using foldl_update_props [OF d, where a = b and reqids = "op_ids (ops h b)"] assms(2)
    by (force simp: addRequestOp_def)
  show "a \<notin> snd ` set (respWait (removeRequestOp b h))"
    using foldl_delete_props [OF d, where reqids = "op_ids (ops h b)"] assms(2) by (force simp: removeRequestOp_def)
qed (simp_all add: addRequestOp_def removeRequestOp_def)

lemma read_forgotten:
  assumes inv: "client_inv (c, st)" and f: "forgotten a (c, st)"
    and d: "dispatch (EvReadOp pick msgs batch) c = Proceed c'"
  shows "forgotten a (c', st)"
proof -
  note D = client_invD [OF inv]
  obtain I po h where h: "msgs_ok I (c_handler c) h" "c' = add_proc po h c"
  proof (cases batch)
    case True
    then show thesis using d handle_messages_ok(2) [OF D(1,2), of pick msgs] that
      by (auto simp: dispatch_def)
  next
    case False
    with d obtain msg rest where "msgs = msg # rest" by (cases msgs) (auto simp: dispatch_def)
    then show thesis using d False handle_messages_ok(1) [OF D(1,2), of "pick 0" msg] that
      by (auto simp: dispatch_def)
  qed
  then have "ops h a = ops (c_handler c) a" "a \<notin> snd ` set (respWait h)"
    using forgottenD(3) [OF f] unfolding msgs_ok_def by blast+
  then show ?thesis using forgottenD [OF f] h(2) by (auto simp: add_proc_def intro!: forgottenI)
qed

lemma dispatch_forgotten:
  assumes inv: "client_inv (c, st)" and f: "forgotten a (c, st)" and en: "enabled ev (c, st)"
    and d: "dispatch ev c = Proceed c'"
  shows "forgotten a (c', after ev (c, st))"
proof -
  note D = client_invD [OF inv] and F = forgottenD [OF f]
  note regs = add_remove_regs [OF D(1) F(3)]
  show ?thesis
  proof (cases ev)
    case EvClose
    let ?c = "c\<lparr>c_running := False, c_closing := True\<rparr>"
    have inv': "client_inv (?c, st)" using D by (intro client_invI) auto
    have f': "forgotten a (?c, st)" using F by (intro forgottenI) auto
    show ?thesis
    proof (cases "c_reading c")
      case True
      with d EvClose obtain c1 where "conn_close ErrClientQuit None ?c = Proceed c1" "c' = c1\<lparr>c_didClose := True\<rparr>"
        by (auto simp: dispatch_def step_bind_Proceed_iff)
      with conn_close_forgotten [OF inv' f'] EvClose show ?thesis by (auto simp: forgotten_def)
    next
      case False
      with d EvClose f' show ?thesis by (auto simp: dispatch_def forgotten_def)
    qed
  next
    case (EvReadOp pick msgs batch)
    with read_forgotten [OF inv f] d show ?thesis by simp
  next
    case (EvReadErr err)
    with d obtain c1 where "conn_close err (c_lastOp c) c = Proceed c1" "c' = c1\<lparr>c_reading := False\<rparr>"
      by (auto simp: dispatch_def step_bind_Proceed_iff)
    with conn_close_forgotten [OF inv f] EvReadErr show ?thesis by (auto simp: forgotten_def)
  next
    case (EvReconnected codec)
    then obtain b where b: "c_lastOp c = Some b" using en by auto
    then have ba: "b \<noteq> a" using F(4) by auto
    from d EvReconnected b obtain c1 where
      c1: "(if c_reading c then conn_close errClientReconnected (c_lastOp c) c else Proceed c) = Proceed c1"
      by (auto simp: dispatch_def step_bind_Proceed_iff)
    have f1: "forgotten a (c1, st)" "c_lastOp c1 = c_lastOp c"
      using c1 conn_close_forgotten [OF inv f] f by (auto split: if_splits)
    let ?n = "newHandler codec (h_idgen (c_handler c1)) (h_reg (c_handler c1)) (ops (c_handler c1)) (csubs (c_handler c1))"
    have c': "c' = c1\<lparr>c_reading := True, c_handler := addRequestOp b ?n, c_procs := []\<rparr>"
      using d EvReconnected c1 f1(2) b by (auto simp: dispatch_def Let_def split: if_splits)
    have "distinct (map fst ([] :: (string \<times> nat) list))" by simp
    from foldl_update_props [OF this, where a = b and reqids = "op_ids (ops (c_handler c1) b)"] ba
    have "a \<notin> snd ` set (respWait (addRequestOp b ?n))"
      by (force simp: addRequestOp_def newHandler_def)
    moreover have "ops (addRequestOp b ?n) = ops (c_handler c1)" by (simp add: addRequestOp_def newHandler_def)
    ultimately show ?thesis
      using forgottenD [OF f1(1)] EvReconnected by (auto simp: c' intro!: forgottenI)
  next
    case (EvReqInit b)
    then have ba: "b \<noteq> a" using en F(1) by auto
    have c': "c' = c\<lparr>c_locked := True, c_lastOp := Some b, c_handler := addRequestOp b (c_handler c)\<rparr>"
      using d EvReqInit by (auto simp: dispatch_def split: if_splits)
    have "a \<notin> snd ` set (respWait (addRequestOp b (c_handler c)))" by (rule regs(1) [OF ba])
    then show ?thesis
      unfolding c' EvReqInit using F(1,2) ba by (intro forgottenI) (simp_all add: regs(3))
  next
    case (EvReqSent err)
    then obtain b where b: "c_lastOp c = Some b" using en by auto
    then have "b \<noteq> a" using F(4) by auto
    then have st: "after ev (c, st) a = st a" using EvReqSent b by simp
    have "c' = c\<lparr>c_handler := c_handler c, c_locked := False, c_lastOp := None\<rparr>
        \<or> c' = c\<lparr>c_handler := removeRequestOp b (c_handler c), c_locked := False, c_lastOp := None\<rparr>"
      using d EvReqSent b by (cases err) (simp_all add: dispatch_def)
    then show ?thesis
      using F(1-3) regs(2,4) [of b] by (elim disjE) (intro forgottenI; simp add: st)+
  next
    case (EvReqTimeout b)
    then have c': "c' = c\<lparr>c_handler := removeRequestOp b (c_handler c)\<rparr>" using d by (simp add: dispatch_def)
    show ?thesis
      unfolding c' EvReqTimeout using F regs(2,4) [of b] by (intro forgottenI) simp_all
  qed
qed

lemma client_step_forgotten:
  assumes "client_step E s s'" and "client_inv s" and "forgotten a s"
  shows "forgotten a s'"
  using assms
proof (induction rule: client_step.induct)
  case (event c ev st c')
  then show ?case by (blast intro: dispatch_forgotten)
next
  case (receive st b c r op)
  have "b \<noteq> a"
  proof
    assume "b = a"
    with forgottenD(2) [OF receive(4)] receive(2) show False
      by (auto simp: op_wait_def untouched_def chan_recv_def)
  qed
  with forgottenD [OF receive(4)] show ?case by (auto simp: map_handler_def intro!: forgottenI)
next
  case (process j c p h st)
  with forgottenD [OF process(4)] proc_step_client [OF process(2)] show ?case by (auto intro!: forgottenI)
qed (auto simp: forgotten_def map_handler_def)

lemma steps_forgotten:
  assumes "(client_step E)\<^sup>*\<^sup>* s s'" and "client_inv s" and "forgotten a s"
  shows "forgotten a s'"
  using requests.stable_steps [of E "forgotten a", OF _ assms] client_step_forgotten by blast

text \<open>The run that forgets a request: the connection is lost between the write and its report.\<close>

lemma forgotten_run:
  fixes E :: "('f, 'v, jsonCodec, 'g) env"
  shows "\<exists>c st. client_reach E (c, st) \<and> st 0 = Waiting \<and> forgotten 0 (c, st)"
proof -
  let ?c0 = "demo_call undefined :: ('f, 'g) client"
  let ?st = "(\<lambda>_. Unused)(0 := Ready)"
  define c1 where "c1 = ?c0\<lparr>c_locked := True, c_lastOp := Some 0, c_handler := addRequestOp 0 (c_handler ?c0)\<rparr>"
  have d1: "dispatch (EvReqInit 0) ?c0 = Proceed c1"
    by (simp add: dispatch_def c1_def demo_call_def demo_client_def initClient_def map_handler_def)
  have "client_step E (?c0, ?st) (c1, after (EvReqInit 0) (?c0, ?st))"
    using d1 by (intro client_step.event) (simp_all add: demo_call_def demo_client_def initClient_def map_handler_def)
  then have r1: "client_reach E (c1, ?st(0 := Sending))" using demo_call_reach client_reach_step by fastforce
  have l1: "c_lastOp c1 = Some 0" "c_procs c1 = []" "c_reading c1" "c_running c1"
    by (simp_all add: c1_def demo_call_def demo_client_def initClient_def map_handler_def)
  have "client_step E (c1, ?st(0 := Sending)) (c1, (?st(0 := Sending))(0 := Sent))"
    using l1 by (intro client_step.write_done) simp_all
  then have r2: "client_reach E (c1, ?st(0 := Sent))" using r1 client_reach_step by fastforce
  note I = client_invD [OF client_reach_inv [OF r2]]
  from conn_close_ok [OF client_reach_inv [OF r2], of "PlainError ''EOF''" "c_lastOp c1"] l1 obtain h where
    h: "conn_close (PlainError ''EOF'') (c_lastOp c1) c1 = Proceed (c1\<lparr>c_handler := h\<rparr>)" "respWait h = []"
      "ops h = cancelled (PlainError ''EOF'') (c_lastOp c1) (respWait (c_handler c1)) (ops (c_handler c1))" by auto
  define c2 where "c2 = c1\<lparr>c_handler := h, c_reading := False\<rparr>"
  have "dispatch (EvReadErr (PlainError ''EOF'')) c1 = Proceed c2" using h(1) by (simp add: dispatch_def c2_def)
  then have "client_step E (c1, ?st(0 := Sent)) (c2, after (EvReadErr (PlainError ''EOF'')) (c1, ?st(0 := Sent)))"
    using l1 by (intro client_step.event) simp_all
  then have r3: "client_reach E (c2, ?st(0 := Sent))" using r2 client_reach_step by fastforce
  define c3 where "c3 = c2\<lparr>c_locked := False, c_lastOp := None\<rparr>"
  have "dispatch (EvReqSent None) c2 = Proceed c3" by (simp add: dispatch_def c3_def)
  then have "client_step E (c2, ?st(0 := Sent)) (c3, after (EvReqSent None) (c2, ?st(0 := Sent)))"
    using l1 by (intro client_step.event) (simp_all add: c2_def)
  then have r4: "client_reach E (c3, ?st(0 := Waiting))"
    using r3 client_reach_step l1 by (fastforce simp: c2_def)
  have "untouched (ops (c_handler c3) 0)"
    by (simp add: c3_def c2_def h(3) l1 cancelled_other)
      (simp add: c1_def addRequestOp_def demo_call_def demo_client_def map_handler_def)
  then have "forgotten 0 (c3, ?st(0 := Waiting))"
    by (intro forgottenI) (simp_all add: c3_def c2_def h(2))
  with r4 show ?thesis by (intro exI [of _ c3] exI [of _ "?st(0 := Waiting)"]) simp
qed



end
