(* ===== verification/Rpc_Server.thy ===== *)
theory Rpc_Server
  imports Rpc_Calls
begin

text \<open>
  The RPC server (\<open>simple_rpc/rpc/server.go\<close>, \<open>simple_rpc/rpc/endpoints.go\<close>): registration, the
  service of a connection against a concurrent \<open>Stop\<close>, single requests, the metadata service, and
  the start of an IPC endpoint.
\<close>

section \<open>State and registration\<close>

text \<open>
  The server keeps its services, whether it runs, and the set of connections it serves. Codecs are
  known by addresses; \<open>sv_closed\<close> is the set of those that have been closed.
\<close>

record 'f server =
  sv_services :: "'f serviceRegistry"
  sv_run :: bool
  sv_codecs :: "nat set"
  sv_closed :: "nat set"

definition MetadataApi :: string where "MetadataApi = ''rpc''"

definition RegisterName ::
  "'f server \<Rightarrow> string \<Rightarrow> string \<Rightarrow> 'f gomethod list \<Rightarrow> rpc_error option \<times> 'f server" where
  "RegisterName s nam typeName methods =
     (let (err, r) = registerName (sv_services s) nam typeName methods in (err, s\<lparr>sv_services := r\<rparr>))"

text \<open>The methods of \<open>*RPCService\<close>: \<open>Modules\<close>, which takes no argument and returns a map.\<close>

definition rpc_service_methods :: "'f \<Rightarrow> 'f gomethod list" where
  "rpc_service_methods modules_fn =
     [\<lparr>m_name = ''Modules'', m_pkgPath = [],
       m_func = \<lparr>fn_id = modules_fn, fn_in = [Ptr (Named ''rpc.RPCService'' False)], fn_out = [Named ''map[string]string'' False]\<rparr>\<rparr>]"

definition NewServer :: "'f \<Rightarrow> 'f server" where
  "NewServer modules_fn =
     snd (RegisterName \<lparr>sv_services = Map.empty, sv_run = True, sv_codecs = {}, sv_closed = {}\<rparr>
       MetadataApi ''*rpc.RPCService'' (rpc_service_methods modules_fn))"

definition Modules :: "'f server \<Rightarrow> string \<rightharpoonup> string" where
  "Modules s = (\<lambda>nam. if sv_services s nam = None then None else Some ''1.0'')"

section \<open>Serving and stopping\<close>

definition Stop :: "'f server \<Rightarrow> 'f server" where
  "Stop s = (if sv_run s then s\<lparr>sv_run := False, sv_closed := sv_closed s \<union> sv_codecs s\<rparr> else s)"

text \<open>The goroutine of \<open>ServeCodec\<close> for one codec, at its atomic steps.\<close>

datatype serve_phase = SvStart | SvChecked | SvServing | SvEnded

definition serve_check :: "nat \<Rightarrow> 'f server \<Rightarrow> serve_phase \<times> 'f server" where
  "serve_check a s =
     (if \<not> sv_run s then (SvEnded, s\<lparr>sv_closed := insert a (sv_closed s)\<rparr>) else (SvChecked, s))"

definition serve_add :: "nat \<Rightarrow> 'f server \<Rightarrow> serve_phase \<times> 'f server" where
  "serve_add a s = (SvServing, s\<lparr>sv_codecs := insert a (sv_codecs s)\<rparr>)"

text \<open>Once the codec is closed, the client is closed, and the deferred calls run.\<close>

definition serve_end :: "nat \<Rightarrow> 'f server \<Rightarrow> serve_phase \<times> 'f server" where
  "serve_end a s = (SvEnded, s\<lparr>sv_codecs := sv_codecs s - {a}, sv_closed := insert a (sv_closed s)\<rparr>)"

definition ServeCodec_step :: "nat \<Rightarrow> serve_phase \<Rightarrow> 'f server \<Rightarrow> (serve_phase \<times> 'f server) option" where
  "ServeCodec_step a ph s =
     (case ph of
        SvStart \<Rightarrow> Some (serve_check a s)
      | SvChecked \<Rightarrow> Some (serve_add a s)
      | SvServing \<Rightarrow> if a \<in> sv_closed s then Some (serve_end a s) else None
      | SvEnded \<Rightarrow> None)"

text \<open>
  The server with any number of connections: their goroutines, \<open>Stop\<close>, and peers that hang up.
\<close>

type_synonym 'f srvsys = "'f server \<times> (nat \<Rightarrow> serve_phase option)"

datatype server_event = AcceptEv nat | ServeEv nat | HangupEv nat | StopEv

inductive server_step :: "'f srvsys \<Rightarrow> server_event \<Rightarrow> 'f srvsys \<Rightarrow> bool" where
  accept: "st a = None \<Longrightarrow> server_step (s, st) (AcceptEv a) (s, st(a \<mapsto> SvStart))"
| serve: "st a = Some ph \<Longrightarrow> ServeCodec_step a ph s = Some (ph', s') \<Longrightarrow>
    server_step (s, st) (ServeEv a) (s', st(a \<mapsto> ph'))"
| hangup: "st a \<noteq> None \<Longrightarrow> server_step (s, st) (HangupEv a) (s\<lparr>sv_closed := insert a (sv_closed s)\<rparr>, st)"
| stop: "server_step (s, st) StopEv (Stop s, st)"

definition server_start :: "'f srvsys \<Rightarrow> bool" where
  "server_start x \<longleftrightarrow> (\<exists>m. x = (NewServer m, Map.empty))"

definition server_move :: "'f srvsys \<Rightarrow> 'f srvsys \<Rightarrow> bool" where
  "server_move x y \<longleftrightarrow> (\<exists>e. server_step x e y)"

definition server_reach :: "'f srvsys \<Rightarrow> bool" where
  "server_reach = reach server_start server_move"

lemma server_reach_init: "server_reach (NewServer m, Map.empty)"
  unfolding server_reach_def by (rule reach.start) (auto simp: server_start_def)

lemma server_reach_step: "server_reach x \<Longrightarrow> server_step x e y \<Longrightarrow> server_reach y"
  unfolding server_reach_def by (rule reach.step) (auto simp: server_move_def)

definition server_inv :: "'f srvsys \<Rightarrow> bool" where
  "server_inv x \<longleftrightarrow> (\<forall>a. (a \<in> sv_codecs (fst x)) = (snd x a = Some SvServing))
     \<and> (\<forall>a. snd x a = Some SvEnded \<longrightarrow> a \<in> sv_closed (fst x))"

lemma server_step_inv: "server_step x e y \<Longrightarrow> server_inv x \<Longrightarrow> server_inv y"
  by (induction rule: server_step.induct)
    (auto simp: server_inv_def ServeCodec_step_def serve_check_def serve_add_def serve_end_def Stop_def
      split: serve_phase.splits if_splits)

interpretation serving: machine_invariant server_start server_move server_inv
proof
  fix x y :: "'f srvsys"
  show "server_start x \<Longrightarrow> server_inv x"
    unfolding server_start_def by (elim exE) (simp add: server_inv_def NewServer_def RegisterName_def split: prod.split)
  show "server_move x y \<Longrightarrow> server_inv x \<Longrightarrow> server_inv y" by (auto simp: server_move_def intro: server_step_inv)
qed

lemma server_reach_inv: "server_reach x \<Longrightarrow> server_inv x"
  unfolding server_reach_def by (rule serving.reach_inv)


text \<open>The server of the examples has passed the check for connection 0 when it is stopped.\<close>

lemma Stop_race_run:
  "\<exists>st. server_reach (Stop (NewServer m), st) \<and> st 0 = Some SvChecked"
proof -
  have run: "sv_run (NewServer m)" by (simp add: NewServer_def RegisterName_def split: prod.split)
  have 1: "server_reach (NewServer m, Map.empty(0 \<mapsto> SvStart))"
    by (rule server_reach_step [OF server_reach_init server_step.accept]) simp
  have "ServeCodec_step 0 SvStart (NewServer m) = Some (SvChecked, NewServer m)"
    by (simp add: ServeCodec_step_def serve_check_def run)
  then have "server_step (NewServer m, Map.empty(0 \<mapsto> SvStart)) (ServeEv 0) (NewServer m, (Map.empty(0 \<mapsto> SvStart))(0 \<mapsto> SvChecked))"
    by (rule server_step.serve [rotated]) simp
  from server_reach_step [OF 1 this] have "server_reach (NewServer m, Map.empty(0 \<mapsto> SvChecked))" by simp
  from server_reach_step [OF this server_step.stop] show ?thesis by auto
qed

text \<open>Every step but a hangup of the peer of connection \<open>a\<close>.\<close>

definition own_step :: "nat \<Rightarrow> 'f srvsys \<Rightarrow> 'f srvsys \<Rightarrow> bool" where
  "own_step a x y \<longleftrightarrow> (\<exists>e. server_step x e y \<and> e \<noteq> HangupEv a)"

lemma own_step_serving:
  assumes "own_step a x y" and "snd x a = Some SvServing" and "a \<notin> sv_closed (fst x)" and "\<not> sv_run (fst x)"
  shows "snd y a = Some SvServing \<and> a \<notin> sv_closed (fst y) \<and> \<not> sv_run (fst y)"
proof -
  obtain e where "server_step x e y" "e \<noteq> HangupEv a" using assms(1) by (auto simp: own_step_def)
  then show ?thesis
    using assms(2-4)
  proof (induction rule: server_step.induct)
    case (serve st b ph s ph' s')
    then show ?case
      by (cases "b = a")
        (auto simp: ServeCodec_step_def serve_check_def serve_add_def serve_end_def split: serve_phase.splits if_splits)
  qed (auto simp: Stop_def)
qed

text \<open>
  C32. \<open>Stop\<close> can miss a connection: if \<open>ServeCodec\<close> has tested the run flag and \<open>Stop\<close> comes before
  the codec is added to the set, the connection is served by a stopped server, and no later step of
  the server closes it.
\<close>

theorem Stop_misses_connection:
  "\<exists>s st. server_reach (s, st) \<and> \<not> sv_run s \<and> st 0 = Some SvServing
     \<and> (\<forall>s' st'. (own_step 0)\<^sup>*\<^sup>* (s, st) (s', st') \<longrightarrow> st' 0 = Some SvServing \<and> 0 \<notin> sv_closed s')"
proof -
  define s0 where "s0 = Stop (NewServer (undefined :: 'a))"
  obtain st where r: "server_reach (s0, st)" "st 0 = Some SvChecked"
    using Stop_race_run [of "undefined :: 'a"] unfolding s0_def by blast
  have s0: "\<not> sv_run s0" "0 \<notin> sv_closed s0"
    by (simp_all add: s0_def Stop_def NewServer_def RegisterName_def split: prod.split)
  let ?s = "s0\<lparr>sv_codecs := insert 0 (sv_codecs s0)\<rparr>"
  have "ServeCodec_step 0 SvChecked s0 = Some (SvServing, ?s)"
    by (simp add: ServeCodec_step_def serve_add_def)
  with r have "server_reach (?s, st(0 \<mapsto> SvServing))" by (blast intro: server_reach_step server_step.serve)
  moreover have "st' 0 = Some SvServing \<and> 0 \<notin> sv_closed s'"
    if "(own_step 0)\<^sup>*\<^sup>* (?s, st(0 \<mapsto> SvServing)) (s', st')" for s' st'
  proof -
    have "snd (s', st') 0 = Some SvServing \<and> 0 \<notin> sv_closed (fst (s', st')) \<and> \<not> sv_run (fst (s', st'))"
      using that
    proof (induction rule: rtranclp_induct)
      case base
      show ?case using s0 by simp
    next
      case (step y z)
      then show ?case using own_step_serving by blast
    qed
    then show ?thesis by simp
  qed
  moreover have "\<not> sv_run ?s" using s0 by simp
  ultimately show ?thesis by (intro exI [of _ ?s] exI [of _ "st(0 \<mapsto> SvServing)"]) simp
qed

theorem Stop_misses_connection_witness:
  "\<exists>(s :: nat server) st. server_reach (s, st) \<and> \<not> sv_run s \<and> st 0 = Some SvServing \<and> 0 \<notin> sv_closed s"
  using Stop_misses_connection [where 'a = nat] by blast


section \<open>Endpoints\<close>

text \<open>The service of an API is known by its type's name and its methods.\<close>

record 'f API =
  Namespace :: string
  Version :: string
  Service_type :: string
  Service_methods :: "'f gomethod list"
  Public :: bool

fun register_apis :: "'f API list \<Rightarrow> 'f server \<Rightarrow> rpc_error option \<times> 'f server" where
  "register_apis [] s = (None, s)"
| "register_apis (api # apis) s =
     (case RegisterName s (Namespace api) (Service_type api) (Service_methods api) of
        (Some err, s) \<Rightarrow> (Some err, s)
      | (None, s) \<Rightarrow> register_apis apis s)"

text \<open>The listener, or the error of the operating system, is an argument.\<close>

definition StartIPCEndpoint :: "'f \<Rightarrow> 'f API list \<Rightarrow> rpc_error + 'l \<Rightarrow> rpc_error + ('l \<times> 'f server)" where
  "StartIPCEndpoint modules_fn apis listen =
     (case register_apis apis (NewServer modules_fn) of
        (Some err, _) \<Rightarrow> Inl err
      | (None, handler) \<Rightarrow> (case listen of Inl err \<Rightarrow> Inl err | Inr listener \<Rightarrow> Inr (listener, handler)))"

text \<open>What \<open>Accept\<close> can give, and the loop of \<open>ServeListener\<close>: the connections served and the error.\<close>

datatype 'k accepted = Conn 'k | TemporaryError rpc_error | FatalError rpc_error

fun ServeListener :: "'k accepted list \<Rightarrow> 'k list \<Rightarrow> 'k list \<times> rpc_error option" where
  "ServeListener [] served = (served, None)"
| "ServeListener (TemporaryError e # xs) served = ServeListener xs served"
| "ServeListener (FatalError e # xs) served = (served, Some e)"
| "ServeListener (Conn k # xs) served = ServeListener xs (served @ [k])"

lemma RegisterName_services:
  assumes "RegisterName s nam T ms = (None, s')"
  shows "sv_services s' nam \<noteq> None" "\<forall>n. sv_services s n \<noteq> None \<longrightarrow> sv_services s' n \<noteq> None"
    "\<forall>n. n \<noteq> nam \<longrightarrow> sv_services s' n = sv_services s n"
  using assms
  by (auto simp: RegisterName_def registerName_def Let_def split: prod.splits if_splits)

lemma register_apis_services:
  assumes "register_apis apis s = (None, s')"
  shows "(sv_services s' n \<noteq> None) = (sv_services s n \<noteq> None \<or> n \<in> Namespace ` set apis)"
  using assms
proof (induction apis s rule: register_apis.induct)
  case (2 api apis s)
  then obtain s1 where s1: "RegisterName s (Namespace api) (Service_type api) (Service_methods api) = (None, s1)"
    "register_apis apis s1 = (None, s')" by (auto split: prod.splits option.splits)
  note R = RegisterName_services [OF s1(1)]
  from 2(1) [OF s1(1) [symmetric] refl s1(2)]
  show ?case using R by (cases "n = Namespace api") auto
qed simp

lemma rpc_service_suitable: "length (suitableCallbacks (rpc_service_methods f) []) = 1"
proof -
  have "suitableCallbacks (rpc_service_methods f) [] = (case newCallback True (m_func (hd (rpc_service_methods f))) of
      None \<Rightarrow> [] | Some cb \<Rightarrow> [(formatName ''Modules'', cb)])"
    by (simp add: rpc_service_methods_def split: option.split)
  moreover have "newCallback True (m_func (hd (rpc_service_methods f))) \<noteq> None"
    by (simp add: rpc_service_methods_def newCallback_def isErrorType_def implements_error_def Let_def split: prod.split)
  ultimately show ?thesis by auto
qed

lemma RegisterName_rpc:
  assumes "nam \<noteq> []"
  shows "\<exists>s' svc. RegisterName s nam T (rpc_service_methods f) = (None, s') \<and> sv_services s' = (sv_services s)(nam \<mapsto> svc)"
proof -
  have "suitableCallbacks (rpc_service_methods f) [] \<noteq> []" using rpc_service_suitable [of f] by auto
  then show ?thesis using assms by (auto simp: RegisterName_def registerName_def Let_def)
qed

lemma NewServer_services: "sv_services (NewServer m) n \<noteq> None \<longleftrightarrow> n = MetadataApi"
proof -
  let ?s = "\<lparr>sv_services = Map.empty, sv_run = True, sv_codecs = {}, sv_closed = {}\<rparr> :: 'a server"
  obtain s' svc where "RegisterName ?s MetadataApi ''*rpc.RPCService'' (rpc_service_methods m) = (None, s')"
    "sv_services s' = (sv_services ?s)(MetadataApi \<mapsto> svc)"
    using RegisterName_rpc [of MetadataApi ?s "''*rpc.RPCService''" m] by (auto simp: MetadataApi_def)
  then show ?thesis by (simp add: NewServer_def)
qed

text \<open>
  An endpoint offers what it was given: if it starts, the metadata service lists exactly the
  namespaces of the APIs and its own, all in version 1.0.
\<close>

theorem StartIPCEndpoint_modules:
  assumes "StartIPCEndpoint m apis listen = Inr (l, s)"
  shows "Modules s = (\<lambda>n. if n = ''rpc'' \<or> n \<in> Namespace ` set apis then Some ''1.0'' else None)"
proof -
  have "register_apis apis (NewServer m) = (None, s)"
    using assms by (auto simp: StartIPCEndpoint_def split: prod.splits option.splits sum.splits)
  then have "sv_services s n \<noteq> None \<longleftrightarrow> n = ''rpc'' \<or> n \<in> Namespace ` set apis" for n
    using register_apis_services [of apis "NewServer m" s n] NewServer_services [of m n] by (simp only: MetadataApi_def)
  then show ?thesis unfolding Modules_def by (intro ext) (metis (no_types))
qed

theorem StartIPCEndpoint_modules_witness:
  "\<exists>s. StartIPCEndpoint 0 [\<lparr>Namespace = ''eth'', Version = ''1.0'', Service_type = ''*T'', Service_methods = rpc_service_methods (1 :: nat), Public = True\<rparr>]
       (Inr ''/tmp/x.ipc'') = Inr (''/tmp/x.ipc'', s) \<and> Modules s ''eth'' = Some ''1.0''"
proof -
  let ?apis = "[\<lparr>Namespace = ''eth'', Version = ''1.0'', Service_type = ''*T'', Service_methods = rpc_service_methods (1 :: nat), Public = True\<rparr>]"
  obtain s where s: "StartIPCEndpoint 0 ?apis (Inr ''/tmp/x.ipc'') = Inr (''/tmp/x.ipc'', s)"
  proof -
    obtain s' where "RegisterName (NewServer 0) ''eth'' ''*T'' (rpc_service_methods (1 :: nat)) = (None, s')"
      using RegisterName_rpc [of "''eth''" "NewServer 0" "''*T''" "1 :: nat"] by blast
    then show thesis using that [of s'] by (simp add: StartIPCEndpoint_def)
  qed
  from StartIPCEndpoint_modules [OF this] have "Modules s ''eth'' = Some ''1.0''" by simp
  with s show ?thesis by blast
qed

lemma register_apis_all:
  assumes "register_apis apis s = (None, s')"
  shows "register_all register_receiver (map (\<lambda>api. (Namespace api, Service_type api, Service_methods api)) apis) (sv_services s)
    = Some (sv_services s')"
  using assms
proof (induction apis arbitrary: s)
  case (Cons api apis)
  then obtain s1 where s1: "RegisterName s (Namespace api) (Service_type api) (Service_methods api) = (None, s1)"
      "register_apis apis s1 = (None, s')" by (auto split: prod.splits option.splits)
  then have "register_receiver (sv_services s) (Namespace api) (Service_type api, Service_methods api) = Some (sv_services s1)"
    by (auto simp: RegisterName_def register_receiver_def split: prod.splits)
  then show ?case using Cons.IH [OF s1(2)] by simp
qed simp

text \<open>
  An endpoint serves its APIs: when it has started, the call \<open>namespace_method\<close> finds exactly the callback that the
  API of that namespace has for the method, as long as the namespaces are distinct, contain no
  separator and are not the one of the metadata service.
\<close>

theorem StartIPCEndpoint_serves:
  assumes "StartIPCEndpoint m apis listen = Inr (l, s)" and "distinct (map Namespace apis)"
    and "\<forall>api\<in>set apis. serviceMethodSeparator \<notin> set (Namespace api) \<and> Namespace api \<noteq> ''rpc''
      \<and> distinct (map (formatName \<circ> m_name) (Service_methods api))"
    and "api \<in> set apis"
  shows "registry_callback (sv_services s) (Namespace api @ serviceMethodSeparator # k) = offered (Service_methods api) k"
proof -
  let ?xs = "map (\<lambda>api. (Namespace api, Service_type api, Service_methods api)) apis"
  have "register_apis apis (NewServer m) = (None, s)"
    using assms(1) by (auto simp: StartIPCEndpoint_def split: prod.splits option.splits sum.splits)
  note all = register_apis_all [OF this]
  have "distinct (map fst ?xs)" using assms(2) by (simp add: comp_def)
  moreover have "(Namespace api, Service_type api, Service_methods api) \<in> set ?xs" using assms(4) by force
  moreover have n: "serviceMethodSeparator \<notin> set (Namespace api)" "Namespace api \<noteq> ''rpc''"
    "distinct (map (formatName \<circ> m_name) (Service_methods api))" using assms(3,4) by auto
  ultimately have "call_named (sv_services s) (Namespace api) k =
      (case offered (Service_methods api) k of Some c \<Rightarrow> Some c | None \<Rightarrow> call_named (sv_services (NewServer m)) (Namespace api) k)"
    using registry.look_all [OF all] by simp
  moreover have "sv_services (NewServer m) (Namespace api) = None"
    using NewServer_services [of m "Namespace api"] n(2) by (simp add: MetadataApi_def)
  then have "call_named (sv_services (NewServer m)) (Namespace api) k = None" by (simp add: call_named_eq [OF n(1)])
  ultimately have "call_named (sv_services s) (Namespace api) k = offered (Service_methods api) k" by (simp split: option.splits)
  then show ?thesis by (simp add: call_named_def)
qed

theorem StartIPCEndpoint_serves_witness:
  "\<exists>s. StartIPCEndpoint (0 :: nat) [\<lparr>Namespace = ''eth'', Version = ''1.0'', Service_type = ''*T'', Service_methods = rpc_service_methods 1, Public = True\<rparr>]
       (Inr ()) = Inr ((), s) \<and> map_option (\<lambda>cb. fn_id (fn cb)) (registry_callback (sv_services s) ''eth_modules'') = Some 1"
proof -
  let ?api = "\<lparr>Namespace = ''eth'', Version = ''1.0'', Service_type = ''*T'', Service_methods = rpc_service_methods (1 :: nat), Public = True\<rparr>"
  obtain s where s: "StartIPCEndpoint 0 [?api] (Inr ()) = Inr ((), s)"
    using RegisterName_rpc [of "''eth''" "NewServer 0" "''*T''" "1 :: nat"] by (auto simp: StartIPCEndpoint_def)
  have "\<forall>api\<in>set [?api]. serviceMethodSeparator \<notin> set (Namespace api) \<and> Namespace api \<noteq> ''rpc''
      \<and> distinct (map (formatName \<circ> m_name) (Service_methods api))"
    by (simp add: serviceMethodSeparator_def rpc_service_methods_def)
  from StartIPCEndpoint_serves [OF s _ this, of ?api "''modules''"]
  have "registry_callback (sv_services s) ''eth_modules'' = offered (rpc_service_methods 1) ''modules''"
    by (simp add: serviceMethodSeparator_def)
  moreover have "map_option (\<lambda>cb. fn_id (fn cb)) (offered (rpc_service_methods (1 :: nat)) ''modules'') = Some 1" by code_simp
  ultimately show ?thesis using s by auto
qed

section \<open>Single requests\<close>

text \<open>The started process runs before the deferred \<open>close\<close>, which waits for it.\<close>

definition run_started ::
  "('f, 'v, 'c, 'g) env \<Rightarrow> callProc option \<Rightarrow> ('f, 'c, 'g) handler \<Rightarrow> ('f, 'c, 'g) handler chan_step" where
  "run_started E po h =
     (case po of
        None \<Rightarrow> Proceed h
      | Some p \<Rightarrow>
          if cp_phase p = Answering then Proceed (write_answers E (cp_batch p) (cp_answers p) h)
          else (case runProc E (cp_batch p) (cp_todo p) h of Return h \<Rightarrow> Proceed h | Panic x \<Rightarrow> Panicked x))"

definition serveSingleRequest ::
  "('f, 'v, 'c, 'g) env \<Rightarrow> 'f server \<Rightarrow> (nat \<Rightarrow> requestOp) \<Rightarrow> (nat \<Rightarrow> client_sub) \<Rightarrow> (nat \<Rightarrow> bool)
     \<Rightarrow> read_error + string \<Rightarrow> 'c \<Rightarrow> 'g \<Rightarrow> ('f, 'c, 'g) handler option chan_step" where
  "serveSingleRequest E s os cs pick decoded c g =
     (if \<not> sv_run s then Proceed None
      else
        let h = (newHandler c g (sv_services s) os cs)\<lparr>allowSubscribe := False\<rparr> in
        step_bind
          (case readBatch decoded of
             Inl err \<Rightarrow>
               Proceed (if err \<noteq> EOF then h\<lparr>h_conn := snd (e_write E (WMsg (errorMessage (InvalidMessageError ''parse error''))) (h_conn h))\<rparr>
                        else h)
           | Inr (reqs, batch) \<Rightarrow>
               if batch then step_bind (handleBatch pick reqs h) (\<lambda>(po, h). run_started E po h)
               else step_bind (handleMsg (pick 0) (reqs ! 0) h) (\<lambda>(po, h). run_started E po h))
          (\<lambda>h. step_bind (handler_close (PlainError ''EOF'') None h) (\<lambda>h. Proceed (Some h))))"

text \<open>Without subscriptions, a call leaves the notifiers and the map of subscriptions as they are.\<close>

lemma handleCall_no_subscribe:
  assumes "\<not> allowSubscribe h" and "serverSubs h = []" and "handleCall E msg h nn = (a, h', nn')"
  shows "nn' = nn \<and> notifiers h' = notifiers h \<and> serverSubs h' = [] \<and> h_conn h' = h_conn h \<and> \<not> allowSubscribe h'
    \<and> ops h' = ops h \<and> respWait h' = respWait h \<and> clientSubs h' = clientSubs h
    \<and> (isSubscribe msg \<longrightarrow> a = errorResponse msg ErrNotificationsUnsupported)"
proof (cases "isSubscribe msg")
  case True
  with assms show ?thesis by (auto simp: handleCall_def handleSubscribe_def)
next
  case False
  show ?thesis
  proof (cases "isUnsubscribe msg")
    case True
    have "run_unsubscribe msg sid h = (errorResponse msg ErrSubscriptionNotFound, h)" for sid
      using assms(2) by (simp add: run_unsubscribe_def unsubscribe_def)
    with assms False True show ?thesis by (auto simp: handleCall_def split: sum.splits)
  next
    case False': False
    with assms False show ?thesis
      by (auto simp: handleCall_def Let_def dest!: runMethod_plain split: option.splits sum.splits prod.splits if_splits)
  qed
qed

text \<open>
  C28. A single request is served without subscriptions: on a running server and a connection that
  accepts writes, a call is answered by exactly one message, which answers it (with the error
  "notifications not supported" for a subscribe call), and the handler is closed; a stopped server
  does nothing.
\<close>

theorem serveSingleRequest_answers:
  assumes "e_write E = writeJSON (\<lambda>_. None) now dl" and "parseMessage raw = ([Some msg], False)" and "isCall msg"
  shows "if sv_run s
    then \<exists>h a. serveSingleRequest E s os cs pick (Inr raw) c g = Proceed (Some h)
       \<and> written (h_conn h) = written c @ [WMsg a] \<and> answers_to msg a \<and> rootCanceled h \<and> serverSubs h = []
       \<and> (isSubscribe msg \<longrightarrow> a = errorResponse msg ErrNotificationsUnsupported)
    else serveSingleRequest E s os cs pick (Inr raw) c g = Proceed None"
proof (cases "sv_run s")
  case False
  then show ?thesis by (simp add: serveSingleRequest_def)
next
  case True
  define h0 where "h0 = (newHandler c g (sv_services s) os cs)\<lparr>allowSubscribe := False\<rparr>"
  have h0: "\<not> allowSubscribe h0" "serverSubs h0 = []" "notifiers h0 = []" "h_conn h0 = c" "respWait h0 = []" "clientSubs h0 = []"
    by (simp_all add: h0_def newHandler_def)
  have n: "\<not> isNotification msg" "\<not> isResponse msg"
    using assms(3) by (auto simp: isCall_def isNotification_def isResponse_def hasValidID_def split: option.splits)
  have imm: "handleMsg (pick 0) msg h0 = Proceed (Some (startCallProc False [msg]), h0)"
    using n by (simp add: handleMsg_def handleImmediate_def)
  obtain a h1 nn where call: "handleCall E msg h0 [] = (a, h1, nn)" by (cases "handleCall E msg h0 []")
  note h1 = handleCall_no_subscribe [OF h0(1,2) call]
  have cm: "handleCallMsg E msg h0 [] = (Some a, h1, [])"
    using n assms(3) call h1 by (simp add: handleCallMsg_def)
  have ans: "answers_to msg a"
    using handleCallMsg_answer [where E = E and msg = msg and h = h0 and nn = "[]"] by (simp add: cm)
  have run: "run_started E (Some (startCallProc False [msg])) h0 = Proceed (h1\<lparr>h_conn := snd (e_write E (WMsg a) (h_conn h1))\<rparr>)"
    by (simp add: run_started_def startCallProc_def runProc_def cm write_answers_def answer_wire_def)
  let ?h2 = "h1\<lparr>h_conn := snd (e_write E (WMsg a) (h_conn h1))\<rparr>"
  have close: "handler_close (PlainError ''EOF'') None ?h2 =
      Proceed (?h2\<lparr>rootCanceled := True, respWait := [], clientSubs := [], serverSubs := [], notifiers := notifiers h1\<rparr>)"
    using h1 h0 by (simp add: handler_close_def cancelAllRequests_def cancelServerSubscriptions_def)
  have rb: "readBatch (Inr raw) = Inr ([msg], False)" using assms(2) by (simp add: readBatch_def)
  have "serveSingleRequest E s os cs pick (Inr raw) c g =
      Proceed (Some (?h2\<lparr>rootCanceled := True, respWait := [], clientSubs := [], serverSubs := [], notifiers := notifiers h1\<rparr>))"
    using True imm run close by (simp add: serveSingleRequest_def rb h0_def [symmetric])
  moreover have "written (snd (e_write E (WMsg a) (h_conn h1))) = written c @ [WMsg a]"
    using h1 h0 by (simp add: assms(1) writeJSON_def Let_def)
  ultimately show ?thesis using True ans h1 by simp
qed

theorem serveSingleRequest_answers_witness:
  "\<exists>h a. serveSingleRequest demo_env (NewServer (0 :: nat)) (\<lambda>_. \<lparr>op_ids = [], op_err = None, op_resp = make_chan 0, op_sub = None\<rparr>)
       (\<lambda>_. newClientSubscription []) (\<lambda>_. False) (Inr (message_String demo_msg)) (NewFuncCodec None) () = Proceed (Some h)
     \<and> written (h_conn h) = [WMsg a] \<and> ID a = Some ''1'' \<and> Err a \<noteq> None"
proof -
  have run: "sv_run (NewServer (0 :: nat))" by (simp add: NewServer_def RegisterName_def split: prod.split)
  have p: "parseMessage (message_String demo_msg) = ([Some demo_msg], False)" by code_simp
  have c: "isCall demo_msg" "isSubscribe demo_msg" "ID demo_msg = Some ''1''" by code_simp+
  have w: "e_write demo_env = writeJSON (\<lambda>_. None) 0 None" by (simp add: demo_env_def)
  have e: "written (NewFuncCodec None) = []" by (simp add: NewFuncCodec_def)
  from serveSingleRequest_answers [OF w p c(1), where s = "NewServer 0" and os = "\<lambda>_. \<lparr>op_ids = [], op_err = None, op_resp = make_chan 0, op_sub = None\<rparr>"
      and cs = "\<lambda>_. newClientSubscription []" and pick = "\<lambda>_. False" and c = "NewFuncCodec None" and g = "()"]
  obtain h where "serveSingleRequest demo_env (NewServer 0) (\<lambda>_. \<lparr>op_ids = [], op_err = None, op_resp = make_chan 0, op_sub = None\<rparr>)
       (\<lambda>_. newClientSubscription []) (\<lambda>_. False) (Inr (message_String demo_msg)) (NewFuncCodec None) () = Proceed (Some h)"
    "written (h_conn h) = [WMsg (errorResponse demo_msg ErrNotificationsUnsupported)]"
    using run c e by auto
  then show ?thesis
    using errorResponse_fields [of demo_msg ErrNotificationsUnsupported] c(3)
    by (intro exI [of _ h] exI [of _ "errorResponse demo_msg ErrNotificationsUnsupported"]) simp
qed

end
