(* ===== verification/Rpc_Inproc.thy ===== *)
theory Rpc_Inproc
  imports Rpc_Client Rpc_Server
begin

text \<open>
  A client in the server's own process (\<open>simple_rpc/rpc/inproc.go\<close>): the two ends of a pipe, one held by a client, the other served by
  \<open>ServeCodec\<close>, whose connection is a client too, with the services of the server. A call is followed over the pipe and back, through the
  codec, the dispatch loops, the registry and the handler of the other side.
\<close>

section \<open>The pipe\<close>

text \<open>The text that an end writes, as the encoder makes it.\<close>

definition pipe_text :: "wire \<Rightarrow> string" where
  "pipe_text w = (case w of WMsg m \<Rightarrow> message_String m | WBatch ms \<Rightarrow> encode_array (map message_String ms))"

text \<open>
  \<open>DialInProc\<close>: the client and the served end. An end of a pipe has no remote address of the kind that a codec asks for.
\<close>

definition DialInProc ::
  "'f server \<Rightarrow> 'g \<Rightarrow> 'h \<Rightarrow> (nat \<Rightarrow> requestOp) \<Rightarrow> (nat \<Rightarrow> client_sub)
     \<Rightarrow> (rpc_error + ('f, 'g) client) \<times> ('f, 'h) client" where
  "DialInProc handler g idgen os cs =
     (newClient (Inr (NewFuncCodec None)) g os cs, initClient (NewFuncCodec None) idgen (sv_services handler) os cs)"

lemma read_pipe_text:
  "wf_message m \<Longrightarrow> client_read pick (Inr (pipe_text (WMsg m))) = ([], EvReadOp pick [m] False)"
  "list_all wf_message ms \<Longrightarrow> client_read pick (Inr (pipe_text (WBatch ms))) = ([], EvReadOp pick ms True)"
  by (simp_all add: client_read_def readBatch_def pipe_text_def parseMessage_single parseMessage_batch comp_def)

section \<open>The request\<close>

lemma compact_digits: "list_all is_digit s \<Longrightarrow> compact Outside s = s"
  by (induction s) (auto simp: is_digit_def is_ws_def char_code_def quote_char_def)

lemma request_message:
  assumes "newMessage mth (Some (Inr params)) n = (Inr msg, n')" and "ascii mth" and "mth \<noteq> []" and "is_value params" and "compact Outside params = params"
  shows "wf_message msg" "isCall msg" "\<not> isNotification msg" "\<not> isResponse msg" "Method msg = mth" "Params msg = Some params"
    and "ID msg = Some (dec_nat (unat (n + 1)))" "n' = n + 1"
proof -
  let ?i = "dec_nat (unat (n + 1))"
  have msg: "msg = zero_message\<lparr>jsonrpcMessage.Version := vsn, ID := Some ?i, Method := mth, Params := Some params\<rparr>" "n' = n + 1"
    using assms(1) by (auto simp: newMessage_def nextID_def Let_def)
  obtain c t where ct: "?i = c # t" using dec_nat_nonempty by (cases ?i) auto
  have "is_digit c" using list_all_digit_dec_nat [of "unat (n + 1)"] by (simp add: ct)
  then have v: "hasValidID msg" using ct by (auto simp: msg(1) hasValidID_def is_digit_def char_code_def)
  have "ascii vsn" by (simp add: vsn_def ascii_simps char_code_def)
  then show "wf_message msg"
    using assms(2,4,5) compact_digits [OF list_all_digit_dec_nat] by (simp add: msg(1) zero_message_def wf_message_def wf_raw_def ascii_simps)
  show "isCall msg" "\<not> isNotification msg" "\<not> isResponse msg" "Method msg = mth" "Params msg = Some params" "ID msg = Some ?i" "n' = n + 1"
    using v assms(3) by (simp_all add: msg isCall_def isNotification_def isResponse_def)
qed

section \<open>The answer\<close>

text \<open>What the server answers, from what the method gave, and what the caller gets from that.\<close>

definition call_answer :: "('f, 'v, 'c, 'g) env \<Rightarrow> jsonrpcMessage \<Rightarrow> 'f callback \<Rightarrow> 'v rvalue list outcome \<Rightarrow> jsonrpcMessage" where
  "call_answer E msg callb r =
     (case call_results callb r of Inl err \<Rightarrow> errorResponse msg err | Inr v \<Rightarrow> response msg (marshal_result E v))"

definition wire_error :: "rpc_error \<Rightarrow> rpc_error" where
  "wire_error err = JsonError (the (Err (errorMessage err)))"

definition caller_result ::
  "('f, 'v, 'c, 'g) env \<Rightarrow> 'f callback \<Rightarrow> 'v rvalue list outcome \<Rightarrow> (string \<Rightarrow> rpc_error option) \<Rightarrow> rpc_error option" where
  "caller_result E callb r unmarshal =
     (case call_results callb r of
        Inl err \<Rightarrow> Some (wire_error err)
      | Inr v \<Rightarrow> (case marshal_result E v of Inl err \<Rightarrow> Some (wire_error err) | Inr enc \<Rightarrow> unmarshal enc))"

lemma errorMessage_error: "Err (errorMessage err) \<noteq> None" "Err (errorResponse msg err) = Err (errorMessage err)"
  by (simp_all add: errorResponse_def errorMessage_def Let_def)

lemma call_finish_answer:
  assumes "wf_message (call_answer E msg callb r)"
  shows "call_finish unmarshal (Some (call_answer E msg callb r), None) = Return (caller_result E callb r unmarshal)"
proof -
  have "enc \<noteq> []" if "call_results callb r = Inr v" "marshal_result E v = Inr enc" for v enc
    using assms that value_head(1) by (auto simp: call_answer_def response_def zero_message_def wf_message_def wf_raw_def)
  then show ?thesis
    by (auto simp: call_finish_def call_answer_def caller_result_def response_def errorMessage_error wire_error_def
        zero_message_def raw_bytes_def split: sum.split option.split)
qed

lemma call_answer_response:
  assumes "isCall msg"
  shows "ID (call_answer E msg callb r) = ID msg" "isResponse (call_answer E msg callb r)" "\<not> isNotification (call_answer E msg callb r)"
  using assms
  by (auto simp: call_answer_def response_def errorResponse_def errorMessage_def Let_def zero_message_def isCall_def isResponse_def
      isNotification_def hasValidID_def split: sum.split option.splits list.splits)

section \<open>The served end\<close>

text \<open>A call that the services answer by \<open>ans\<close>: its method is registered, its arguments parse, and it uses no notifier.\<close>

definition served_as :: "('f, 'v, 'c, 'g) env \<Rightarrow> 'f serviceRegistry \<Rightarrow> jsonrpcMessage \<Rightarrow> jsonrpcMessage \<Rightarrow> bool" where
  "served_as E reg msg ans \<longleftrightarrow> isCall msg \<and> \<not> isNotification msg \<and> \<not> isSubscribe msg \<and> \<not> isUnsubscribe msg
     \<and> (\<exists>callb args r. registry_callback reg (Method msg) = Some callb
          \<and> parsePositionalArguments (e_dec E) (e_zero E) (Params msg) (argTypes callb) = Inr args
          \<and> e_invoke E (fn_id (fn callb)) (fullargs callb args) = Done r \<and> ans = call_answer E msg callb r)"

lemma handleCallMsg_served:
  assumes "served_as E (h_reg h) msg ans"
  shows "\<exists>h'. handleCallMsg E msg h nn = (Some ans, h', nn) \<and> h_conn h' = h_conn h \<and> h_reg h' = h_reg h"
proof -
  obtain callb args r where m: "isCall msg" "\<not> isNotification msg" "\<not> isSubscribe msg" "\<not> isUnsubscribe msg"
      "registry_callback (h_reg h) (Method msg) = Some callb"
      "parsePositionalArguments (e_dec E) (e_zero E) (Params msg) (argTypes callb) = Inr args"
      "e_invoke E (fn_id (fn callb)) (fullargs callb args) = Done r" "ans = call_answer E msg callb r"
    using assms by (auto simp: served_as_def)
  have "runMethod E None msg callb args h = (ans, h)"
    using m(7,8) by (simp add: runMethod_def call_answer_def split: sum.split)
  then show ?thesis using m by (auto simp: handleCallMsg_def handleCall_def Let_def)
qed

lemma call_loop_served:
  "list_all2 (served_as E (h_reg h)) msgs anss \<Longrightarrow>
   \<exists>h'. call_loop E msgs acc h nn = (acc @ anss, h', nn) \<and> h_conn h' = h_conn h"
proof (induction msgs arbitrary: anss acc h)
  case (Cons msg msgs)
  then obtain ans rest where a: "anss = ans # rest" "served_as E (h_reg h) msg ans" "list_all2 (served_as E (h_reg h)) msgs rest"
    by (auto simp: list_all2_Cons1)
  obtain h1 where h1: "handleCallMsg E msg h nn = (Some ans, h1, nn)" "h_conn h1 = h_conn h" "h_reg h1 = h_reg h"
    using handleCallMsg_served [OF a(2)] by blast
  from Cons.IH [of h1 rest "acc @ [ans]"] a(3) h1 show ?case by (auto simp: a(1))
qed simp

lemma runProc_served:
  assumes "list_all2 (served_as E (h_reg h)) msgs anss" and "e_write E = writeJSON (\<lambda>_. None) now dl"
  shows "\<exists>h'. runProc E batch msgs h = Return h' \<and> written (h_conn h') = written (h_conn h) @ answer_wire batch anss"
proof -
  obtain h1 where "call_loop E msgs [] h [] = (anss, h1, [])" "h_conn h1 = h_conn h"
    using call_loop_served [OF assms(1), of "[]" "[]"] by auto
  then show ?thesis using assms(2) by (simp add: runProc_def write_answers_def answer_wire_def writeJSON_def Let_def)
qed

section \<open>The whole call\<close>

text \<open>
  C10. A call over the pipe, step by step: the client's loop takes the request, what it writes is read by the served end as the same
  message, the method of the server runs and its answer is written back, the client reads this answer and hands it to the
  waiting caller, who gets the encoded result of the method, or its error with code, text and data as on the wire; and the
  request is forgotten.
\<close>

theorem inproc_call:
  assumes "\<not> c_locked c" and "newMessage mth (Some (Inr params)) n = (Inr msg, n')" and "ops (c_handler c) a = call_op (raw_bytes (ID msg))"
    and "ascii mth" and "mth \<noteq> []" and "is_value params" and "compact Outside params = params"
    and "\<not> isSubscribe msg" and "\<not> isUnsubscribe msg"
    and "registry_callback (h_reg (c_handler sv)) mth = Some callb"
    and "parsePositionalArguments (e_dec E) (e_zero E) (Some params) (argTypes callb) = Inr args"
    and "e_invoke E (fn_id (fn callb)) (fullargs callb args) = Done r"
    and "e_write E = writeJSON (\<lambda>_. None) now dl" and "wf_message (call_answer E msg callb r)"
  shows "\<exists>c1 c2 c3 sv1 h op. dispatch (EvReqInit a) c = Proceed c1 \<and> dispatch (EvReqSent None) c1 = Proceed c2
    \<and> dispatch (snd (client_read pick (Inr (pipe_text (WMsg msg))))) sv = Proceed sv1 \<and> c_procs sv1 = c_procs sv @ [startCallProc False [msg]]
    \<and> runProc E False [msg] (c_handler sv1) = Return h
    \<and> written (h_conn h) = written (h_conn (c_handler sv)) @ [WMsg (call_answer E msg callb r)]
    \<and> dispatch (snd (client_read pick (Inr (pipe_text (last (written (h_conn h))))))) c2 = Proceed c3
    \<and> op_wait (ops (c_handler c3) a) = Proceed ((Some (call_answer E msg callb r), None), op)
    \<and> CallContext True [] mth (Some (Inr params)) (\<lambda>_ _. None) (Some (call_answer E msg callb r), None) unmarshal n
        = (Return (caller_result E callb r unmarshal), n')
    \<and> map_of (respWait (c_handler c3)) (raw_bytes (ID msg)) = None"
proof -
  note req = request_message [OF assms(2,4-7)]
  let ?ans = "call_answer E msg callb r" and ?i = "raw_bytes (ID msg)"
  let ?h1 = "(c_handler c)\<lparr>respWait := AList.update ?i a (respWait (c_handler c))\<rparr>"
  let ?c1 = "c\<lparr>c_locked := True, c_lastOp := Some a, c_handler := ?h1\<rparr>" and ?c2 = "c\<lparr>c_locked := False, c_lastOp := None, c_handler := ?h1\<rparr>"
  have out: "dispatch (EvReqInit a) c = Proceed ?c1" "dispatch (EvReqSent None) ?c1 = Proceed ?c2"
    using assms(1,3) by (simp_all add: dispatch_def addRequestOp_def call_op_def)
  have "dispatch (EvReadOp pick [msg] False) sv = Proceed (add_proc (Some (startCallProc False [msg])) (c_handler sv) sv)"
    using req(3,4) by (simp add: dispatch_def handleMsg_def handleImmediate_def)
  then have served: "dispatch (snd (client_read pick (Inr (pipe_text (WMsg msg))))) sv = Proceed (add_proc (Some (startCallProc False [msg])) (c_handler sv) sv)"
    using read_pipe_text(1) [OF req(1)] by simp
  have "list_all2 (served_as E (h_reg (c_handler sv))) [msg] [?ans]" using req assms(8-12) by (auto simp: served_as_def)
  from runProc_served [OF this assms(13), of False] obtain h where
    h: "runProc E False [msg] (c_handler sv) = Return h" "written (h_conn h) = written (h_conn (c_handler sv)) @ [WMsg ?ans]"
    by (auto simp: answer_wire_def)
  note ans = call_answer_response [OF req(2), of E callb r]
  let ?op = "(call_op ?i)\<lparr>op_resp := \<lparr>ch_buf = [?ans], ch_cap = 1, ch_closed = False\<rparr>\<rparr>"
  let ?h3 = "?h1\<lparr>respWait := AList.delete ?i (AList.update ?i a (respWait (c_handler c))), ops := (ops (c_handler c))(a := ?op)\<rparr>"
  have "handleResponse ?ans ?h1 = Proceed ?h3"
    using assms(3) ans(1) by (simp add: handleResponse_def update_conv call_op_def make_chan_def chan_send_def)
  then have "dispatch (EvReadOp pick [?ans] False) ?c2 = Proceed (?c2\<lparr>c_handler := ?h3\<rparr>)"
    using ans(2,3) by (simp add: dispatch_def handleMsg_def handleImmediate_def add_proc_def)
  then have home: "dispatch (snd (client_read pick (Inr (pipe_text (last (written (h_conn h))))))) ?c2 = Proceed (?c2\<lparr>c_handler := ?h3\<rparr>)"
    using read_pipe_text(1) [OF assms(14)] h(2) by simp
  have wait: "op_wait ?op = Proceed ((Some ?ans, None), call_op ?i)"
    by (simp add: op_wait_def chan_recv_def call_op_def make_chan_def)
  have call: "CallContext True [] mth (Some (Inr params)) (\<lambda>_ _. None) (Some ?ans, None) unmarshal n = (Return (caller_result E callb r unmarshal), n')"
    using assms(2) call_finish_answer [OF assms(14)] by (simp add: CallContext_def)
  show ?thesis
    using out served h home wait call
    by (intro exI [of _ ?c1] exI [of _ ?c2] exI [of _ "?c2\<lparr>c_handler := ?h3\<rparr>"]
        exI [of _ "add_proc (Some (startCallProc False [msg])) (c_handler sv) sv"] exI [of _ h] exI [of _ "call_op ?i"])
      (simp add: add_proc_def delete_conv)
qed

section \<open>A batch\<close>

lemma immediate_loop_not_responses:
  "\<forall>msg\<in>set msgs. isCall msg \<Longrightarrow> immediate_loop pick msgs calls h = Proceed (calls @ msgs, h)"
  by (induction msgs arbitrary: calls)
    (auto simp: handleImmediate_def isCall_def isNotification_def isResponse_def hasValidID_def split: option.splits)

text \<open>The responses of a batch fill the channel of its request, in their order.\<close>

lemma immediate_loop_responses:
  assumes "distinct (map ID anss)" and "\<forall>ans\<in>set anss. isResponse ans \<and> \<not> isNotification ans \<and> map_of (respWait h) (raw_bytes (ID ans)) = Some a"
    and "ops h a = op" and "op_sub op = None" and "op_resp op = \<lparr>ch_buf = buf, ch_cap = k, ch_closed = False\<rparr>" and "length buf + length anss \<le> k"
  shows "\<exists>h'. immediate_loop pick anss calls h = Proceed (calls, h')
    \<and> ops h' a = op\<lparr>op_resp := \<lparr>ch_buf = buf @ anss, ch_cap = k, ch_closed = False\<rparr>\<rparr>
    \<and> (\<forall>ans\<in>set anss. map_of (respWait h') (raw_bytes (ID ans)) = None)
    \<and> (\<forall>i. map_of (respWait h) i = None \<longrightarrow> map_of (respWait h') i = None)"
  using assms
proof (induction anss arbitrary: buf h op)
  case Nil
  then show ?case by simp
next
  case (Cons ans anss)
  let ?i = "raw_bytes (ID ans)"
  let ?op = "op\<lparr>op_resp := \<lparr>ch_buf = buf @ [ans], ch_cap = k, ch_closed = False\<rparr>\<rparr>"
  let ?h = "h\<lparr>respWait := AList.delete ?i (respWait h), ops := (ops h)(a := ?op)\<rparr>"
  have "handleResponse ans h = Proceed ?h"
    using Cons.prems(2-6) by (simp add: handleResponse_def chan_send_def)
  then have step: "handleImmediate (pick (length anss)) ans h = Proceed (True, ?h)"
    using Cons.prems(2) by (simp add: handleImmediate_def)
  have valid: "\<exists>i. ID x = Some i" if "isResponse x" for x using that by (auto simp: isResponse_def hasValidID_def split: option.splits)
  have others: "raw_bytes (ID x) \<noteq> ?i" if "x \<in> set anss" for x
  proof -
    have "ID x \<noteq> ID ans" using Cons.prems(1) that by (metis distinct.simps(2) image_eqI list.set_map list.simps(9))
    moreover have "isResponse x" "isResponse ans" using Cons.prems(2) that by auto
    ultimately show ?thesis using valid by (metis raw_bytes_def option.simps(5))
  qed
  have "\<exists>h'. immediate_loop pick anss calls ?h = Proceed (calls, h')
    \<and> ops h' a = ?op\<lparr>op_resp := \<lparr>ch_buf = (buf @ [ans]) @ anss, ch_cap = k, ch_closed = False\<rparr>\<rparr>
    \<and> (\<forall>ans\<in>set anss. map_of (respWait h') (raw_bytes (ID ans)) = None)
    \<and> (\<forall>i. map_of (respWait ?h) i = None \<longrightarrow> map_of (respWait h') i = None)"
    by (rule Cons.IH) (use Cons.prems others in \<open>auto simp: delete_conv\<close>)
  then show ?case using step by (auto simp: delete_conv)
qed

lemma map_of_foldl_update:
  "map_of (foldl (\<lambda>m i. AList.update i a m) m ids) i = (if i \<in> set ids then Some a else map_of m i)"
  by (induction ids arbitrary: m) (auto simp: update_conv)

lemma served_as_ids:
  assumes "list_all2 (served_as E reg) msgs anss"
  shows "map ID anss = map ID msgs" and "\<forall>msg\<in>set msgs. isCall msg"
    and "\<forall>ans\<in>set anss. isResponse ans \<and> \<not> isNotification ans"
  using assms by (induction rule: list_all2_induct) (auto simp: served_as_def call_answer_response)

text \<open>The dispatch loop hands the answers of a batch to the caller and forgets the requests.\<close>

lemma batch_delivered:
  assumes "\<not> c_locked c" and "ops (c_handler c) a = batch_op (map (\<lambda>m. raw_bytes (ID m)) msgs)" and "distinct (map (\<lambda>m. raw_bytes (ID m)) msgs)"
    and "map ID anss = map ID msgs" and "\<forall>ans\<in>set anss. isResponse ans \<and> \<not> isNotification ans" and "anss \<noteq> []"
  shows "\<exists>c1 c2 c3. dispatch (EvReqInit a) c = Proceed c1 \<and> dispatch (EvReqSent None) c1 = Proceed c2
    \<and> dispatch (EvReadOp pick anss True) c2 = Proceed c3 \<and> ch_buf (op_resp (ops (c_handler c3) a)) = anss
    \<and> (\<forall>msg\<in>set msgs. map_of (respWait (c_handler c3)) (raw_bytes (ID msg)) = None)"
proof -
  let ?ids = "map (\<lambda>m. raw_bytes (ID m)) msgs"
  let ?h1 = "(c_handler c)\<lparr>respWait := foldl (\<lambda>m i. AList.update i a m) (respWait (c_handler c)) ?ids\<rparr>"
  let ?c1 = "c\<lparr>c_locked := True, c_lastOp := Some a, c_handler := ?h1\<rparr>" and ?c2 = "c\<lparr>c_locked := False, c_lastOp := None, c_handler := ?h1\<rparr>"
  have same: "map (\<lambda>m. raw_bytes (ID m)) anss = ?ids"
    using arg_cong [OF assms(4), of "map raw_bytes"] by (simp add: comp_def)
  have out: "dispatch (EvReqInit a) c = Proceed ?c1" "dispatch (EvReqSent None) ?c1 = Proceed ?c2"
    using assms(1,2) by (simp_all add: dispatch_def addRequestOp_def batch_op_def)
  have "raw_bytes (ID ans) \<in> set ?ids" if "ans \<in> set anss" for ans unfolding same [symmetric] using that by simp
  then have waiting: "\<forall>ans\<in>set anss. isResponse ans \<and> \<not> isNotification ans \<and> map_of (respWait ?h1) (raw_bytes (ID ans)) = Some a"
    using assms(5) by (simp add: map_of_foldl_update)
  have "length anss = length msgs" using arg_cong [OF assms(4), of length] by simp
  moreover have "distinct (map ID anss)" using assms(3) unfolding same [symmetric] by (auto simp: distinct_map inj_on_def)
  ultimately obtain h3 where
    h3: "immediate_loop pick anss [] ?h1 = Proceed ([], h3)" "ch_buf (op_resp (ops h3 a)) = anss"
      "\<forall>ans\<in>set anss. map_of (respWait h3) (raw_bytes (ID ans)) = None"
    using immediate_loop_responses [OF _ waiting, of "batch_op ?ids" "[]" "length ?ids" pick "[]"] assms(2)
    by (auto simp: batch_op_def make_chan_def)
  have "map_of (respWait h3) (raw_bytes (ID msg)) = None" if "msg \<in> set msgs" for msg
  proof -
    have "raw_bytes (ID msg) \<in> set (map (\<lambda>m. raw_bytes (ID m)) anss)" unfolding same using that by simp
    then show ?thesis using h3(3) by auto
  qed
  moreover have "dispatch (EvReadOp pick anss True) ?c2 = Proceed (?c2\<lparr>c_handler := h3\<rparr>)"
    using h3(1) assms(6) by (simp add: dispatch_def handleBatch_def add_proc_def)
  ultimately show ?thesis using out h3(2)
    by (intro exI [of _ ?c1] exI [of _ ?c2] exI [of _ "?c2\<lparr>c_handler := h3\<rparr>"]) simp
qed

text \<open>With responses in the order of the requests, every element gets its own.\<close>

lemma batch_in_order:
  assumes "distinct (map (\<lambda>m. raw_bytes (ID m)) msgs)" and "map ID anss = map ID msgs" and "length b = length msgs"
  shows "\<exists>b'. batch_loop um (map (\<lambda>m. raw_bytes (ID m)) msgs) (map (\<lambda>k. (Some (anss ! k), None)) [0..<length msgs]) b = Return (None, b')
    \<and> (\<forall>k < length msgs. b' ! k = batch_set um k (anss ! k) (b ! k))"
proof -
  let ?ids = "map (\<lambda>m. raw_bytes (ID m)) msgs"
  have same: "map (\<lambda>m. raw_bytes (ID m)) anss = ?ids" using arg_cong [OF assms(2), of "map raw_bytes"] by (simp add: comp_def)
  have len: "length anss = length msgs" using arg_cong [OF assms(2), of length] by simp
  obtain b' where b': "batch_loop um ?ids (map (\<lambda>r. (Some r, None)) anss) b = Return (None, b')"
      "\<forall>k < length ?ids. \<forall>r \<in> set anss. raw_bytes (ID r) = ?ids ! k \<longrightarrow> b' ! k = batch_set um k r (b ! k)"
    using batch_loop_matches [OF assms(1), of b anss um] assms(1,3) arg_cong [OF same, of set] arg_cong [OF same, of distinct] by auto
  have "b' ! k = batch_set um k (anss ! k) (b ! k)" if "k < length msgs" for k
    using b'(2) that len arg_cong [OF same, of "\<lambda>xs. xs ! k"] by simp
  moreover have "map (\<lambda>k. (Some (anss ! k), None :: rpc_error option)) [0..<length msgs] = map (\<lambda>r. (Some r, None)) anss"
    by (rule nth_equalityI) (use len in simp_all)
  ultimately show ?thesis using b'(1) by auto
qed

text \<open>
  C11. A batch over the pipe: the served end reads the messages that were sent as one batch, its process answers all of them in one
  array, the client hands the answers to the waiting caller in one go, forgets the requests, and every element of the batch gets the
  outcome of its own call.
\<close>

theorem inproc_batch:
  assumes "\<not> c_locked c" and "reqs \<noteq> []" and "length reqs \<le> 2 ^ 32" and "length b = length reqs"
    and "new_messages reqs n = (Inr msgs, n')" and "ops (c_handler c) a = batch_op (map (\<lambda>m. raw_bytes (ID m)) msgs)"
    and "list_all2 (served_as E (h_reg (c_handler sv))) msgs anss" and "list_all wf_message msgs" and "list_all wf_message anss"
    and "e_write E = writeJSON (\<lambda>_. None) now dl"
  shows "\<exists>c1 c2 c3 sv1 h b'. dispatch (EvReqInit a) c = Proceed c1 \<and> dispatch (EvReqSent None) c1 = Proceed c2
    \<and> dispatch (snd (client_read pick (Inr (pipe_text (WBatch msgs))))) sv = Proceed sv1 \<and> c_procs sv1 = c_procs sv @ [startCallProc True msgs]
    \<and> runProc E True msgs (c_handler sv1) = Return h \<and> written (h_conn h) = written (h_conn (c_handler sv)) @ [WBatch anss]
    \<and> dispatch (snd (client_read pick (Inr (pipe_text (last (written (h_conn h))))))) c2 = Proceed c3
    \<and> ch_buf (op_resp (ops (c_handler c3) a)) = anss \<and> (\<forall>msg\<in>set msgs. map_of (respWait (c_handler c3)) (raw_bytes (ID msg)) = None)
    \<and> BatchCallContext reqs (\<lambda>_ _. None) (\<lambda>k. (Some (anss ! k), None)) um b n = (Return (None, b'), n')
    \<and> (\<forall>k < length reqs. b' ! k = batch_set um k (anss ! k) (b ! k))"
proof -
  note ids = new_messages_ids [OF assms(5)]
  note srv = served_as_ids [OF assms(7)]
  have dist: "distinct (map (\<lambda>m. raw_bytes (ID m)) msgs)" unfolding ids(1) by (rule distinct_new_ids [OF assms(3)])
  have len: "msgs \<noteq> []" "anss \<noteq> []" using list_all2_lengthD [OF assms(7)] ids(2) assms(2) by auto
  from batch_delivered [OF assms(1,6) dist srv(1,3) len(2), of pick] obtain c1 c2 c3 where
    c: "dispatch (EvReqInit a) c = Proceed c1" "dispatch (EvReqSent None) c1 = Proceed c2" "dispatch (EvReadOp pick anss True) c2 = Proceed c3"
      "ch_buf (op_resp (ops (c_handler c3) a)) = anss" "\<forall>msg\<in>set msgs. map_of (respWait (c_handler c3)) (raw_bytes (ID msg)) = None" by blast
  let ?sv = "add_proc (Some (startCallProc True msgs)) (c_handler sv) sv"
  have served: "dispatch (snd (client_read pick (Inr (pipe_text (WBatch msgs))))) sv = Proceed ?sv"
    using read_pipe_text(2) [OF assms(8)] immediate_loop_not_responses [OF srv(2), of pick "[]" "c_handler sv"] len(1) by (simp add: dispatch_def handleBatch_def)
  obtain h where h: "runProc E True msgs (c_handler sv) = Return h" "written (h_conn h) = written (h_conn (c_handler sv)) @ [WBatch anss]"
    using runProc_served [OF assms(7,10), of True] len(2) by (auto simp: answer_wire_def)
  have home: "dispatch (snd (client_read pick (Inr (pipe_text (last (written (h_conn h))))))) c2 = Proceed c3"
    using read_pipe_text(2) [OF assms(9)] h(2) c(3) by simp
  obtain b' where b': "batch_loop um (map (\<lambda>m. raw_bytes (ID m)) msgs) (map (\<lambda>k. (Some (anss ! k), None)) [0..<length msgs]) b = Return (None, b')"
      "\<forall>k < length msgs. b' ! k = batch_set um k (anss ! k) (b ! k)"
    using batch_in_order [OF dist srv(1), of b um] assms(4) ids(2) by auto
  have "BatchCallContext reqs (\<lambda>_ _. None) (\<lambda>k. (Some (anss ! k), None)) um b n = (Return (None, b'), n')"
    using assms(5) b'(1) ids(2) by (simp add: BatchCallContext_def Let_def)
  then show ?thesis
    using c(1,2,4,5) served h home b'(2) ids(2)
    by (intro exI [of _ c1] exI [of _ c2] exI [of _ c3] exI [of _ ?sv] exI [of _ h] exI [of _ b']) (simp add: add_proc_def)
qed

section \<open>Examples\<close>

definition pipe_env :: "(nat, string, jsonCodec, unit) env" where
  "pipe_env = \<lparr>e_dec = (\<lambda>t v. Inr v), e_zero = (\<lambda>t. []), e_marshal = (\<lambda>v. Inr v), e_id = (\<lambda>v. v),
     e_invoke = (\<lambda>f args. Done (Return [RVal ''[1]''])), e_write = writeJSON (\<lambda>_. None) 0 None, e_idgen = (\<lambda>g. ([], g))\<rparr>"

theorem inproc_call_witness:
  "\<exists>c sv msg callb c1 sv1 h. DialInProc (NewServer 0) () () (\<lambda>_. call_op ''1'') (\<lambda>_. newClientSubscription []) = (Inr c, sv)
     \<and> newMessage ''rpc_modules'' (Some (Inr ''[]'')) 0 = (Inr msg, 1) \<and> dispatch (EvReqInit 0) c = Proceed c1
     \<and> dispatch (snd (client_read (\<lambda>_. True) (Inr (pipe_text (WMsg msg))))) sv = Proceed sv1
     \<and> runProc pipe_env False [msg] (c_handler sv1) = Return h
     \<and> CallContext True [] ''rpc_modules'' (Some (Inr ''[]'')) (\<lambda>_ _. None) (Some (call_answer pipe_env msg callb (Return [RVal ''[1]''])), None)
         (\<lambda>raw. if raw = ''[1]'' then None else Some ErrNoResult) 0 = (Return None, 1)"
proof -
  let ?c = "initClient (NewFuncCodec None) () Map.empty (\<lambda>_. call_op ''1'') (\<lambda>_. newClientSubscription []) :: (nat, unit) client"
  let ?sv = "initClient (NewFuncCodec None) () (sv_services (NewServer 0)) (\<lambda>_. call_op ''1'') (\<lambda>_. newClientSubscription []) :: (nat, unit) client"
  let ?msg = "\<lparr>jsonrpcMessage.Version = ''2.0'', ID = Some ''1'', Method = ''rpc_modules'', Params = Some ''[]'', Err = None, Result = None\<rparr>"
  have dial: "DialInProc (NewServer 0) () () (\<lambda>_. call_op ''1'') (\<lambda>_. newClientSubscription []) = (Inr ?c, ?sv)"
    by (simp add: DialInProc_def newClient_def)
  have msg: "newMessage ''rpc_modules'' (Some (Inr ''[]'')) 0 = (Inr ?msg, 1)" by code_simp
  obtain callb where cb: "registry_callback (sv_services (NewServer (0 :: nat))) ''rpc_modules'' = Some callb" "argTypes callb = []" "errPos callb = - 1"
  proof -
    have "map_option (\<lambda>cb. (argTypes cb, errPos cb)) (registry_callback (sv_services (NewServer (0 :: nat))) ''rpc_modules'') = Some ([], - 1)"
      by code_simp
    then show thesis using that by auto
  qed
  have reg: "registry_callback (h_reg (c_handler ?sv)) ''rpc_modules'' = Some callb" using cb(1) by (simp add: initClient_def newHandler_def)
  have ans: "call_answer pipe_env ?msg callb (Return [RVal ''[1]'']) = zero_message\<lparr>jsonrpcMessage.Version := vsn, ID := Some ''1'', Result := Some ''[1]''\<rparr>"
    using cb(3) by (simp add: call_answer_def call_results_def response_def marshal_result_def pipe_env_def)
  have wf: "wf_message (call_answer pipe_env ?msg callb (Return [RVal ''[1]'']))" unfolding ans by code_simp
  have res: "caller_result pipe_env callb (Return [RVal ''[1]'']) (\<lambda>raw. if raw = ''[1]'' then None else Some ErrNoResult) = None"
    using cb(3) by (simp add: caller_result_def call_results_def marshal_result_def pipe_env_def)
  have 1: "\<not> c_locked ?c" "ops (c_handler ?c) 0 = call_op (raw_bytes (ID ?msg))" by (simp_all add: initClient_def newHandler_def raw_bytes_def)
  have 2: "ascii ''rpc_modules''" "is_value ''[]''" "compact Outside ''[]'' = ''[]''" by code_simp+
  have 3: "\<not> isSubscribe ?msg" "\<not> isUnsubscribe ?msg" by code_simp+
  have 4: "parsePositionalArguments (e_dec pipe_env) (e_zero pipe_env) (Some ''[]'') (argTypes callb) = Inr []" unfolding cb(2) by code_simp
  have 5: "e_invoke pipe_env (fn_id (fn callb)) (fullargs callb []) = Done (Return [RVal ''[1]''])" "e_write pipe_env = writeJSON (\<lambda>_. None) 0 None"
    by (simp_all add: pipe_env_def)
  have 6: "''rpc_modules'' \<noteq> []" by simp
  from inproc_call [OF 1(1) msg 1(2) 2(1) 6 2(2,3) 3 reg 4 5 wf, of "\<lambda>_. True" "\<lambda>raw. if raw = ''[1]'' then None else Some ErrNoResult"]
  obtain c1 sv1 h where
    "dispatch (EvReqInit 0) ?c = Proceed c1"
    "dispatch (snd (client_read (\<lambda>_. True) (Inr (pipe_text (WMsg ?msg))))) ?sv = Proceed sv1"
    "runProc pipe_env False [?msg] (c_handler sv1) = Return h"
    "CallContext True [] ''rpc_modules'' (Some (Inr ''[]'')) (\<lambda>_ _. None) (Some (call_answer pipe_env ?msg callb (Return [RVal ''[1]''])), None)
       (\<lambda>raw. if raw = ''[1]'' then None else Some ErrNoResult) 0 = (Return None, 1)"
    unfolding res by blast
  then show ?thesis using dial msg by blast
qed

text \<open>Two calls of the metadata service.\<close>

definition modules_msg :: "string \<Rightarrow> jsonrpcMessage" where
  "modules_msg i = \<lparr>jsonrpcMessage.Version = ''2.0'', ID = Some i, Method = ''rpc_modules'', Params = Some ''[]'', Err = None, Result = None\<rparr>"

definition modules_answer :: "string \<Rightarrow> jsonrpcMessage" where
  "modules_answer i = \<lparr>jsonrpcMessage.Version = ''2.0'', ID = Some i, Method = [], Params = None, Err = None, Result = Some ''[1]''\<rparr>"

lemma modules_served:
  assumes "hasValidID (modules_msg i)"
  shows "served_as pipe_env (sv_services (NewServer 0)) (modules_msg i) (modules_answer i)"
proof -
  have "map_option (\<lambda>cb. (argTypes cb, errPos cb)) (registry_callback (sv_services (NewServer (0 :: nat))) ''rpc_modules'') = Some ([], - 1)"
    by code_simp
  then obtain callb where cb: "registry_callback (sv_services (NewServer (0 :: nat))) ''rpc_modules'' = Some callb" "argTypes callb = []" "errPos callb = - 1"
    by auto
  have args: "parsePositionalArguments (e_dec pipe_env) (e_zero pipe_env) (Some ''[]'') [] = Inr []" by code_simp
  have "modules_answer i = call_answer pipe_env (modules_msg i) callb (Return [RVal ''[1]''])"
    using cb(3) by (simp add: call_answer_def call_results_def response_def marshal_result_def pipe_env_def modules_answer_def
        modules_msg_def zero_message_def vsn_def)
  moreover have "e_invoke pipe_env (fn_id (fn callb)) (fullargs callb []) = Done (Return [RVal ''[1]''])" by (simp add: pipe_env_def)
  moreover have "isCall (modules_msg i)" "\<not> isNotification (modules_msg i)" "\<not> isSubscribe (modules_msg i)" "\<not> isUnsubscribe (modules_msg i)"
    using assms by (simp_all add: modules_msg_def isCall_def isNotification_def isSubscribe_def isUnsubscribe_def HasSuffix_def
        subscribeMethodSuffix_def unsubscribeMethodSuffix_def)
  ultimately show ?thesis using cb(1,2) args unfolding served_as_def by (auto simp: modules_msg_def)
qed

theorem inproc_batch_witness:
  "\<exists>c sv h b'. DialInProc (NewServer 0) () () (\<lambda>_. batch_op [''1'', ''2'']) (\<lambda>_. newClientSubscription []) = (Inr c, sv)
     \<and> runProc pipe_env True [modules_msg ''1'', modules_msg ''2''] (c_handler sv) = Return h
     \<and> written (h_conn h) = [WBatch [modules_answer ''1'', modules_answer ''2'']]
     \<and> BatchCallContext [(''rpc_modules'', Some (Inr ''[]'')), (''rpc_modules'', Some (Inr ''[]''))] (\<lambda>_ _. None)
         (\<lambda>k. (Some ([modules_answer ''1'', modules_answer ''2''] ! k), None)) (\<lambda>_ _. None)
         [\<lparr>be_error = None, be_result = None\<rparr>, \<lparr>be_error = None, be_result = None\<rparr>] 0 = (Return (None, b'), 2)
     \<and> be_result (b' ! 1) = Some ''[1]''"
proof -
  let ?os = "\<lambda>_. batch_op [''1'', ''2'']" and ?cs = "\<lambda>_. newClientSubscription []"
  let ?c = "initClient (NewFuncCodec None) () Map.empty ?os ?cs :: (nat, unit) client"
  let ?sv = "initClient (NewFuncCodec None) () (sv_services (NewServer 0)) ?os ?cs :: (nat, unit) client"
  let ?reqs = "[(''rpc_modules'', Some (Inr ''[]'' :: rpc_error + string)), (''rpc_modules'', Some (Inr ''[]''))]"
  let ?msgs = "[modules_msg ''1'', modules_msg ''2'']" and ?anss = "[modules_answer ''1'', modules_answer ''2'']"
  let ?b = "[\<lparr>be_error = None, be_result = None\<rparr>, \<lparr>be_error = None, be_result = None\<rparr>]"
  have dial: "DialInProc (NewServer 0) () () ?os ?cs = (Inr ?c, ?sv)" by (simp add: DialInProc_def newClient_def)
  have 1: "\<not> c_locked ?c" "h_reg (c_handler ?sv) = sv_services (NewServer 0)" "written (h_conn (c_handler ?sv)) = []"
    by (simp_all add: initClient_def newHandler_def NewFuncCodec_def)
  have 2: "?reqs \<noteq> []" "length ?reqs \<le> 2 ^ 32" "length ?b = length ?reqs" by simp_all
  have 3: "new_messages ?reqs 0 = (Inr ?msgs, 2)" by code_simp
  have 4: "ops (c_handler ?c) 0 = batch_op (map (\<lambda>m. raw_bytes (ID m)) ?msgs)"
    by (simp add: initClient_def newHandler_def raw_bytes_def modules_msg_def)
  have "hasValidID (modules_msg ''1'')" "hasValidID (modules_msg ''2'')" by code_simp+
  then have 5: "list_all2 (served_as pipe_env (h_reg (c_handler ?sv))) ?msgs ?anss" unfolding 1(2) by (simp add: modules_served)
  have 6: "list_all wf_message ?msgs" "list_all wf_message ?anss" by code_simp+
  have 7: "e_write pipe_env = writeJSON (\<lambda>_. None) 0 None" by (simp add: pipe_env_def)
  from inproc_batch [OF 1(1) 2 3 4 5 6 7, of "\<lambda>_. True" "\<lambda>_ _. None"] obtain sv1 h b' where
    r: "dispatch (snd (client_read (\<lambda>_. True) (Inr (pipe_text (WBatch ?msgs))))) ?sv = Proceed sv1" "runProc pipe_env True ?msgs (c_handler sv1) = Return h"
      "BatchCallContext ?reqs (\<lambda>_ _. None) (\<lambda>k. (Some (?anss ! k), None)) (\<lambda>_ _. None) ?b 0 = (Return (None, b'), 2)"
      "\<forall>k < length ?reqs. b' ! k = batch_set (\<lambda>_ _. None) k (?anss ! k) (?b ! k)" by blast
  obtain h' where h': "runProc pipe_env True ?msgs (c_handler ?sv) = Return h'" "written (h_conn h') = [WBatch ?anss]"
    using runProc_served [OF 5 7, of True] 1(3) by (auto simp: answer_wire_def)
  have "be_result (b' ! 1) = Some ''[1]''" using r(4) by (simp add: batch_set_def raw_bytes_def modules_answer_def)
  then show ?thesis using dial r(3) h' by blast
qed

end
