(* ===== verification/Rpc_Types.thy ===== *)
theory Rpc_Types
  imports Rpc_Message
begin

text \<open>
  Block numbers in RPC arguments (\<open>simple_rpc/rpc/types.go\<close>). The decoding of a hexadecimal quantity
  (\<open>hexutil.DecodeUint64\<close>) and of a hash (\<open>common.Hash\<close>) are arguments: they are code of another
  module.
\<close>

section \<open>Block numbers\<close>

definition PendingBlockNumber :: int where "PendingBlockNumber = -2"
definition LatestBlockNumber :: int where "LatestBlockNumber = -1"
definition EarliestBlockNumber :: int where "EarliestBlockNumber = 0"

definition MaxInt64 :: uint64 where "MaxInt64 = 0x7FFFFFFFFFFFFFFF"

text \<open>\<open>strings.TrimSpace\<close>, on ASCII white space.\<close>

definition is_space :: "char \<Rightarrow> bool" where
  "is_space c \<longleftrightarrow> char_code c \<in> {9, 10, 11, 12, 13, 32}"

definition TrimSpace :: "string \<Rightarrow> string" where
  "TrimSpace s = rev (dropWhile is_space (rev (dropWhile is_space s)))"

definition strip_quotes :: "string \<Rightarrow> string" where
  "strip_quotes input =
     (if length input \<ge> 2 \<and> input ! 0 = quote_char \<and> input ! (length input - 1) = quote_char
      then take (length input - 2) (drop 1 input) else input)"

definition block_tag :: "string \<Rightarrow> int option" where
  "block_tag input =
     (if input = ''earliest'' then Some EarliestBlockNumber
      else if input = ''latest'' then Some LatestBlockNumber
      else if input = ''pending'' then Some PendingBlockNumber
      else None)"

definition BlockNumber_UnmarshalJSON :: "(string \<Rightarrow> rpc_error + uint64) \<Rightarrow> string \<Rightarrow> rpc_error + int" where
  "BlockNumber_UnmarshalJSON decodeUint64 data =
     (let input = strip_quotes (TrimSpace data) in
      case block_tag input of
        Some bn \<Rightarrow> Inr bn
      | None \<Rightarrow>
          (case decodeUint64 input of
             Inl err \<Rightarrow> Inl err
           | Inr blckNum \<Rightarrow>
               if blckNum > MaxInt64 then Inl (PlainError ''block number larger than int64'')
               else Inr (sint blckNum)))"

definition BlockNumber_Int64 :: "int \<Rightarrow> int" where
  "BlockNumber_Int64 bn = bn"

section \<open>Block number or hash\<close>

record 'h BlockNumberOrHash =
  BlockNumber :: "int option"
  BlockHash :: "'h option"
  RequireCanonical :: bool

definition zero_bnh :: "'h BlockNumberOrHash" where
  "zero_bnh = \<lparr>BlockNumber = None, BlockHash = None, RequireCanonical = False\<rparr>"

text \<open>
  \<open>json.Unmarshal\<close> into the struct without its own method, \<open>None\<close> when it reports an error: member by
  member, null clears a pointer, any failing member fails the whole.
\<close>

definition bnh_member ::
  "(string \<Rightarrow> rpc_error + uint64) \<Rightarrow> (string \<Rightarrow> rpc_error + 'h) \<Rightarrow> 'h BlockNumberOrHash option \<Rightarrow> string \<times> string
     \<Rightarrow> 'h BlockNumberOrHash option" where
  "bnh_member decodeUint64 hash_json r kv =
     (let (k, v) = kv in
      case r of
        None \<Rightarrow> None
      | Some e \<Rightarrow>
          if key_is ''blocknumber'' k then
            (if is_null v then Some (e\<lparr>BlockNumber := None\<rparr>)
             else (case BlockNumber_UnmarshalJSON decodeUint64 v of Inl err \<Rightarrow> None | Inr n \<Rightarrow> Some (e\<lparr>BlockNumber := Some n\<rparr>)))
          else if key_is ''blockhash'' k then
            (if is_null v then Some (e\<lparr>BlockHash := None\<rparr>)
             else (case hash_json v of Inl err \<Rightarrow> None | Inr x \<Rightarrow> Some (e\<lparr>BlockHash := Some x\<rparr>)))
          else if key_is ''requirecanonical'' k then
            (if is_null v then Some e
             else if v = ''true'' then Some (e\<lparr>RequireCanonical := True\<rparr>)
             else if v = ''false'' then Some (e\<lparr>RequireCanonical := False\<rparr>)
             else None)
          else Some e)"

definition unmarshal_erased ::
  "(string \<Rightarrow> rpc_error + uint64) \<Rightarrow> (string \<Rightarrow> rpc_error + 'h) \<Rightarrow> string \<Rightarrow> 'h BlockNumberOrHash option" where
  "unmarshal_erased decodeUint64 hash_json data =
     (if is_null data then Some zero_bnh
      else (case members_of data of
              None \<Rightarrow> None
            | Some kvs \<Rightarrow> foldl (bnh_member decodeUint64 hash_json) (Some zero_bnh) kvs))"

definition BlockNumberOrHash_UnmarshalJSON ::
  "(string \<Rightarrow> rpc_error + uint64) \<Rightarrow> (string \<Rightarrow> rpc_error + 'h) \<Rightarrow> (string \<Rightarrow> rpc_error + 'h) \<Rightarrow> string
     \<Rightarrow> 'h BlockNumberOrHash \<Rightarrow> rpc_error + 'h BlockNumberOrHash" where
  "BlockNumberOrHash_UnmarshalJSON decodeUint64 hash_json hash_text data bnh =
     (case unmarshal_erased decodeUint64 hash_json data of
        Some e \<Rightarrow>
          if BlockNumber e \<noteq> None \<and> BlockHash e \<noteq> None then
            Inl (PlainError ''cannot specify both BlockHash and BlockNumber, choose one or the other'')
          else Inr (bnh\<lparr>BlockNumber := BlockNumber e, BlockHash := BlockHash e, RequireCanonical := RequireCanonical e\<rparr>)
      | None \<Rightarrow>
          (case unmarshal_string (Some data) [] of
             Inl err \<Rightarrow> Inl err
           | Inr input \<Rightarrow>
               (case block_tag input of
                  Some bn \<Rightarrow> Inr (bnh\<lparr>BlockNumber := Some bn\<rparr>)
                | None \<Rightarrow>
                    if length input = 66 then
                      (case hash_text input of Inl err \<Rightarrow> Inl err | Inr hash \<Rightarrow> Inr (bnh\<lparr>BlockHash := Some hash\<rparr>))
                    else
                      (case decodeUint64 input of
                         Inl err \<Rightarrow> Inl err
                       | Inr blckNum \<Rightarrow>
                           if blckNum > MaxInt64 then Inl (PlainError ''blocknumber too high'')
                           else Inr (bnh\<lparr>BlockNumber := Some (sint blckNum)\<rparr>)))))"

definition Number :: "'h BlockNumberOrHash \<Rightarrow> int \<times> bool" where
  "Number bnh = (case BlockNumber bnh of Some n \<Rightarrow> (n, True) | None \<Rightarrow> (0, False))"

definition Hash :: "'h \<Rightarrow> 'h BlockNumberOrHash \<Rightarrow> 'h \<times> bool" where
  "Hash zero_hash bnh = (case BlockHash bnh of Some x \<Rightarrow> (x, True) | None \<Rightarrow> (zero_hash, False))"

definition BlockNumberOrHashWithNumber :: "int \<Rightarrow> 'h BlockNumberOrHash" where
  "BlockNumberOrHashWithNumber blockNr = \<lparr>BlockNumber = Some blockNr, BlockHash = None, RequireCanonical = False\<rparr>"

definition BlockNumberOrHashWithHash :: "'h \<Rightarrow> bool \<Rightarrow> 'h BlockNumberOrHash" where
  "BlockNumberOrHashWithHash hash canonical = \<lparr>BlockNumber = None, BlockHash = Some hash, RequireCanonical = canonical\<rparr>"

section \<open>Properties\<close>

lemma uint_small:
  assumes "\<not> w > MaxInt64"
  shows "0 \<le> uint w \<and> uint w < 2 ^ 63"
proof -
  have "uint w \<le> uint MaxInt64" using assms by (simp add: not_less word_le_def)
  then show ?thesis by (simp add: MaxInt64_def)
qed

lemma sint_small:
  assumes "\<not> w > MaxInt64"
  shows "sint w = int (unat w)"
proof -
  have l: "- (2 ^ 63) \<le> uint w" by (rule order.trans [OF _ uint_ge_0]) simp
  have "signed_take_bit 63 (uint w) = uint w"
    by (rule signed_take_bit_int_eq_self [OF l]) (rule conjunct2 [OF uint_small [OF assms]])
  then show ?thesis by (simp add: sint_uint)
qed

lemma block_tag_range: "block_tag input = Some bn \<Longrightarrow> -2 \<le> bn \<and> bn \<le> 0"
  by (auto simp: block_tag_def EarliestBlockNumber_def LatestBlockNumber_def PendingBlockNumber_def split: if_splits)

text \<open>The numbers a block number can stand for.\<close>

definition block_range :: "int \<Rightarrow> bool" where
  "block_range bn \<longleftrightarrow> -2 \<le> bn \<and> bn < 2 ^ 63"

lemma sint_block_range: "\<not> w > MaxInt64 \<Longrightarrow> block_range (sint w)"
  using uint_small [of w] sint_small [of w] order.trans [OF _ uint_ge_0, of "-2" w] by (simp add: block_range_def)

lemma large_unat: "w > MaxInt64 \<longleftrightarrow> 2 ^ 63 \<le> unat w"
  by (simp add: word_less_nat_alt MaxInt64_def Suc_le_eq [symmetric])

lemma tag_block_range: "block_tag input = Some bn \<Longrightarrow> block_range bn"
  using block_tag_range by (force simp: block_range_def)



lemma bnh_member_range:
  assumes "\<forall>e. r = Some e \<longrightarrow> (\<forall>n. BlockNumber e = Some n \<longrightarrow> block_range n)"
    and "bnh_member dec hj r kv = Some e" and "BlockNumber e = Some n"
  shows "block_range n"
proof -
  have bn: "block_range k" if "BlockNumber_UnmarshalJSON dec v = Inr k" for v k
    using that tag_block_range sint_block_range
    by (auto simp: BlockNumber_UnmarshalJSON_def Let_def split: option.splits sum.splits if_splits)
  show ?thesis
    using assms bn by (auto simp: bnh_member_def Let_def split: prod.splits option.splits if_splits sum.splits)
qed

lemma bnh_fold_range:
  assumes "foldl (bnh_member dec hj) r kvs = Some e" and "\<forall>e. r = Some e \<longrightarrow> (\<forall>n. BlockNumber e = Some n \<longrightarrow> block_range n)"
  shows "\<forall>n. BlockNumber e = Some n \<longrightarrow> block_range n"
  using assms
proof (induction kvs arbitrary: r)
  case (Cons kv kvs)
  then show ?case using bnh_member_range by (metis foldl_Cons)
qed simp

lemma unmarshal_erased_range:
  assumes "unmarshal_erased dec hj data = Some e"
  shows "\<forall>n. BlockNumber e = Some n \<longrightarrow> block_range n"
proof (cases "is_null data")
  case True
  with assms show ?thesis by (auto simp: unmarshal_erased_def zero_bnh_def)
next
  case False
  with assms obtain kvs where "foldl (bnh_member dec hj) (Some zero_bnh) kvs = Some e"
    by (auto simp: unmarshal_erased_def split: option.splits)
  then show ?thesis by (rule bnh_fold_range) (simp add: zero_bnh_def)
qed

text \<open>
  C34. Parsing a block number or hash into a zero value never gives both, and a number is always in
  the range of block numbers; giving both in one object is an error.
\<close>

theorem BlockNumberOrHash_exclusive:
  assumes "BlockNumberOrHash_UnmarshalJSON dec hj ht data zero_bnh = Inr bnh"
  shows "(BlockNumber bnh = None \<or> BlockHash bnh = None) \<and> (\<forall>n. BlockNumber bnh = Some n \<longrightarrow> block_range n)"
proof (cases "unmarshal_erased dec hj data")
  case (Some e)
  then have "\<forall>n. BlockNumber e = Some n \<longrightarrow> block_range n" by (rule unmarshal_erased_range)
  with assms Some show ?thesis by (auto simp: BlockNumberOrHash_UnmarshalJSON_def split: if_splits)
next
  case None
  with assms show ?thesis
    by (auto simp: BlockNumberOrHash_UnmarshalJSON_def zero_bnh_def split: sum.splits option.splits if_splits
        intro: tag_block_range sint_block_range)
qed

theorem BlockNumberOrHash_exclusive_witness:
  "\<exists>bnh. BlockNumberOrHash_UnmarshalJSON (\<lambda>_. Inr 7) (\<lambda>_. Inr (0 :: nat)) (\<lambda>_. Inr 0)
       (quote_char # ''0x7'' @ [quote_char]) zero_bnh = Inr bnh \<and> BlockNumber bnh = Some 7 \<and> BlockHash bnh = None"
proof -
  have "BlockNumberOrHash_UnmarshalJSON (\<lambda>_. Inr 7) (\<lambda>_. Inr (0 :: nat)) (\<lambda>_. Inr 0)
       (quote_char # ''0x7'' @ [quote_char]) zero_bnh = Inr (zero_bnh\<lparr>BlockNumber := Some 7\<rparr>)" by code_simp
  with BlockNumberOrHash_exclusive [OF this] show ?thesis by simp
qed

end
