(* ===== verification/Go_Path.thy ===== *)
theory Go_Path
  imports Prelude
begin

text \<open>
  Paths and variable expansion of the Go standard library on Unix, as \<open>fileutil\<close> uses them:
  \<open>path.Clean\<close> (there the same as \<open>filepath.Clean\<close>), \<open>filepath.Join\<close>, \<open>filepath.Abs\<close> and
  \<open>os.ExpandEnv\<close>. A path is a string of bytes; its elements are what the slashes separate.
\<close>

section \<open>Elements\<close>

definition slash :: char where "slash = CHR ''/''"

fun split_path :: "string \<Rightarrow> string list" where
  "split_path [] = [[]]"
| "split_path (c # s) =
     (if c = slash then [] # split_path s
      else (case split_path s of [] \<Rightarrow> [[c]] | e # es \<Rightarrow> (c # e) # es))"

fun join_path :: "string list \<Rightarrow> string" where
  "join_path [] = []"
| "join_path [e] = e"
| "join_path (e # es) = e @ slash # join_path es"

text \<open>An element that names an entry of a directory.\<close>

definition is_name :: "string \<Rightarrow> bool" where
  "is_name e \<longleftrightarrow> e \<noteq> [] \<and> e \<noteq> ''.'' \<and> e \<noteq> ''..'' \<and> slash \<notin> set e"

lemma split_path_nonempty [simp]: "split_path s \<noteq> []"
  by (cases s) (auto split: list.split)

lemma split_path_no_slash: "e \<in> set (split_path s) \<Longrightarrow> slash \<notin> set e"
proof (induction s arbitrary: e)
  case (Cons c s)
  then show ?case by (cases "split_path s") (auto split: if_splits)
qed simp

lemma split_path_name: "slash \<notin> set e \<Longrightarrow> split_path e = [e]"
  by (induction e) auto

lemma split_path_append: "slash \<notin> set e \<Longrightarrow> split_path (e @ slash # s) = e # split_path s"
  by (induction e) auto

lemma split_join: "es \<noteq> [] \<Longrightarrow> (\<forall>e\<in>set es. slash \<notin> set e) \<Longrightarrow> split_path (join_path es) = es"
  by (induction es rule: join_path.induct) (simp_all add: split_path_name split_path_append)

lemma split_join_slash: "es \<noteq> [] \<Longrightarrow> (\<forall>e\<in>set es. slash \<notin> set e) \<Longrightarrow> split_path (slash # join_path es) = [] # es"
  by (simp add: split_join)

section \<open>Cleaning\<close>

text \<open>
  The elements that remain, as a stack with its top first: empty elements and dots go, a double
  dot takes back the element before it, goes at the root, and stays at the front of a relative
  path.
\<close>

fun clean_elems :: "bool \<Rightarrow> string list \<Rightarrow> string list \<Rightarrow> string list" where
  "clean_elems rooted stack [] = rev stack"
| "clean_elems rooted stack (e # es) =
     (if e = [] \<or> e = ''.'' then clean_elems rooted stack es
      else if e = ''..'' then
        (case stack of
           [] \<Rightarrow> clean_elems rooted (if rooted then [] else [e]) es
         | prev # below \<Rightarrow>
             if prev = ''..'' then clean_elems rooted (e # stack) es
             else clean_elems rooted below es)
      else clean_elems rooted (e # stack) es)"

definition IsAbs :: "string \<Rightarrow> bool" where
  "IsAbs p \<longleftrightarrow> (case p of [] \<Rightarrow> False | c # _ \<Rightarrow> c = slash)"

definition Clean :: "string \<Rightarrow> string" where
  "Clean p =
     (let es = clean_elems (IsAbs p) [] (split_path p) in
      if IsAbs p then slash # join_path es
      else if es = [] then ''.'' else join_path es)"

text \<open>\<open>Join\<close> of two paths ignores empty ones.\<close>

definition Join :: "string \<Rightarrow> string \<Rightarrow> string" where
  "Join a b =
     (if a \<noteq> [] then Clean (a @ slash # b)
      else if b \<noteq> [] then Clean b
      else [])"

text \<open>The clean form of an absolute path: a slash before and between the names, none at the end.\<close>

definition abs_path :: "string list \<Rightarrow> string" where
  "abs_path es = slash # join_path es"

definition clean_abs :: "string \<Rightarrow> bool" where
  "clean_abs p \<longleftrightarrow> (\<exists>es. list_all is_name es \<and> p = abs_path es)"

lemma clean_elems_names:
  "list_all is_name stack \<Longrightarrow> (\<forall>e\<in>set es. slash \<notin> set e) \<Longrightarrow> list_all is_name (clean_elems True stack es)"
proof (induction es arbitrary: stack)
  case (Cons e es)
  have keep: "is_name e" if "e \<noteq> []" "e \<noteq> ''.''" "e \<noteq> ''..''" using that Cons.prems by (simp add: is_name_def)
  show ?case
  proof (cases "e = ''..'' \<and> stack \<noteq> []")
    case True
    then obtain t b where "stack = t # b" by (cases stack) auto
    then show ?thesis using True Cons by (auto simp: is_name_def)
  next
    case False
    then show ?thesis using keep Cons by (cases stack) auto
  qed
qed (simp add: list_all_iff)

lemma clean_elems_id: "list_all is_name es \<Longrightarrow> clean_elems rooted stack es = rev stack @ es"
  by (induction es arbitrary: stack) (auto simp: is_name_def)

lemma Clean_abs: "IsAbs p \<Longrightarrow> clean_abs (Clean p)"
  using clean_elems_names [of "[]" "split_path p"] split_path_no_slash
  by (fastforce simp: Clean_def clean_abs_def abs_path_def)

lemma split_abs_path:
  assumes "list_all is_name es"
  shows "filter (\<lambda>e. e \<noteq> []) (split_path (abs_path es)) = es"
proof (cases "es = []")
  case False
  have "\<forall>e\<in>set es. slash \<notin> set e \<and> e \<noteq> []" using assms by (auto simp: list_all_iff is_name_def)
  then show ?thesis using False by (simp add: abs_path_def split_join)
qed (simp add: abs_path_def)

lemma clean_elems_filter: "clean_elems r stack (filter (\<lambda>e. e \<noteq> []) es) = clean_elems r stack es"
  by (induction r stack es rule: clean_elems.induct) (auto split: list.split)

lemma Clean_abs_path [simp]:
  assumes "list_all is_name es"
  shows "Clean (abs_path es) = abs_path es"
proof -
  have "clean_elems True [] (split_path (abs_path es)) = clean_elems True [] es"
    using clean_elems_filter [of True "[]" "split_path (abs_path es)"] by (simp only: split_abs_path [OF assms])
  also have "\<dots> = es" using clean_elems_id [OF assms] by simp
  finally show ?thesis by (simp add: Clean_def abs_path_def IsAbs_def)
qed

lemma IsAbs_abs_path [simp]: "IsAbs (abs_path es)"
  by (simp add: IsAbs_def abs_path_def)

lemma abs_path_inj:
  assumes "list_all is_name es" and "list_all is_name es'" and "abs_path es = abs_path es'"
  shows "es = es'"
proof -
  have "es = filter (\<lambda>e. e \<noteq> []) (split_path (abs_path es'))" using split_abs_path [OF assms(1)] by (simp only: assms(3))
  also have "\<dots> = es'" by (rule split_abs_path [OF assms(2)])
  finally show ?thesis .
qed

lemma join_path_snoc: "es \<noteq> [] \<Longrightarrow> join_path (es @ [e]) = join_path es @ slash # e"
  by (induction es rule: join_path.induct) simp_all

lemma Join_abs_path [simp]:
  assumes "list_all is_name es" and "is_name e"
  shows "Join (abs_path es) e = abs_path (es @ [e])"
proof -
  have sp: "split_path (abs_path es @ slash # e) = split_path (abs_path es) @ [e]"
  proof -
    have "split_path (join_path es @ slash # e) = split_path (join_path es) @ [e]" if "\<forall>x\<in>set es. slash \<notin> set x"
      using that assms(2)
      by (induction es rule: join_path.induct) (simp_all add: split_path_name split_path_append is_name_def)
    moreover have "\<forall>x\<in>set es. slash \<notin> set x" using assms(1) by (auto simp: list_all_iff is_name_def)
    ultimately show ?thesis by (simp add: abs_path_def)
  qed
  have "filter (\<lambda>x. x \<noteq> []) (split_path (abs_path es @ slash # e)) = es @ [e]"
    using split_abs_path [OF assms(1)] assms(2) by (simp add: sp is_name_def)
  then have "clean_elems True [] (split_path (abs_path es @ slash # e)) = clean_elems True [] (es @ [e])"
    using clean_elems_filter [of True "[]" "split_path (abs_path es @ slash # e)"] by simp
  also have "\<dots> = es @ [e]" using assms by (simp add: clean_elems_id)
  finally show ?thesis by (simp add: Join_def Clean_def IsAbs_def abs_path_def)
qed

lemma clean_elems_nonempty: "list_all (\<lambda>e. e \<noteq> []) stack \<Longrightarrow> list_all (\<lambda>e. e \<noteq> []) (clean_elems r stack es)"
proof (induction es arbitrary: stack)
  case (Cons e es)
  then show ?case by (cases stack) auto
qed (simp add: list_all_iff)

lemma clean_elems_keeps: "list_all P stack \<Longrightarrow> list_all P es \<Longrightarrow> list_all P (clean_elems r stack es)"
proof (induction es arbitrary: stack)
  case (Cons e es)
  then show ?case by (cases stack) auto
qed (simp add: list_all_iff)

lemma IsAbs_Clean [simp]: "IsAbs (Clean p) \<longleftrightarrow> IsAbs p"
proof (cases "IsAbs p")
  case False
  let ?es = "clean_elems False [] (split_path p)"
  have ok: "\<forall>e\<in>set ?es. e \<noteq> [] \<and> slash \<notin> set e"
    using clean_elems_nonempty [of "[]" False "split_path p"] clean_elems_keeps [of "\<lambda>e. slash \<notin> set e" "[]" "split_path p" False]
      split_path_no_slash [of _ p] by (auto simp: list_all_iff)
  have "\<not> IsAbs (join_path ?es)" if ne: "?es \<noteq> []"
  proof -
    obtain e es where e: "?es = e # es" using ne by (cases ?es) auto
    obtain c t where "e = c # t" "c \<noteq> slash" using ok e by (cases e) auto
    then show ?thesis unfolding e by (cases es) (simp_all add: IsAbs_def)
  qed
  then have "\<not> IsAbs (if ?es = [] then ''.'' else join_path ?es)" by (simp add: IsAbs_def slash_def)
  then show ?thesis using False by (simp add: Clean_def Let_def)
qed (simp add: Clean_def IsAbs_def)

section \<open>Variables\<close>

definition isShellSpecialVar :: "char \<Rightarrow> bool" where
  "isShellSpecialVar c \<longleftrightarrow> c \<in> set ''*#$@!?-0123456789''"

definition isAlphaNum :: "char \<Rightarrow> bool" where
  "isAlphaNum c \<longleftrightarrow> c = CHR ''_'' \<or> 48 \<le> char_code c \<and> char_code c \<le> 57
     \<or> 97 \<le> char_code c \<and> char_code c \<le> 122 \<or> 65 \<le> char_code c \<and> char_code c \<le> 90"

text \<open>The name at the start of a text that follows a dollar sign, and the width of what it takes.\<close>

definition getShellName :: "string \<Rightarrow> string \<times> nat" where
  "getShellName s =
     (if s ! 0 = CHR ''{'' then
        (if length s > 2 \<and> isShellSpecialVar (s ! 1) \<and> s ! 2 = CHR ''}'' then ([s ! 1], 3)
         else
           let nam = takeWhile (\<lambda>c. c \<noteq> CHR ''}'') (drop 1 s) in
           if length nam + 1 = length s then ([], 1)
           else if nam = [] then ([], 2)
           else (nam, length nam + 2))
      else if isShellSpecialVar (s ! 0) then ([s ! 0], 1)
      else let nam = takeWhile isAlphaNum s in (nam, length nam))"

function Expand :: "(string \<Rightarrow> string) \<Rightarrow> string \<Rightarrow> string" where
  "Expand mapping [] = []"
| "Expand mapping (c # s) =
     (if c = CHR ''$'' \<and> s \<noteq> [] then
        (let (nam, w) = getShellName s in
         (if nam = [] \<and> w > 0 then [] else if nam = [] then [c] else mapping nam) @ Expand mapping (drop w s))
      else c # Expand mapping s)"
  by pat_completeness auto
termination
  by (relation "measure (\<lambda>(_, s). length s)") auto

lemma Expand_no_dollar: "CHR ''$'' \<notin> set s \<Longrightarrow> Expand mapping s = s"
  by (induction s) auto

end
