(* ===== verification/Fileutil.thy ===== *)
theory Fileutil
  imports Go_Path "HOL-Library.Char_ord" "HOL-Library.List_Lexorder"
begin

text \<open>
  File utilities (\<open>fileutil/fileutil.go\<close>) over a file system. A file system maps the names on the
  way from the root to a file or a directory; there are no symbolic links, and a file that could be
  opened for writing is written in full. What the process may not do is given by \<open>deny\<close>.
  \<open>sha256\<close> is an argument of the hashing functions.
\<close>

section \<open>File systems and system calls\<close>

datatype os_error = ENOENT | ENOTDIR | EISDIR | EEXIST | EACCES

definition strerror :: "os_error \<Rightarrow> string" where
  "strerror e =
     (case e of
        ENOENT \<Rightarrow> ''no such file or directory''
      | ENOTDIR \<Rightarrow> ''not a directory''
      | EISDIR \<Rightarrow> ''is a directory''
      | EEXIST \<Rightarrow> ''file exists''
      | EACCES \<Rightarrow> ''permission denied'')"

datatype file_error = PathError os_error | Plain string | Wrapped string file_error

text \<open>Modes are \<open>os.FileMode\<close>; that of a directory is kept without its type bit.\<close>

datatype inode = File uint32 "byte list" | Dir uint32

type_synonym path = "string list"
type_synonym fs = "(path \<times> inode) list"

datatype os_op = OpStat | OpRead | OpWrite | OpMkdir

record proc_env =
  Getenv :: "string \<Rightarrow> string"
  user_Current :: "string option"
  Getwd :: "os_error + string"
  umask :: uint32
  deny :: "os_op \<Rightarrow> path \<Rightarrow> bool"

definition ModeDir :: uint32 where "ModeDir = 0x80000000"
definition ModePerm :: uint32 where "ModePerm = 0x1FF"

definition mode0600 :: uint32 where "mode0600 = 0x180"
definition mode0700 :: uint32 where "mode0700 = 0x1C0"

definition IsDir :: "inode \<Rightarrow> bool" where
  "IsDir n = (case n of File _ _ \<Rightarrow> False | Dir _ \<Rightarrow> True)"

definition Mode :: "inode \<Rightarrow> uint32" where
  "Mode n = (case n of File m _ \<Rightarrow> m | Dir m \<Rightarrow> m OR ModeDir)"

definition Perm :: "uint32 \<Rightarrow> uint32" where
  "Perm m = m AND ModePerm"

text \<open>How the kernel walks along a path: every element but the last has to be a directory.\<close>

fun walk :: "fs \<Rightarrow> path \<Rightarrow> string list \<Rightarrow> os_error + path" where
  "walk fs cur [] = Inr cur"
| "walk fs cur (e # es) =
     (case map_of fs cur of
        None \<Rightarrow> Inl ENOENT
      | Some (File _ _) \<Rightarrow> Inl ENOTDIR
      | Some (Dir _) \<Rightarrow>
          if e = [] \<or> e = ''.'' then walk fs cur es
          else if e = ''..'' then walk fs (butlast cur) es
          else walk fs (cur @ [e]) es)"

definition path_names :: "string \<Rightarrow> path" where
  "path_names p = filter (\<lambda>e. e \<noteq> []) (split_path p)"

definition resolve :: "proc_env \<Rightarrow> fs \<Rightarrow> string \<Rightarrow> os_error + path" where
  "resolve env fs p =
     (if p = [] then Inl ENOENT
      else if IsAbs p then walk fs [] (split_path p)
      else (case Getwd env of Inl e \<Rightarrow> Inl e | Inr wd \<Rightarrow> walk fs (path_names wd) (split_path p)))"

definition Stat :: "proc_env \<Rightarrow> fs \<Rightarrow> string \<Rightarrow> os_error + inode" where
  "Stat env fs p =
     (case resolve env fs p of
        Inl e \<Rightarrow> Inl e
      | Inr q \<Rightarrow>
          if deny env OpStat q then Inl EACCES
          else (case map_of fs q of None \<Rightarrow> Inl ENOENT | Some n \<Rightarrow> Inr n))"

definition ReadFile :: "proc_env \<Rightarrow> fs \<Rightarrow> string \<Rightarrow> os_error + byte list" where
  "ReadFile env fs p =
     (case resolve env fs p of
        Inl e \<Rightarrow> Inl e
      | Inr q \<Rightarrow>
          (case map_of fs q of
             None \<Rightarrow> Inl ENOENT
           | Some n \<Rightarrow>
               if deny env OpRead q then Inl EACCES
               else (case n of Dir _ \<Rightarrow> Inl EISDIR | File _ data \<Rightarrow> Inr data)))"

text \<open>\<open>ioutil.WriteFile\<close>: the permissions only count for a new file.\<close>

definition os_WriteFile :: "proc_env \<Rightarrow> string \<Rightarrow> byte list \<Rightarrow> uint32 \<Rightarrow> fs \<Rightarrow> os_error option \<times> fs" where
  "os_WriteFile env p data perm fs =
     (case resolve env fs p of
        Inl e \<Rightarrow> (Some e, fs)
      | Inr q \<Rightarrow>
          (case map_of fs q of
             Some (Dir _) \<Rightarrow> (Some EISDIR, fs)
           | Some (File m _) \<Rightarrow>
               if deny env OpWrite q then (Some EACCES, fs) else (None, AList.update q (File m data) fs)
           | None \<Rightarrow>
               if deny env OpWrite q then (Some EACCES, fs)
               else (None, AList.update q (File (perm AND NOT (umask env)) data) fs)))"

definition Mkdir :: "proc_env \<Rightarrow> string \<Rightarrow> uint32 \<Rightarrow> fs \<Rightarrow> os_error option \<times> fs" where
  "Mkdir env p perm fs =
     (case resolve env fs p of
        Inl e \<Rightarrow> (Some e, fs)
      | Inr q \<Rightarrow>
          if map_of fs q \<noteq> None then (Some EEXIST, fs)
          else if deny env OpMkdir q then (Some EACCES, fs)
          else (None, AList.update q (Dir (perm AND NOT (umask env))) fs))"

text \<open>\<open>os.MkdirAll\<close> on the absolute path of the given names.\<close>

function os_MkdirAll :: "proc_env \<Rightarrow> uint32 \<Rightarrow> path \<Rightarrow> fs \<Rightarrow> os_error option \<times> fs" where
  "os_MkdirAll env perm es fs =
     (case Stat env fs (abs_path es) of
        Inr n \<Rightarrow> if IsDir n then (None, fs) else (Some ENOTDIR, fs)
      | Inl _ \<Rightarrow>
          (case (if length es > 1 then os_MkdirAll env perm (butlast es) fs else (None, fs)) of
             (Some err, fs) \<Rightarrow> (Some err, fs)
           | (None, fs) \<Rightarrow>
               (case Mkdir env (abs_path es) perm fs of
                  (None, fs) \<Rightarrow> (None, fs)
                | (Some err, fs) \<Rightarrow>
                    (case Stat env fs (abs_path es) of
                       Inr n \<Rightarrow> if IsDir n then (None, fs) else (Some err, fs)
                     | Inl _ \<Rightarrow> (Some err, fs)))))"
  by pat_completeness auto
termination
  by (relation "measure (\<lambda>(_, _, es, _). length es)") auto

declare os_MkdirAll.simps [simp del]

text \<open>The entries of a directory, sorted by name.\<close>

definition dir_names :: "fs \<Rightarrow> path \<Rightarrow> string list" where
  "dir_names fs q = sort (remdups (map last (filter (\<lambda>k. k \<noteq> [] \<and> butlast k = q) (map fst fs))))"

definition Readdirnames :: "proc_env \<Rightarrow> fs \<Rightarrow> string \<Rightarrow> os_error + (path \<times> string list)" where
  "Readdirnames env fs p =
     (case resolve env fs p of
        Inl e \<Rightarrow> Inl e
      | Inr q \<Rightarrow>
          (case map_of fs q of
             None \<Rightarrow> Inl ENOENT
           | Some n \<Rightarrow>
               if deny env OpRead q then Inl EACCES
               else (case n of File _ _ \<Rightarrow> Inl ENOTDIR | Dir _ \<Rightarrow> Inr (q, dir_names fs q))))"

text \<open>\<open>ioutil.ReadDir\<close> also asks for the state of every entry.\<close>

definition ReadDir :: "proc_env \<Rightarrow> fs \<Rightarrow> string \<Rightarrow> os_error + (string \<times> inode) list" where
  "ReadDir env fs p =
     (case Readdirnames env fs p of
        Inl e \<Rightarrow> Inl e
      | Inr (q, nams) \<Rightarrow>
          if \<exists>e\<in>set nams. deny env OpStat (q @ [e]) then Inl EACCES
          else Inr (map (\<lambda>e. (e, the (map_of fs (q @ [e])))) nams))"

section \<open>Paths\<close>

definition HomeDir :: "proc_env \<Rightarrow> string" where
  "HomeDir env =
     (let home = Getenv env ''HOME'' in
      if home \<noteq> [] then home
      else (case user_Current env of Some usr \<Rightarrow> usr | None \<Rightarrow> []))"

definition path_Abs :: "proc_env \<Rightarrow> string \<Rightarrow> os_error + string" where
  "path_Abs env p =
     (if IsAbs p then Inr (Clean p)
      else (case Getwd env of Inl e \<Rightarrow> Inl e | Inr wd \<Rightarrow> Inr (Join wd p)))"

definition expand_tilde :: "proc_env \<Rightarrow> string \<Rightarrow> string" where
  "expand_tilde env p =
     (if HasPrefix p ''~/'' \<or> HasPrefix p [CHR ''~'', CHR 0x5C] then
        (let home = HomeDir env in if home \<noteq> [] then home @ drop 1 p else p)
      else p)"

definition ExpandPath :: "proc_env \<Rightarrow> string \<Rightarrow> file_error + string" where
  "ExpandPath env p =
     (case path_Abs env (Clean (Expand (Getenv env) (expand_tilde env p))) of
        Inl e \<Rightarrow> Inl (PathError e)
      | Inr q \<Rightarrow> Inr q)"

section \<open>Directories and files\<close>

definition HasDir :: "proc_env \<Rightarrow> fs \<Rightarrow> string \<Rightarrow> bool \<times> file_error option" where
  "HasDir env fs dirPath =
     (case ExpandPath env dirPath of
        Inl err \<Rightarrow> (False, Some err)
      | Inr fullPath \<Rightarrow>
          (case Stat env fs fullPath of
             Inl e \<Rightarrow> (False, if e = ENOENT then None else Some (PathError e))
           | Inr info \<Rightarrow> (IsDir info, None)))"

definition FileExists :: "proc_env \<Rightarrow> fs \<Rightarrow> string \<Rightarrow> bool" where
  "FileExists env fs filename =
     (case ExpandPath env filename of
        Inl err \<Rightarrow> False
      | Inr filePath \<Rightarrow>
          (case Stat env fs filePath of
             Inl e \<Rightarrow> False
           | Inr info \<Rightarrow> \<not> IsDir info))"

definition MkdirAll :: "proc_env \<Rightarrow> string \<Rightarrow> fs \<Rightarrow> file_error option \<times> fs" where
  "MkdirAll env dirPath fs =
     (let make = (\<lambda>expanded.
            case os_MkdirAll env mode0700 (path_names expanded) fs of
              (Some e, fs) \<Rightarrow> (Some (PathError e), fs)
            | (None, fs) \<Rightarrow> (None, fs)) in
      case ExpandPath env dirPath of
        Inl err \<Rightarrow> (Some err, fs)
      | Inr expanded \<Rightarrow>
          (case HasDir env fs expanded of
             (_, Some err) \<Rightarrow> (Some err, fs)
           | (False, None) \<Rightarrow> make expanded
           | (True, None) \<Rightarrow>
               (case Stat env fs expanded of
                  Inl e \<Rightarrow> (Some (PathError e), fs)
                | Inr info \<Rightarrow>
                    if Perm (Mode info) \<noteq> mode0700 then
                      (Some (Plain ''dir already exists without proper 0700 permissions''), fs)
                    else make expanded)))"

definition WriteFile :: "proc_env \<Rightarrow> string \<Rightarrow> byte list \<Rightarrow> fs \<Rightarrow> file_error option \<times> fs" where
  "WriteFile env file data fs =
     (let put = (\<lambda>expanded.
            case os_WriteFile env expanded data mode0600 fs of
              (Some e, fs) \<Rightarrow> (Some (PathError e), fs)
            | (None, fs) \<Rightarrow> (None, fs)) in
      case ExpandPath env file of
        Inl err \<Rightarrow> (Some err, fs)
      | Inr expanded \<Rightarrow>
          if FileExists env fs expanded then
            (case Stat env fs expanded of
               Inl e \<Rightarrow> (Some (PathError e), fs)
             | Inr info \<Rightarrow>
                 if Mode info \<noteq> mode0600 then
                   (Some (Plain ''file already exists without proper 0600 permissions''), fs)
                 else put expanded)
          else put expanded)"

definition ReadFileAsBytes :: "proc_env \<Rightarrow> fs \<Rightarrow> string \<Rightarrow> file_error + byte list" where
  "ReadFileAsBytes env fs filename =
     (case ExpandPath env filename of
        Inl err \<Rightarrow> Inl (Wrapped ''could not determine absolute path of password file'' err)
      | Inr filePath \<Rightarrow>
          (case ReadFile env fs filePath of Inl e \<Rightarrow> Inl (PathError e) | Inr data \<Rightarrow> Inr data))"

definition CopyFile :: "proc_env \<Rightarrow> string \<Rightarrow> string \<Rightarrow> fs \<Rightarrow> file_error option \<times> fs" where
  "CopyFile env src dst fs =
     (case ReadFile env fs src of
        Inl e \<Rightarrow> (Some (PathError e), fs)
      | Inr input \<Rightarrow>
          (case os_WriteFile env dst input mode0600 fs of
             (Some e, fs) \<Rightarrow> (Some (Wrapped (''error creating file '' @ dst) (PathError e)), fs)
           | (None, fs) \<Rightarrow> (None, fs)))"

text \<open>
  \<open>CopyDir\<close> calls itself on what it lists; \<open>None\<close> means that the given depth was not enough.
\<close>

fun copy_entries ::
  "(string \<Rightarrow> string \<Rightarrow> fs \<Rightarrow> (file_error option \<times> fs) option) \<Rightarrow> proc_env \<Rightarrow> string \<Rightarrow> string
     \<Rightarrow> (string \<times> inode) list \<Rightarrow> fs \<Rightarrow> (file_error option \<times> fs) option" where
  "copy_entries copydir env src dst [] fs = Some (None, fs)"
| "copy_entries copydir env src dst ((nam, fd) # fds) fs =
     (let srcPath = Join src nam; dstPath = Join dst nam in
      if IsDir fd then
        (case copydir srcPath dstPath fs of
           None \<Rightarrow> None
         | Some (Some err, fs) \<Rightarrow>
             Some (Some (Wrapped (''error copying directory '' @ srcPath @ '' -> '' @ dstPath) err), fs)
         | Some (None, fs) \<Rightarrow> copy_entries copydir env src dst fds fs)
      else
        (case CopyFile env srcPath dstPath fs of
           (Some err, fs) \<Rightarrow> Some (Some (Wrapped (''error copying file '' @ srcPath @ '' -> '' @ dstPath) err), fs)
         | (None, fs) \<Rightarrow> copy_entries copydir env src dst fds fs))"

primrec CopyDir :: "nat \<Rightarrow> proc_env \<Rightarrow> string \<Rightarrow> string \<Rightarrow> fs \<Rightarrow> (file_error option \<times> fs) option" where
  "CopyDir 0 env src dst fs = None"
| "CopyDir (Suc n) env src dst fs =
     (case HasDir env fs dst of
        (_, Some err) \<Rightarrow> Some (Some err, fs)
      | (True, None) \<Rightarrow> Some (Some (Plain ''destination directory already exists''), fs)
      | (False, None) \<Rightarrow>
          (case ReadDir env fs src of
             Inl e \<Rightarrow> Some (Some (PathError e), fs)
           | Inr fds \<Rightarrow>
               (case MkdirAll env dst fs of
                  (Some err, fs) \<Rightarrow> Some (Some (Wrapped (''error creating directory: '' @ dst) err), fs)
                | (None, fs) \<Rightarrow> copy_entries (CopyDir n env) env src dst fds fs)))"

section \<open>Hashes of directories\<close>

text \<open>
  What \<open>filepath.Walk\<close> with the function of \<open>DirFiles\<close> finds at and below a path, in lexical order;
  it stops at the first error. The slice of the file name is out of range when the walk starts at a
  plain file.
\<close>

type_synonym 'a walked = "(file_error + 'a) outcome option"

definition rel_file :: "string \<Rightarrow> string \<Rightarrow> string outcome" where
  "rel_file dir file =
     (if dir \<noteq> ''.'' then
        (if length dir + 1 \<le> length file then Return (drop (length dir + 1) file) else Panic SliceOutOfRange)
      else Return file)"

fun walk_entries :: "(string \<Rightarrow> string list \<Rightarrow> string list walked) \<Rightarrow> string \<Rightarrow> string list \<Rightarrow> string list \<Rightarrow> string list walked" where
  "walk_entries f p [] files = Some (Return (Inr files))"
| "walk_entries f p (nam # nams) files =
     (case f (Join p nam) files of
        Some (Return (Inr files)) \<Rightarrow> walk_entries f p nams files
      | r \<Rightarrow> r)"

primrec walk_files :: "nat \<Rightarrow> proc_env \<Rightarrow> fs \<Rightarrow> string \<Rightarrow> string \<Rightarrow> string list \<Rightarrow> string list walked" where
  "walk_files 0 env fs dir p files = None"
| "walk_files (Suc n) env fs dir p files =
     (case Stat env fs p of
        Inl e \<Rightarrow> Some (Return (Inl (PathError e)))
      | Inr info \<Rightarrow>
          if \<not> IsDir info then
            (case rel_file dir p of Return r \<Rightarrow> Some (Return (Inr (files @ [r]))) | Panic x \<Rightarrow> Some (Panic x))
          else
            (case Readdirnames env fs p of
               Inl e \<Rightarrow> Some (Return (Inl (PathError e)))
             | Inr (_, nams) \<Rightarrow> walk_entries (walk_files n env fs dir) p nams files))"

definition DirFiles :: "nat \<Rightarrow> proc_env \<Rightarrow> fs \<Rightarrow> string \<Rightarrow> string list walked" where
  "DirFiles n env fs dir = (let dir = Clean dir in walk_files n env fs dir dir [])"

text \<open>The text that is hashed, a line per file.\<close>

fun hash_lines :: "(byte list \<Rightarrow> byte list) \<Rightarrow> proc_env \<Rightarrow> fs \<Rightarrow> string \<Rightarrow> string list \<Rightarrow> string \<Rightarrow> file_error + string" where
  "hash_lines sha256 env fs dir [] h = Inr h"
| "hash_lines sha256 env fs dir (file # files) h =
     (case ReadFile env fs (Join dir file) of
        Inl e \<Rightarrow> Inl (PathError e)
      | Inr data \<Rightarrow>
          hash_lines sha256 env fs dir files (h @ EncodeToString (sha256 data) @ ''  '' @ file @ [CHR 0x0A]))"

text \<open>\<open>base64.StdEncoding\<close>.\<close>

definition b64_char :: "nat \<Rightarrow> char" where
  "b64_char k = ''ABCDEFGHIJKLMNOPQRSTUVWXYZabcdefghijklmnopqrstuvwxyz0123456789+/'' ! k"

fun base64 :: "byte list \<Rightarrow> string" where
  "base64 [] = []"
| "base64 [x] = [b64_char (unat x div 4), b64_char (unat x mod 4 * 16), CHR ''='', CHR ''='']"
| "base64 [x, y] =
     [b64_char (unat x div 4), b64_char (unat x mod 4 * 16 + unat y div 16), b64_char (unat y mod 16 * 4), CHR ''='']"
| "base64 (x # y # z # rest) =
     b64_char (unat x div 4) # b64_char (unat x mod 4 * 16 + unat y div 16)
       # b64_char (unat y mod 16 * 4 + unat z div 64) # b64_char (unat z mod 64) # base64 rest"

definition HashDir :: "(byte list \<Rightarrow> byte list) \<Rightarrow> nat \<Rightarrow> proc_env \<Rightarrow> fs \<Rightarrow> string \<Rightarrow> string walked" where
  "HashDir sha256 n env fs dir =
     (case DirFiles n env fs dir of
        None \<Rightarrow> None
      | Some (Panic x) \<Rightarrow> Some (Panic x)
      | Some (Return (Inl err)) \<Rightarrow> Some (Return (Inl err))
      | Some (Return (Inr files)) \<Rightarrow>
          (case hash_lines sha256 env fs dir (sort files) [] of
             Inl err \<Rightarrow> Some (Return (Inl err))
           | Inr h \<Rightarrow>
               Some (Return (Inr (''hashdir:'' @ base64 (sha256 (map (\<lambda>c. of_nat (char_code c)) h)))))))"

definition DirsEqual :: "(byte list \<Rightarrow> byte list) \<Rightarrow> nat \<Rightarrow> proc_env \<Rightarrow> fs \<Rightarrow> string \<Rightarrow> string \<Rightarrow> bool outcome option" where
  "DirsEqual sha256 n env fs src dst =
     (case HashDir sha256 n env fs src of
        None \<Rightarrow> None
      | Some (Panic x) \<Rightarrow> Some (Panic x)
      | Some (Return (Inl err)) \<Rightarrow> Some (Return False)
      | Some (Return (Inr hash1)) \<Rightarrow>
          (case HashDir sha256 n env fs dst of
             None \<Rightarrow> None
           | Some (Panic x) \<Rightarrow> Some (Panic x)
           | Some (Return (Inl err)) \<Rightarrow> Some (Return False)
           | Some (Return (Inr hash2)) \<Rightarrow> Some (Return (hash1 = hash2))))"

section \<open>Expanded paths\<close>

lemma names_noslash: "list_all is_name es \<Longrightarrow> \<forall>e\<in>set es. slash \<notin> set e"
  by (auto simp: list_all_iff is_name_def)

lemma path_names_abs_path [simp]: "list_all is_name es \<Longrightarrow> path_names (abs_path es) = es"
  by (simp add: path_names_def split_abs_path)

lemma clean_absD: "clean_abs q \<Longrightarrow> list_all is_name (path_names q) \<and> q = abs_path (path_names q)"
  by (auto simp: clean_abs_def)

lemma path_Abs_clean:
  assumes "\<forall>wd. Getwd env = Inr wd \<longrightarrow> IsAbs wd" and "path_Abs env p = Inr q"
  shows "clean_abs q"
proof (cases "IsAbs p")
  case True
  with assms(2) show ?thesis by (auto simp: path_Abs_def intro: Clean_abs)
next
  case False
  with assms(2) obtain wd where wd: "Getwd env = Inr wd" "q = Join wd p" by (auto simp: path_Abs_def split: sum.splits)
  with assms(1) have "IsAbs wd" by simp
  then have "wd \<noteq> []" "IsAbs (wd @ slash # p)" by (auto simp: IsAbs_def split: list.splits)
  with wd show ?thesis by (auto simp: Join_def intro: Clean_abs)
qed

lemma expand_tilde_abs [simp]: "expand_tilde env (abs_path es) = abs_path es"
  by (simp add: expand_tilde_def abs_path_def slash_def HasPrefix_iff)

lemma ExpandPath_stable:
  assumes "clean_abs q" and "Expand (Getenv env) q = q"
  shows "ExpandPath env q = Inr q"
proof -
  obtain es where es: "list_all is_name es" "q = abs_path es" using assms(1) by (auto simp: clean_abs_def)
  with assms(2) show ?thesis by (simp add: ExpandPath_def path_Abs_def)
qed


text \<open>The process of the examples: user \<open>u\<close> with the home \<open>/home/u\<close>, working in \<open>/w\<close>.\<close>

definition demo_proc :: "string \<Rightarrow> proc_env" where
  "demo_proc wd = \<lparr>Getenv = (\<lambda>v. if v = ''HOME'' then ''/home/u'' else []), user_Current = None, Getwd = Inr wd,
     umask = 0x12, deny = (\<lambda>_ _. False)\<rparr>"


section \<open>Writing and reading files\<close>

definition dir_at :: "fs \<Rightarrow> path \<Rightarrow> bool" where
  "dir_at fs p = (case map_of fs p of Some (Dir _) \<Rightarrow> True | _ \<Rightarrow> False)"

lemma walk_names:
  assumes "list_all is_name es"
  shows "walk fs cur es = Inr q \<longleftrightarrow> q = cur @ es \<and> (\<forall>k < length es. dir_at fs (cur @ take k es))"
  using assms
proof (induction es arbitrary: cur)
  case (Cons e es)
  have split: "(\<forall>k < length (e # es). dir_at fs (cur @ take k (e # es)))
      \<longleftrightarrow> dir_at fs cur \<and> (\<forall>k < length es. dir_at fs ((cur @ [e]) @ take k es))"
    by (auto simp: less_Suc_eq_0_disj)
  have IH: "walk fs (cur @ [e]) es = Inr q \<longleftrightarrow> q = cur @ e # es \<and> (\<forall>k < length es. dir_at fs (cur @ e # take k es))"
    using Cons.IH [of "cur @ [e]"] Cons.prems by simp
  have e: "e \<noteq> []" "e \<noteq> ''.''" "e \<noteq> ''..''" using Cons.prems by (auto simp: is_name_def)
  show ?case
    unfolding split using e by (auto simp: dir_at_def IH split: option.split inode.split)
qed auto

lemma walk_slash: "walk fs cur ([] # es) = Inr q \<longleftrightarrow> dir_at fs cur \<and> walk fs cur es = Inr q"
  by (auto simp: dir_at_def split: option.splits inode.splits)

definition parent_dirs :: "fs \<Rightarrow> path \<Rightarrow> bool" where
  "parent_dirs fs es \<longleftrightarrow> dir_at fs [] \<and> (\<forall>k < length es. dir_at fs (take k es))"

lemma resolve_abs_path:
  assumes "list_all is_name es"
  shows "resolve env fs (abs_path es) = Inr q \<longleftrightarrow> q = es \<and> parent_dirs fs es"
proof (cases "es = []")
  case True
  then have "resolve env fs (abs_path es) = walk fs [] [[], []]" by (simp add: resolve_def abs_path_def IsAbs_def)
  then show ?thesis using True by (auto simp: walk_slash parent_dirs_def simp del: walk.simps(2))
next
  case False
  then have "resolve env fs (abs_path es) = walk fs [] ([] # es)"
    using names_noslash [OF assms] by (simp add: resolve_def abs_path_def IsAbs_def split_join)
  then show ?thesis using walk_names [OF assms, of fs "[]"] by (auto simp: walk_slash parent_dirs_def simp del: walk.simps(2))
qed

lemma resolve_cases:
  assumes "list_all is_name es"
  obtains "parent_dirs fs es" "resolve env fs (abs_path es) = Inr es"
    | e where "\<not> parent_dirs fs es" "resolve env fs (abs_path es) = Inl e"
  using resolve_abs_path [OF assms, of env fs] by (cases "resolve env fs (abs_path es)") auto

lemma parent_dirs_update:
  assumes "parent_dirs fs es" and "map_of fs es = None \<or> map_of fs es = Some (File m c)"
  shows "parent_dirs (AList.update es n fs) es"
proof -
  have "take k es \<noteq> es" if "k < length es" for k using that by (metis length_take min.absorb4 nat_neq_iff)
  moreover have "es \<noteq> []" using assms by (auto simp: parent_dirs_def dir_at_def)
  ultimately show ?thesis using assms(1) by (simp add: parent_dirs_def dir_at_def update_conv)
qed

text \<open>A path whose expansion is unambiguous: it names \<open>es\<close>, and expanding the result changes nothing.\<close>

definition expands_to :: "proc_env \<Rightarrow> string \<Rightarrow> path \<Rightarrow> bool" where
  "expands_to env p es \<longleftrightarrow> list_all is_name es \<and> ExpandPath env p = Inr (abs_path es)
     \<and> Expand (Getenv env) (abs_path es) = abs_path es"

lemma expands_to_again: "expands_to env p es \<Longrightarrow> ExpandPath env (abs_path es) = Inr (abs_path es)"
  unfolding expands_to_def by (metis ExpandPath_stable clean_abs_def)

lemma Stat_abs_path:
  assumes "list_all is_name es"
  shows "Stat env fs (abs_path es) = Inr n \<longleftrightarrow> parent_dirs fs es \<and> \<not> deny env OpStat es \<and> map_of fs es = Some n"
  by (rule resolve_cases [OF assms, of fs env]) (auto simp: Stat_def split: option.splits)

lemma ReadFile_abs_path:
  assumes "list_all is_name es"
  shows "ReadFile env fs (abs_path es) = Inr data
    \<longleftrightarrow> parent_dirs fs es \<and> \<not> deny env OpRead es \<and> (\<exists>m. map_of fs es = Some (File m data))"
  by (rule resolve_cases [OF assms, of fs env]) (auto simp: ReadFile_def split: option.splits inode.splits)

lemma os_WriteFile_abs_path:
  assumes "list_all is_name es"
  shows "os_WriteFile env (abs_path es) data perm fs = (None, fs')
    \<longleftrightarrow> parent_dirs fs es \<and> \<not> deny env OpWrite es \<and> \<not> dir_at fs es
        \<and> fs' = AList.update es (File (case map_of fs es of Some (File m _) \<Rightarrow> m | _ \<Rightarrow> perm AND NOT (umask env)) data) fs"
  by (rule resolve_cases [OF assms, of fs env]) (auto simp: os_WriteFile_def dir_at_def split: option.splits inode.splits)

lemma os_WriteFile_error: "os_WriteFile env p data perm fs = (Some e, fs') \<Longrightarrow> fs' = fs"
  by (auto simp: os_WriteFile_def split: sum.splits option.splits if_splits inode.splits)

lemma WriteFile_put:
  assumes "expands_to env file es"
  shows "WriteFile env file data fs =
    (case Stat env fs (abs_path es) of
       Inr (File m c) \<Rightarrow>
         if m \<noteq> mode0600 then (Some (Plain ''file already exists without proper 0600 permissions''), fs)
         else map_prod (map_option PathError) (\<lambda>x. x) (os_WriteFile env (abs_path es) data mode0600 fs)
     | _ \<Rightarrow> map_prod (map_option PathError) (\<lambda>x. x) (os_WriteFile env (abs_path es) data mode0600 fs))"
  using assms expands_to_again [OF assms]
  by (auto simp: WriteFile_def expands_to_def FileExists_def IsDir_def Mode_def Let_def
      split: sum.split inode.split prod.split option.split)


definition demo_fs :: fs where
  "demo_fs = [([], Dir 0x1ED), ([''w''], Dir 0x1ED), ([''w'', ''x''], File 0x180 [1]), ([''w'', ''y''], File 0x1A4 [2]),
     ([''a$b''], Dir 0x1ED), ([''a$b'', ''x''], File 0x1A4 [3])]"


text \<open>
  The permission check of \<open>WriteFile\<close> expands the expanded path once more. When the result still
  contains a variable and expands to a path where there is no file, the check is skipped: an existing
  file is overwritten whatever its permissions are.
\<close>

theorem WriteFile_skips_check:
  assumes "ExpandPath env file = Inr q" and "ExpandPath env q = Inr q'" and "Stat env fs q' = Inl ENOENT"
    and "resolve env fs q = Inr p" and "map_of fs p = Some (File m old)" and "\<not> deny env OpWrite p"
  shows "WriteFile env file data fs = (None, AList.update p (File m data) fs)"
  using assms by (simp add: WriteFile_def FileExists_def os_WriteFile_def)

theorem WriteFile_skips_check_witness:
  "\<exists>fs'. WriteFile (demo_proc ''/a$b'') ''x'' [7, 8] demo_fs = (None, fs')
     \<and> map_of demo_fs [''a$b'', ''x''] = Some (File 0x1A4 [3]) \<and> map_of fs' [''a$b'', ''x''] = Some (File 0x1A4 [7, 8])"
proof -
  have 1: "ExpandPath (demo_proc ''/a$b'') ''x'' = Inr ''/a$b/x''" by code_simp
  have 2: "ExpandPath (demo_proc ''/a$b'') ''/a$b/x'' = Inr ''/a/x''" by code_simp
  have 3: "Stat (demo_proc ''/a$b'') demo_fs ''/a/x'' = Inl ENOENT" by code_simp
  have 4: "resolve (demo_proc ''/a$b'') demo_fs ''/a$b/x'' = Inr [''a$b'', ''x'']" by code_simp
  have 5: "map_of demo_fs [''a$b'', ''x''] = Some (File 0x1A4 [3])" by (simp add: demo_fs_def)
  have 6: "\<not> deny (demo_proc ''/a$b'') OpWrite p" for p by (simp add: demo_proc_def)
  from WriteFile_skips_check [OF 1 2 3 4 5 6, where data = "[7, 8]"] 5 show ?thesis by (simp add: update_conv)
qed

end
