(* ===== verification/Fileutil_Copy.thy ===== *)
theory Fileutil_Copy
  imports Fileutil
begin

text \<open>
  Creating and copying directories (\<open>MkdirAll\<close> and \<open>CopyDir\<close> of \<open>fileutil/fileutil.go\<close>): what is created,
  what is left alone, and how deep the copy goes.
\<close>

section \<open>Creating directories\<close>

lemma take_prefix_cases: "k < length (es :: 'a list) \<Longrightarrow> take k es = es \<longleftrightarrow> False"
  by (metis length_take min.absorb4 nat_neq_iff)

lemma Mkdir_abs_path:
  assumes "list_all is_name es"
  shows "Mkdir env (abs_path es) perm fs = (r, fs') \<longleftrightarrow>
    (if parent_dirs fs es \<and> map_of fs es = None \<and> \<not> deny env OpMkdir es
     then r = None \<and> fs' = AList.update es (Dir (perm AND NOT (umask env))) fs
     else fs' = fs \<and> r \<noteq> None \<and> r = fst (Mkdir env (abs_path es) perm fs))"
  by (rule resolve_cases [OF assms, of fs env]) (auto simp: Mkdir_def)

lemma dir_at_map: "dir_at fs p \<longleftrightarrow> (\<exists>m. map_of fs p = Some (Dir m))"
  by (auto simp: dir_at_def split: option.split inode.split)

text \<open>\<open>grown env es fs fs'\<close>: all that is new in \<open>fs'\<close> are directories on the way to \<open>es\<close>.\<close>

definition grown :: "proc_env \<Rightarrow> uint32 \<Rightarrow> path \<Rightarrow> fs \<Rightarrow> fs \<Rightarrow> bool" where
  "grown env perm es fs fs' \<longleftrightarrow> (\<forall>p. map_of fs' p = map_of fs p
     \<or> map_of fs p = None \<and> prefix p es \<and> map_of fs' p = Some (Dir (perm AND NOT (umask env))))"

lemma grown_trans: "grown env perm es fs fs1 \<Longrightarrow> grown env perm es fs1 fs2 \<Longrightarrow> grown env perm es fs fs2"
  unfolding grown_def by metis

lemma grown_prefix: "grown env perm es fs fs' \<Longrightarrow> prefix es es' \<Longrightarrow> grown env perm es' fs fs'"
  unfolding grown_def by (meson prefix_order.trans)

lemma os_MkdirAll_grown:
  assumes "list_all is_name es" and "os_MkdirAll env perm es fs = (r, fs')"
  shows "grown env perm es fs fs' \<and> (r = None \<longrightarrow> dir_at fs' es)"
  using assms
proof (induction env perm es fs arbitrary: r fs' rule: os_MkdirAll.induct)
  case (1 env perm es fs)
  note es = \<open>list_all is_name es\<close>
  have refl: "grown env perm es fs fs" for fs by (simp add: grown_def)
  show ?case
  proof (cases "Stat env fs (abs_path es)")
    case (Inr n)
    then show ?thesis
      using 1(3) Stat_abs_path [OF es, of env fs n] refl
      by (subst (asm) os_MkdirAll.simps) (auto simp: IsDir_def dir_at_map split: if_splits inode.splits)
  next
    case (Inl e)
    obtain r1 fs1 where p: "(if length es > 1 then os_MkdirAll env perm (butlast es) fs else (None, fs)) = (r1, fs1)"
      by (cases "if length es > 1 then os_MkdirAll env perm (butlast es) fs else (None, fs)")
    have "list_all is_name (butlast es)" using es by (meson in_set_butlastD list_all_iff)
    then have g1: "grown env perm es fs fs1"
      using 1(1) [OF Inl, of r1 fs1] p refl grown_prefix [OF _ prefixeq_butlast] by (auto split: if_splits)
    obtain r2 fs2 where m: "Mkdir env (abs_path es) perm fs1 = (r2, fs2)" by (cases "Mkdir env (abs_path es) perm fs1")
    have g2: "grown env perm es fs1 fs2" and d2: "r2 = None \<Longrightarrow> dir_at fs2 es"
      using m [unfolded Mkdir_abs_path [OF es]] by (auto simp: grown_def dir_at_map update_conv split: if_splits)
    have d3: "dir_at fs2 es" if "Stat env fs2 (abs_path es) = Inr n" "IsDir n" for n
      using that Stat_abs_path [OF es] by (auto simp: IsDir_def dir_at_map split: inode.splits)
    show ?thesis
      using 1(3) Inl p m g1 grown_trans [OF g1 g2] d2 d3
      by (subst (asm) os_MkdirAll.simps) (auto split: option.splits sum.splits if_splits)
  qed
qed

text \<open>
  C36. \<open>MkdirAll\<close> on a path whose expansion is unambiguous: everything that is new afterwards is a
  directory with mode 0700 (less the umask) on the way to the path, nothing that existed changes, on
  success the path is a directory, and a directory that exists with other permissions is refused.
\<close>

theorem MkdirAll_correct:
  assumes "expands_to env d es" and "\<not> deny env OpStat es"
  shows "case MkdirAll env d fs of (r, fs') \<Rightarrow>
      (\<forall>p. map_of fs' p = map_of fs p
         \<or> map_of fs p = None \<and> prefix p es \<and> map_of fs' p = Some (Dir (mode0700 AND NOT (umask env))))
      \<and> (r = None \<longrightarrow> dir_at fs' es)
      \<and> (\<forall>m. map_of fs es = Some (Dir m) \<and> parent_dirs fs es \<and> Perm m \<noteq> mode0700 \<longrightarrow> r \<noteq> None \<and> fs' = fs)"
proof -
  have es: "list_all is_name es" and ex: "ExpandPath env d = Inr (abs_path es)"
    using assms(1) by (auto simp: expands_to_def)
  note again = expands_to_again [OF assms(1)]
  have perm: "Perm (m OR ModeDir) = Perm m" for m
    by (simp add: Perm_def ModePerm_def ModeDir_def bit.conj_disj_distrib2)
  obtain r1 fs1 where o1: "os_MkdirAll env mode0700 es fs = (r1, fs1)" by (cases "os_MkdirAll env mode0700 es fs")
  note g = os_MkdirAll_grown [OF es o1]
  show ?thesis
  proof (cases "Stat env fs (abs_path es)")
    case (Inl e)
    have "\<not> (parent_dirs fs es \<and> map_of fs es = Some n)" for n
      using Stat_abs_path [OF es, of env fs n] Inl assms(2) by auto
    moreover have "MkdirAll env d fs = (if e = ENOENT then (map_option PathError r1, fs1) else (Some (PathError e), fs))"
      using Inl o1 es by (auto simp: MkdirAll_def HasDir_def ex again split: option.split)
    ultimately show ?thesis using g by (auto simp: grown_def)
  next
    case (Inr n)
    have n: "map_of fs es = Some n" using Inr Stat_abs_path [OF es] by auto
    have "MkdirAll env d fs = (if IsDir n \<and> Perm (Mode n) \<noteq> mode0700
        then (Some (Plain ''dir already exists without proper 0700 permissions''), fs) else (map_option PathError r1, fs1))"
      using Inr o1 es by (cases "IsDir n") (auto simp: MkdirAll_def HasDir_def ex again split: option.split)
    then show ?thesis using g n by (auto simp: grown_def IsDir_def Mode_def perm)
  qed
qed

theorem MkdirAll_correct_witness:
  "\<exists>fs'. MkdirAll (demo_proc ''/w'') ''d/e'' demo_fs = (None, fs') \<and> dir_at fs' [''w'', ''d'', ''e'']
     \<and> map_of fs' [''w'', ''y''] = map_of demo_fs [''w'', ''y'']"
proof -
  let ?es = "[''w'', ''d'', ''e'']"
  have a: "expands_to (demo_proc ''/w'') ''d/e'' ?es" by code_simp
  have d: "\<not> deny (demo_proc ''/w'') OpStat ?es" by (simp add: demo_proc_def)
  obtain fs' where w: "MkdirAll (demo_proc ''/w'') ''d/e'' demo_fs = (None, fs')"
  proof -
    have "fst (MkdirAll (demo_proc ''/w'') ''d/e'' demo_fs) = None" by code_simp
    then show thesis using that by (cases "MkdirAll (demo_proc ''/w'') ''d/e'' demo_fs") auto
  qed
  have "\<not> prefix [''w'', ''y''] ?es" by simp
  then show ?thesis using MkdirAll_correct [OF a d, of demo_fs] w by auto
qed

section \<open>Copying directories\<close>

definition no_dollar :: "path \<Rightarrow> bool" where
  "no_dollar es \<longleftrightarrow> (\<forall>e\<in>set es. CHR ''$'' \<notin> set e)"

lemma abs_path_no_dollar: "no_dollar es \<Longrightarrow> CHR ''$'' \<notin> set (abs_path es)"
proof -
  have "no_dollar es \<Longrightarrow> CHR ''$'' \<notin> set (join_path es)"
    by (induction es rule: join_path.induct) (auto simp: no_dollar_def slash_def)
  then show "no_dollar es \<Longrightarrow> CHR ''$'' \<notin> set (abs_path es)" by (simp add: abs_path_def slash_def)
qed

lemma expands_to_self: "list_all is_name es \<Longrightarrow> no_dollar es \<Longrightarrow> expands_to env (abs_path es) es"
  using Expand_no_dollar [OF abs_path_no_dollar [of es]] ExpandPath_stable [of "abs_path es" env]
  by (auto simp: expands_to_def clean_abs_def)

text \<open>A file system that can be copied: closed under parents, with proper names and no dollar signs.\<close>

definition wf_fs :: "fs \<Rightarrow> bool" where
  "wf_fs fs \<longleftrightarrow> dir_at fs [] \<and> (\<forall>k\<in>dom (map_of fs). list_all is_name k \<and> no_dollar k \<and> parent_dirs fs k)"

lemma wf_fsD:
  assumes "wf_fs fs" and "map_of fs k \<noteq> None"
  shows "list_all is_name k" "no_dollar k" "parent_dirs fs k"
  using assms by (auto simp: wf_fs_def)

lemma set_dir_names: "set (dir_names fs q) = {e. map_of fs (q @ [e]) \<noteq> None}"
proof -
  have "e \<in> last ` {k \<in> fst ` set fs. k \<noteq> [] \<and> butlast k = q} \<longleftrightarrow> q @ [e] \<in> fst ` set fs" for e
  proof
    assume "e \<in> last ` {k \<in> fst ` set fs. k \<noteq> [] \<and> butlast k = q}"
    then obtain k where k: "k \<in> fst ` set fs" "k \<noteq> []" "butlast k = q" "e = last k" by blast
    then have "q @ [e] = k" by auto
    then show "q @ [e] \<in> fst ` set fs" using k(1) by simp
  next
    assume "q @ [e] \<in> fst ` set fs"
    then show "e \<in> last ` {k \<in> fst ` set fs. k \<noteq> [] \<and> butlast k = q}"
      by (intro image_eqI [of _ _ "q @ [e]"]) simp_all
  qed
  then show ?thesis by (auto simp: dir_names_def map_of_eq_None_iff)
qed

lemma distinct_dir_names: "distinct (dir_names fs q)"
  by (simp add: dir_names_def)

definition permissive :: "proc_env \<Rightarrow> bool" where
  "permissive env \<longleftrightarrow> (\<forall>k p. \<not> deny env k p)"

lemma ReadDir_abs_path:
  assumes "wf_fs fs" and "dir_at fs S" and "permissive env"
  shows "ReadDir env fs (abs_path S) = Inr (map (\<lambda>e. (e, the (map_of fs (S @ [e])))) (dir_names fs S))"
proof -
  obtain m where m: "map_of fs S = Some (Dir m)" using assms(2) by (auto simp: dir_at_map)
  then have "list_all is_name S" "parent_dirs fs S" using wf_fsD [OF assms(1), of S] by auto
  then have "resolve env fs (abs_path S) = Inr S" by (simp add: resolve_abs_path)
  then show ?thesis using m assms(3) by (simp add: ReadDir_def Readdirnames_def permissive_def)
qed

text \<open>Creating a directory whose parent exists.\<close>

lemma parent_dirs_butlast:
  assumes "parent_dirs fs es" and "es \<noteq> []"
  shows "parent_dirs fs (butlast es)" "dir_at fs (butlast es)"
proof -
  have "take k (butlast es) = take k es" if "k < length (butlast es)" for k
    using that by (simp add: butlast_conv_take)
  then show "parent_dirs fs (butlast es)" using assms by (auto simp: parent_dirs_def)
  show "dir_at fs (butlast es)" using assms by (auto simp: parent_dirs_def butlast_conv_take)
qed

lemma MkdirAll_new:
  assumes "list_all is_name D" and "no_dollar D" and "parent_dirs fs D" and "map_of fs D = None" and "permissive env"
  shows "HasDir env fs (abs_path D) = (False, None)"
    and "MkdirAll env (abs_path D) fs = (None, AList.update D (Dir (mode0700 AND NOT (umask env))) fs)"
proof -
  have ex: "ExpandPath env (abs_path D) = Inr (abs_path D)"
    using expands_to_self [OF assms(1,2)] by (auto simp: expands_to_def)
  have r: "resolve env fs (abs_path D) = Inr D" using assms(1,3) by (simp add: resolve_abs_path)
  have st: "Stat env fs (abs_path D) = Inl ENOENT" using r assms(4,5) by (simp add: Stat_def permissive_def)
  show hd: "HasDir env fs (abs_path D) = (False, None)" by (simp add: HasDir_def ex st)
  have D: "D \<noteq> []" using assms(3,4) by (auto simp: parent_dirs_def dir_at_map)
  have "list_all is_name (butlast D)" using assms(1) by (meson in_set_butlastD list_all_iff)
  then obtain m where "Stat env fs (abs_path (butlast D)) = Inr (Dir m)"
    using parent_dirs_butlast [OF assms(3) D] assms(5) by (auto simp: Stat_abs_path permissive_def dir_at_map)
  then have up: "os_MkdirAll env mode0700 (butlast D) fs = (None, fs)"
    by (subst os_MkdirAll.simps) (simp add: IsDir_def)
  have "Mkdir env (abs_path D) mode0700 fs = (None, AList.update D (Dir (mode0700 AND NOT (umask env))) fs)"
    using r assms(4,5) by (simp add: Mkdir_def permissive_def)
  then have "os_MkdirAll env mode0700 D fs = (None, AList.update D (Dir (mode0700 AND NOT (umask env))) fs)"
    using st up by (subst os_MkdirAll.simps) (auto split: prod.splits)
  then show "MkdirAll env (abs_path D) fs = (None, AList.update D (Dir (mode0700 AND NOT (umask env))) fs)"
    using assms(1) by (simp add: MkdirAll_def ex hd)
qed

text \<open>What a copied file or directory looks like.\<close>

definition copy_node :: "proc_env \<Rightarrow> inode \<Rightarrow> inode" where
  "copy_node env n =
     (case n of
        File _ c \<Rightarrow> File (mode0600 AND NOT (umask env)) c
      | Dir _ \<Rightarrow> Dir (mode0700 AND NOT (umask env)))"

text \<open>The file system in the middle of a copy from \<open>S\<close> to \<open>D\<close>: the entries in \<open>X\<close> are there already.\<close>

definition copied :: "proc_env \<Rightarrow> fs \<Rightarrow> path \<Rightarrow> path \<Rightarrow> string set \<Rightarrow> fs \<Rightarrow> bool" where
  "copied env fs0 S D X fs \<longleftrightarrow>
     (\<forall>p. \<not> prefix D p \<longrightarrow> map_of fs p = map_of fs0 p)
     \<and> map_of fs D = Some (Dir (mode0700 AND NOT (umask env)))
     \<and> (\<forall>e r. map_of fs (D @ e # r) = (if e \<in> X then map_option (copy_node env) (map_of fs0 (S @ e # r)) else None))"

definition source_ok :: "fs \<Rightarrow> path \<Rightarrow> path \<Rightarrow> bool" where
  "source_ok fs S D \<longleftrightarrow> wf_fs fs \<and> dir_at fs S \<and> list_all is_name D \<and> no_dollar D \<and> parent_dirs fs D
     \<and> (\<forall>r. map_of fs (D @ r) = None) \<and> \<not> prefix S D \<and> \<not> prefix D S"

lemma not_prefix_append: "\<not> prefix S D \<Longrightarrow> \<not> prefix D S \<Longrightarrow> \<not> prefix D (S @ r)"
  by (auto simp: prefix_append)

lemma copied_source:
  assumes "source_ok fs0 S D" and "copied env fs0 S D X fs"
  shows "map_of fs (S @ r) = map_of fs0 (S @ r)"
  using assms not_prefix_append [of S D r] by (simp add: source_ok_def copied_def)

lemma copied_dir_below:
  assumes "source_ok fs0 S D" and "copied env fs0 S D X fs" and "dir_at fs0 p" and "\<not> prefix D p"
  shows "dir_at fs p"
  using assms by (simp add: dir_at_map copied_def)

lemma copied_parent_D:
  assumes "source_ok fs0 S D" and "copied env fs0 S D X fs" and "k \<le> length D"
  shows "dir_at fs (take k D)"
proof (cases "k = length D")
  case True
  then show ?thesis using assms(2) by (simp add: copied_def dir_at_map)
next
  case False
  then have k: "k < length D" using assms(3) by simp
  then have "dir_at fs0 (take k D)" using assms(1) by (auto simp: source_ok_def parent_dirs_def)
  moreover have "\<not> prefix D (take k D)" using k by (auto dest: prefix_length_le)
  ultimately show ?thesis using copied_dir_below [OF assms(1,2)] by blast
qed

lemma copied_wf:
  assumes "source_ok fs0 S D" and "copied env fs0 S D X fs"
  shows "wf_fs fs"
proof -
  have wf0: "wf_fs fs0" and D: "list_all is_name D" "no_dollar D" using assms(1) by (auto simp: source_ok_def)
  have root: "dir_at fs []" using copied_parent_D [OF assms, of 0] by simp
  have ok: "list_all is_name k \<and> no_dollar k \<and> parent_dirs fs k" if k: "map_of fs k \<noteq> None" for k
  proof (cases "prefix D k")
    case False
    then have "map_of fs0 k \<noteq> None" using k assms(2) by (simp add: copied_def)
    note w = wf_fsD [OF wf0 this]
    have "dir_at fs (take j k)" if j: "j < length k" for j
    proof -
      have "\<not> prefix D (take j k)" using False take_is_prefix [of j k] prefix_order.trans by blast
      then show ?thesis using w(3) j copied_dir_below [OF assms] by (simp add: parent_dirs_def)
    qed
    then show ?thesis using w root by (simp add: parent_dirs_def)
  next
    case True
    then obtain r where r: "k = D @ r" by (auto simp: prefix_def)
    show ?thesis
    proof (cases r)
      case Nil
      then show ?thesis using r D root copied_parent_D [OF assms] by (simp add: parent_dirs_def)
    next
      case (Cons e r')
      then have X: "e \<in> X" and src: "map_of fs0 (S @ e # r') \<noteq> None"
        using k r assms(2) by (auto simp: copied_def split: if_splits)
      note w = wf_fsD [OF wf0 src]
      have "dir_at fs (take j (D @ r))" if j: "j < length (D @ r)" for j
      proof (cases "j \<le> length D")
        case True
        then show ?thesis using copied_parent_D [OF assms, of j] by simp
      next
        case False
        then obtain i where i: "j = length D + Suc i" using less_imp_Suc_add by (metis add_Suc_right not_le)
        then have "dir_at fs0 (take (length S + Suc i) (S @ e # r'))"
          using w(3) j Cons by (auto simp: parent_dirs_def simp del: take_append)
        then show ?thesis using i X Cons assms(2) by (auto simp: dir_at_map copied_def copy_node_def)
      qed
      then show ?thesis using r Cons w D root by (auto simp: parent_dirs_def no_dollar_def)
    qed
  qed
  then show ?thesis using root by (auto simp: wf_fs_def)
qed

lemma copied_next:
  assumes "source_ok fs0 S D" and "copied env fs0 S D X fs"
    and "\<forall>p. \<not> prefix (D @ [e]) p \<longrightarrow> map_of fs' p = map_of fs p"
    and "\<forall>r. map_of fs' (D @ e # r) = map_option (copy_node env) (map_of fs (S @ e # r))"
  shows "copied env fs0 S D (insert e X) fs'"
proof -
  have "\<not> prefix D p \<Longrightarrow> \<not> prefix (D @ [e]) p" for p by (meson append_prefixD)
  moreover have "\<not> prefix (D @ [e]) D" by (auto dest: prefix_length_le)
  moreover have "map_of fs' (D @ d # r) = (if d \<in> insert e X then map_option (copy_node env) (map_of fs0 (S @ d # r)) else None)" for d r
  proof (cases "d = e")
    case True
    then show ?thesis using assms(4) copied_source [OF assms(1,2)] by simp
  next
    case False
    then have "\<not> prefix (D @ [e]) (D @ d # r)" by simp
    then show ?thesis using False assms(2,3) by (simp add: copied_def)
  qed
  ultimately show ?thesis
    using assms(2,3) by (simp add: copied_def)
qed

lemma source_ok_below:
  assumes "source_ok fs0 S D" and "copied env fs0 S D X fs" and "dir_at fs0 (S @ [e])" and "e \<notin> X"
  shows "source_ok fs (S @ [e]) (D @ [e])"
proof -
  have s: "dir_at fs (S @ [e])" using assms(3) copied_source [OF assms(1,2), of "[e]"] by (simp add: dir_at_map)
  have wf: "wf_fs fs" by (rule copied_wf [OF assms(1,2)])
  then have e: "is_name e" "CHR ''$'' \<notin> set e" using wf_fsD [of fs "S @ [e]"] s by (auto simp: dir_at_map no_dollar_def)
  have "parent_dirs fs (D @ [e])"
    using copied_parent_D [OF assms(1,2)] copied_parent_D [OF assms(1,2), of 0] by (simp add: parent_dirs_def)
  moreover have "(S @ [e]) \<parallel> (D @ [e])" using assms(1) by (intro parallel_append) (simp add: source_ok_def parallel_def)
  ultimately show ?thesis
    using s wf e assms(1,2,4) by (simp add: source_ok_def copied_def no_dollar_def parallel_def)
qed

lemma wf_below_file:
  assumes "wf_fs fs" and "map_of fs p = Some (File m c)" and "r \<noteq> []"
  shows "map_of fs (p @ r) = None"
proof (rule ccontr)
  assume "map_of fs (p @ r) \<noteq> None"
  then have "parent_dirs fs (p @ r)" by (rule wf_fsD(3) [OF assms(1)])
  then have "dir_at fs (take (length p) (p @ r))" using assms(3) by (auto simp: parent_dirs_def simp del: take_append)
  then show False using assms(2) by (simp add: dir_at_map)
qed

lemma CopyFile_new:
  assumes "source_ok fs0 S D" and "copied env fs0 S D X fs" and "map_of fs0 (S @ [e]) = Some (File m c)" and "e \<notin> X"
    and "permissive env"
  shows "CopyFile env (abs_path (S @ [e])) (abs_path (D @ [e])) fs
    = (None, AList.update (D @ [e]) (File (mode0600 AND NOT (umask env)) c) fs)"
proof -
  have src: "map_of fs (S @ [e]) = Some (File m c)" using assms(3) copied_source [OF assms(1,2), of "[e]"] by simp
  have wf: "wf_fs fs" by (rule copied_wf [OF assms(1,2)])
  note w = wf_fsD [OF wf, of "S @ [e]"]
  have D: "list_all is_name (D @ [e])" using w src assms(1) by (simp add: source_ok_def)
  have rd: "ReadFile env fs (abs_path (S @ [e])) = Inr c"
    using w src assms(5) by (auto simp: ReadFile_abs_path permissive_def)
  have none: "map_of fs (D @ [e]) = None" using assms(2,4) by (simp add: copied_def)
  have "parent_dirs fs (D @ [e])"
    using copied_parent_D [OF assms(1,2)] copied_parent_D [OF assms(1,2), of 0] by (simp add: parent_dirs_def)
  then have "os_WriteFile env (abs_path (D @ [e])) c mode0600 fs
      = (None, AList.update (D @ [e]) (File (mode0600 AND NOT (umask env)) c) fs)"
    using none assms(5) by (simp add: os_WriteFile_abs_path [OF D] permissive_def dir_at_map)
  then show ?thesis by (simp add: CopyFile_def rd)
qed

text \<open>The loop over the entries, given that the recursive calls copy.\<close>

definition copies :: "proc_env \<Rightarrow> fs \<Rightarrow> path \<Rightarrow> path \<Rightarrow> (file_error option \<times> fs) option \<Rightarrow> bool" where
  "copies env fs S D r \<longleftrightarrow> (\<exists>fs'. r = Some (None, fs')
     \<and> (\<forall>p. \<not> prefix D p \<longrightarrow> map_of fs' p = map_of fs p)
     \<and> (\<forall>q. map_of fs' (D @ q) = map_option (copy_node env) (map_of fs (S @ q))))"

lemma copy_entries_copied:
  assumes "source_ok fs0 S D" and "permissive env"
    and rec: "\<And>fs e. source_ok fs (S @ [e]) (D @ [e]) \<Longrightarrow> \<forall>q. map_of fs (S @ e # q) = map_of fs0 (S @ e # q)
      \<Longrightarrow> copies env fs (S @ [e]) (D @ [e]) (f (abs_path (S @ [e])) (abs_path (D @ [e])) fs)"
    and "copied env fs0 S D X fs" and "distinct es" and "set es \<inter> X = {}" and "\<forall>e\<in>set es. map_of fs0 (S @ [e]) \<noteq> None"
  shows "\<exists>fs'. copy_entries f env (abs_path S) (abs_path D) (map (\<lambda>e. (e, the (map_of fs0 (S @ [e])))) es) fs = Some (None, fs')
    \<and> copied env fs0 S D (X \<union> set es) fs'"
  using assms(4-7)
proof (induction es arbitrary: X fs)
  case (Cons e es)
  obtain n where n: "map_of fs0 (S @ [e]) = Some n" using Cons.prems by auto
  have wf0: "wf_fs fs0" using assms(1) by (simp add: source_ok_def)
  have names: "list_all is_name S" "list_all is_name D" "is_name e"
    using wf_fsD(1) [OF wf0, of "S @ [e]"] n assms(1) by (auto simp: source_ok_def)
  note src = copied_source [OF assms(1) Cons.prems(1)]
  have "\<exists>fs1. copied env fs0 S D (insert e X) fs1
      \<and> copy_entries f env (abs_path S) (abs_path D) (map (\<lambda>e. (e, the (map_of fs0 (S @ [e])))) (e # es)) fs
        = copy_entries f env (abs_path S) (abs_path D) (map (\<lambda>e. (e, the (map_of fs0 (S @ [e])))) es) fs1"
  proof (cases n)
    case (File m c)
    let ?fs1 = "AList.update (D @ [e]) (File (mode0600 AND NOT (umask env)) c) fs"
    have below: "map_of fs (S @ e # r) = None" if "r \<noteq> []" for r
      using wf_below_file [OF wf0 _ that, of "S @ [e]"] n File src [of "e # r"] by simp
    have D: "map_of fs (D @ e # r) = None" for r using Cons.prems(1,3) by (auto simp: copied_def)
    have "copied env fs0 S D (insert e X) ?fs1"
    proof (rule copied_next [OF assms(1) Cons.prems(1)])
      show "\<forall>p. \<not> prefix (D @ [e]) p \<longrightarrow> map_of ?fs1 p = map_of fs p" by (auto simp: update_conv)
      show "\<forall>r. map_of ?fs1 (D @ e # r) = map_option (copy_node env) (map_of fs (S @ e # r))"
      proof
        fix r
        show "map_of ?fs1 (D @ e # r) = map_option (copy_node env) (map_of fs (S @ e # r))"
          using below [of r] D [of r] n File src [of "[e]"] by (cases r) (simp_all add: update_conv copy_node_def)
      qed
    qed
    moreover have "CopyFile env (abs_path (S @ [e])) (abs_path (D @ [e])) fs = (None, ?fs1)"
      using Cons.prems n File by (intro CopyFile_new [OF assms(1) Cons.prems(1) _ _ assms(2)]) auto
    ultimately show ?thesis using n File names by (auto simp: IsDir_def Let_def)
  next
    case (Dir m)
    have "source_ok fs (S @ [e]) (D @ [e])"
      using n Dir Cons.prems(3) by (intro source_ok_below [OF assms(1) Cons.prems(1)]) (auto simp: dir_at_map)
    from rec [OF this] src obtain fs1 where fs1: "f (abs_path (S @ [e])) (abs_path (D @ [e])) fs = Some (None, fs1)"
      "\<forall>p. \<not> prefix (D @ [e]) p \<longrightarrow> map_of fs1 p = map_of fs p"
      "\<forall>q. map_of fs1 (D @ e # q) = map_option (copy_node env) (map_of fs (S @ e # q))"
      by (auto simp: copies_def)
    have "copied env fs0 S D (insert e X) fs1" by (rule copied_next [OF assms(1) Cons.prems(1) fs1(2,3)])
    then show ?thesis using n Dir names fs1(1) by (auto simp: IsDir_def Let_def)
  qed
  then obtain fs1 where fs1: "copied env fs0 S D (insert e X) fs1"
    "copy_entries f env (abs_path S) (abs_path D) (map (\<lambda>e. (e, the (map_of fs0 (S @ [e])))) (e # es)) fs
        = copy_entries f env (abs_path S) (abs_path D) (map (\<lambda>e. (e, the (map_of fs0 (S @ [e])))) es) fs1" by blast
  show ?case using Cons.IH [OF fs1(1)] Cons.prems fs1(2) by auto
qed simp

lemma CopyDir_copies_step:
  assumes "source_ok fs S D" and "permissive env"
    and "\<And>fs' e. source_ok fs' (S @ [e]) (D @ [e]) \<Longrightarrow> \<forall>q. map_of fs' (S @ e # q) = map_of fs (S @ e # q)
      \<Longrightarrow> copies env fs' (S @ [e]) (D @ [e]) (CopyDir n env (abs_path (S @ [e])) (abs_path (D @ [e])) fs')"
  shows "copies env fs S D (CopyDir (Suc n) env (abs_path S) (abs_path D) fs)"
proof -
  let ?fs1 = "AList.update D (Dir (mode0700 AND NOT (umask env))) fs"
  have ok: "wf_fs fs" "dir_at fs S" "list_all is_name D" "no_dollar D" "parent_dirs fs D" "\<forall>r. map_of fs (D @ r) = None"
    using assms(1) by (simp_all add: source_ok_def)
  have none: "map_of fs D = None" using ok(6) by (metis append_Nil2)
  note new = MkdirAll_new [OF ok(3-5) none assms(2)]
  have "copied env fs S D {} ?fs1" using ok(6) by (auto simp: copied_def update_conv)
  from copy_entries_copied [OF assms(1,2) assms(3) this distinct_dir_names [of fs S]] set_dir_names [of fs S]
  obtain fs' where fs': "copy_entries (CopyDir n env) env (abs_path S) (abs_path D)
      (map (\<lambda>e. (e, the (map_of fs (S @ [e])))) (dir_names fs S)) ?fs1 = Some (None, fs')"
    "copied env fs S D {e. map_of fs (S @ [e]) \<noteq> None} fs'" by auto
  have run: "CopyDir (Suc n) env (abs_path S) (abs_path D) fs = Some (None, fs')"
    using new ReadDir_abs_path [OF ok(1,2) assms(2)] fs'(1) by simp
  have gone: "map_of fs (S @ e # r) = None" if "map_of fs (S @ [e]) = None" for e r
  proof (rule ccontr)
    assume a: "map_of fs (S @ e # r) \<noteq> None"
    then have r: "r \<noteq> []" using that by auto
    have "parent_dirs fs (S @ e # r)" by (rule wf_fsD(3) [OF ok(1) a])
    then have "dir_at fs (take (Suc (length S)) (S @ e # r))" using r by (auto simp: parent_dirs_def simp del: take_append)
    then show False using that by (simp add: dir_at_map)
  qed
  have "map_of fs' (D @ q) = map_option (copy_node env) (map_of fs (S @ q))" for q
    using fs'(2) ok(2) gone by (cases q) (auto simp: copied_def dir_at_map copy_node_def)
  then show ?thesis using run fs'(2) by (auto simp: copies_def copied_def)
qed

lemma CopyDir_copies:
  assumes "source_ok fs S D" and "permissive env" and "\<forall>r. map_of fs (S @ r) \<noteq> None \<longrightarrow> length r < n"
  shows "copies env fs S D (CopyDir n env (abs_path S) (abs_path D) fs)"
  using assms(1,3)
proof (induction n arbitrary: fs S D)
  case 0
  then have "map_of fs (S @ []) \<noteq> None" by (auto simp: source_ok_def dir_at_map)
  with 0 show ?case by blast
next
  case (Suc n)
  show ?case
  proof (rule CopyDir_copies_step [OF Suc.prems(1) assms(2)])
    fix fs' e
    assume "source_ok fs' (S @ [e]) (D @ [e])" and "\<forall>q. map_of fs' (S @ e # q) = map_of fs (S @ e # q)"
    moreover from this have "\<forall>r. map_of fs' ((S @ [e]) @ r) \<noteq> None \<longrightarrow> length r < n"
      using Suc.prems(2) by (metis Suc_less_eq append.assoc append_Cons append_Nil length_Cons)
    ultimately show "copies env fs' (S @ [e]) (D @ [e]) (CopyDir n env (abs_path (S @ [e])) (abs_path (D @ [e])) fs')"
      using Suc.IH by blast
  qed
qed

lemma CopyDir_copied:
  assumes "source_ok fs S D" and "permissive env" and "\<forall>r. map_of fs (S @ r) \<noteq> None \<longrightarrow> length r < n"
  shows "\<exists>fs'. CopyDir n env (abs_path S) (abs_path D) fs = Some (None, fs') \<and> copied env fs S D UNIV fs'"
proof -
  from CopyDir_copies [OF assms] obtain fs' where "CopyDir n env (abs_path S) (abs_path D) fs = Some (None, fs')"
    "\<forall>p. \<not> prefix D p \<longrightarrow> map_of fs' p = map_of fs p"
    "\<forall>q. map_of fs' (D @ q) = map_option (copy_node env) (map_of fs (S @ q))" by (auto simp: copies_def)
  moreover from this(3) [rule_format, of "[]"] have "map_of fs' D = Some (Dir (mode0700 AND NOT (umask env)))"
    using assms(1) by (auto simp: source_ok_def dir_at_map copy_node_def)
  ultimately show ?thesis by (auto simp: copied_def)
qed

text \<open>
  C17. \<open>CopyDir\<close> terminates and copies the tree: for a directory and a destination that does not exist
  yet, neither of them inside the other, with permission to do everything and no dollar signs in names,
  any depth beyond that of the source is enough, the destination then holds the same files with the
  same contents under the same names (files with mode 0600, directories with mode 0700), and nothing
  outside the destination changes.
\<close>

theorem CopyDir_correct:
  assumes "wf_fs fs" and "dir_at fs S" and "list_all is_name D" and "no_dollar D" and "parent_dirs fs D"
    and "\<forall>r. map_of fs (D @ r) = None" and "\<not> prefix S D" and "\<not> prefix D S" and "permissive env"
    and "\<forall>r. map_of fs (S @ r) \<noteq> None \<longrightarrow> length r < n"
  shows "\<exists>fs'. CopyDir n env (abs_path S) (abs_path D) fs = Some (None, fs')
    \<and> (\<forall>p. \<not> prefix D p \<longrightarrow> map_of fs' p = map_of fs p)
    \<and> (\<forall>q. map_of fs' (D @ q) = map_option (copy_node env) (map_of fs (S @ q)))"
proof -
  have "source_ok fs S D" using assms by (simp add: source_ok_def)
  from CopyDir_copies [OF this assms(9,10)] show ?thesis by (simp add: copies_def)
qed

lemma keys_wf:
  assumes "dir_at fs []" and "list_all (\<lambda>k. list_all is_name k \<and> no_dollar k \<and> parent_dirs fs k) (map fst fs)"
  shows "wf_fs fs"
  using assms by (force simp: wf_fs_def list_all_iff dest: map_of_SomeD)

lemma keys_None:
  assumes "list_all (\<lambda>k. \<not> prefix D k) (map fst fs)"
  shows "\<forall>r. map_of fs (D @ r) = None"
  using assms by (fastforce simp: list_all_iff map_of_eq_None_iff)

lemma keys_depth:
  assumes "list_all (\<lambda>k. length k < n) (map fst fs)"
  shows "\<forall>r. map_of fs (S @ r) \<noteq> None \<longrightarrow> length r < n"
  using assms by (fastforce simp: list_all_iff dest: map_of_SomeD)

definition demo_tree :: fs where
  "demo_tree = [([], Dir 0x1ED), ([''s''], Dir 0x1ED), ([''s'', ''f''], File 0x1A4 [1, 2]), ([''s'', ''d''], Dir 0x1ED),
     ([''s'', ''d'', ''g''], File 0x180 [3])]"

theorem CopyDir_correct_witness:
  "\<exists>fs'. CopyDir 4 (demo_proc ''/'') (abs_path [''s'']) (abs_path [''t'']) demo_tree = Some (None, fs')
     \<and> map_of fs' [''t'', ''d'', ''g''] = Some (File mode0600 [3]) \<and> map_of fs' [''s'', ''f''] = Some (File 0x1A4 [1, 2])"
proof -
  have 1: "wf_fs demo_tree"
    by (rule keys_wf)
      (simp_all add: demo_tree_def is_name_def slash_def no_dollar_def parent_dirs_def dir_at_def All_less_Suc)
  have 2: "dir_at demo_tree [''s'']" by code_simp
  have 3: "list_all is_name [''t'']" by code_simp
  have 4: "no_dollar [''t'']" by code_simp
  have 5: "parent_dirs demo_tree [''t'']" by code_simp
  have 6: "\<forall>r. map_of demo_tree ([''t''] @ r) = None" by (rule keys_None) (simp add: demo_tree_def)
  have 7: "\<not> prefix [''s''] [''t'']" "\<not> prefix [''t''] [''s'']" by simp_all
  have 8: "permissive (demo_proc ''/'')" by (simp add: permissive_def demo_proc_def)
  have 9: "\<forall>r. map_of demo_tree ([''s''] @ r) \<noteq> None \<longrightarrow> length r < 4" by (rule keys_depth) code_simp
  from CopyDir_correct [OF 1 2 3 4 5 6 7 8 9] obtain fs' where
    fs': "CopyDir 4 (demo_proc ''/'') (abs_path [''s'']) (abs_path [''t'']) demo_tree = Some (None, fs')"
    "\<forall>p. \<not> prefix [''t''] p \<longrightarrow> map_of fs' p = map_of demo_tree p"
    "\<forall>q. map_of fs' ([''t''] @ q) = map_option (copy_node (demo_proc ''/'')) (map_of demo_tree ([''s''] @ q))" by blast
  have "map_of demo_tree [''s'', ''d'', ''g''] = Some (File 0x180 [3])" "map_of demo_tree [''s'', ''f''] = Some (File 0x1A4 [1, 2])"
    by (simp_all add: demo_tree_def)
  then show ?thesis
    using fs'(1) fs'(2) [rule_format, of "[''s'', ''f'']"] fs'(3) [rule_format, of "[''d'', ''g'']"]
    by (simp add: copy_node_def demo_proc_def mode0600_def)
qed

end
