(* ===== verification/Fileutil_Hash.thy ===== *)
theory Fileutil_Hash
  imports Fileutil_Copy
begin

text \<open>
  Hashes of directories (\<open>DirFiles\<close>, \<open>HashDir\<close> and \<open>DirsEqual\<close> of \<open>fileutil/fileutil.go\<close>): which files are
  found, what text is hashed, and when two directories count as equal.
\<close>

section \<open>The files below a directory\<close>

definition content :: "fs \<Rightarrow> path \<Rightarrow> byte list option" where
  "content fs p = (case map_of fs p of Some (File _ c) \<Rightarrow> Some c | _ \<Rightarrow> None)"

definition files_below :: "fs \<Rightarrow> path \<Rightarrow> string set" where
  "files_below fs S = join_path ` {r. content fs (S @ r) \<noteq> None}"

lemma join_path_append: "es \<noteq> [] \<Longrightarrow> rs \<noteq> [] \<Longrightarrow> join_path (es @ rs) = join_path es @ slash # join_path rs"
  by (induction es rule: join_path.induct) (auto simp: neq_Nil_conv)

lemma rel_file_below:
  assumes "S \<noteq> []" and "r \<noteq> []"
  shows "rel_file (abs_path S) (abs_path (S @ r)) = Return (join_path r)"
  using assms by (simp add: rel_file_def abs_path_def join_path_append slash_def)

lemma join_path_inj:
  assumes "list_all is_name a" and "list_all is_name b" and "join_path a = join_path b"
  shows "a = b"
  using abs_path_inj [OF assms(1,2)] assms(3) by (simp add: abs_path_def)

lemma Join_abs_names:
  assumes "list_all is_name S" and "list_all is_name r" and "r \<noteq> []"
  shows "Join (abs_path S) (join_path r) = abs_path (S @ r)"
proof -
  have sp: "split_path (join_path es @ slash # s) = split_path (join_path es) @ split_path s" if "\<forall>x\<in>set es. slash \<notin> set x" for es s
    using that by (induction es rule: join_path.induct) (simp_all add: split_path_name split_path_append)
  have "split_path (abs_path S @ slash # join_path r) = split_path (abs_path S) @ r"
    using sp [OF names_noslash [OF assms(1)]] split_join [OF assms(3) names_noslash [OF assms(2)]] by (simp add: abs_path_def)
  moreover have "filter (\<lambda>x. x \<noteq> []) r = r" using assms(2) by (auto simp: list_all_iff is_name_def filter_id_conv)
  ultimately have "filter (\<lambda>x. x \<noteq> []) (split_path (abs_path S @ slash # join_path r)) = S @ r"
    using split_abs_path [OF assms(1)] by simp
  then have "clean_elems True [] (split_path (abs_path S @ slash # join_path r)) = clean_elems True [] (S @ r)"
    using clean_elems_filter [of True "[]" "split_path (abs_path S @ slash # join_path r)"] by simp
  also have "\<dots> = S @ r" using assms by (simp add: clean_elems_id)
  finally show ?thesis by (simp add: Join_def Clean_def IsAbs_def abs_path_def)
qed

text \<open>The files below the entry \<open>r\<close> of \<open>S\<close>, with their names relative to \<open>S\<close>.\<close>

definition files_at :: "fs \<Rightarrow> path \<Rightarrow> path \<Rightarrow> string set" where
  "files_at fs S r = (\<lambda>q. join_path (r @ q)) ` {q. content fs (S @ r @ q) \<noteq> None}"

definition finds :: "string list \<Rightarrow> string set \<Rightarrow> string list walked \<Rightarrow> bool" where
  "finds files F w \<longleftrightarrow> (\<exists>L. w = Some (Return (Inr (files @ L))) \<and> distinct L \<and> set L = F)"

lemma content_names:
  assumes "wf_fs fs" and "content fs p \<noteq> None"
  shows "list_all is_name p"
  using assms wf_fsD(1) [OF assms(1), of p] by (auto simp: content_def split: option.splits)

lemma files_at_disjoint:
  assumes "wf_fs fs" and "d \<noteq> e"
  shows "files_at fs S (r @ [d]) \<inter> files_at fs S (r @ [e]) = {}"
proof -
  have "False" if "content fs (S @ (r @ [d]) @ p) \<noteq> None" "content fs (S @ (r @ [e]) @ q) \<noteq> None"
    "join_path ((r @ [d]) @ p) = join_path ((r @ [e]) @ q)" for p q
  proof -
    have "(r @ [d]) @ p = (r @ [e]) @ q"
      using that content_names [OF assms(1) that(1)] content_names [OF assms(1) that(2)]
      by (intro join_path_inj) simp_all
    then show False using assms(2) by simp
  qed
  then show ?thesis unfolding files_at_def by blast
qed

lemma walk_entries_finds:
  assumes "wf_fs fs" and "list_all is_name (S @ r)" and "list_all is_name nams" and "distinct nams"
    and "\<And>e files. e \<in> set nams \<Longrightarrow> finds files (files_at fs S (r @ [e])) (f (abs_path (S @ r @ [e])) files)"
  shows "finds files (\<Union>e\<in>set nams. files_at fs S (r @ [e])) (walk_entries f (abs_path (S @ r)) nams files)"
  using assms(3-5)
proof (induction nams arbitrary: files)
  case Nil
  show ?case by (simp add: finds_def)
next
  case (Cons e nams)
  have j: "Join (abs_path (S @ r)) e = abs_path (S @ r @ [e])" using assms(2) Cons.prems(1) by simp
  from Cons.prems(3) [of e files] obtain L where L: "f (abs_path (S @ r @ [e])) files = Some (Return (Inr (files @ L)))"
    "distinct L" "set L = files_at fs S (r @ [e])" by (auto simp: finds_def)
  have "finds (files @ L) (\<Union>e\<in>set nams. files_at fs S (r @ [e])) (walk_entries f (abs_path (S @ r)) nams (files @ L))"
    using Cons by simp
  then obtain L' where L': "walk_entries f (abs_path (S @ r)) nams (files @ L) = Some (Return (Inr (files @ L @ L')))"
    "distinct L'" "set L' = (\<Union>e\<in>set nams. files_at fs S (r @ [e]))" by (auto simp: finds_def)
  have "set L \<inter> set L' = {}"
  proof -
    have "files_at fs S (r @ [e]) \<inter> files_at fs S (r @ [d]) = {}" if "d \<in> set nams" for d
      using files_at_disjoint [OF assms(1)] Cons.prems(2) that by (metis distinct.simps(2))
    then show ?thesis unfolding L(3) L'(3) by blast
  qed
  then show ?case using L L' j by (auto simp: finds_def intro!: exI [of _ "L @ L'"])
qed

lemma walk_files_finds:
  assumes "wf_fs fs" and "permissive env" and "S \<noteq> []"
    and "map_of fs (S @ r) \<noteq> None" and "r = [] \<longrightarrow> dir_at fs S" and "\<forall>q. map_of fs (S @ r @ q) \<noteq> None \<longrightarrow> length q < n"
  shows "finds files (files_at fs S r) (walk_files n env fs (abs_path S) (abs_path (S @ r)) files)"
  using assms(4-6)
proof (induction n arbitrary: r files)
  case 0
  from 0(3) 0(1) show ?case by (metis append_Nil2 not_less_zero)
next
  case (Suc n)
  obtain node where node: "map_of fs (S @ r) = Some node" using Suc.prems(1) by auto
  have nm: "list_all is_name (S @ r)" and pd: "parent_dirs fs (S @ r)" using wf_fsD [OF assms(1) Suc.prems(1)] by auto
  have st: "Stat env fs (abs_path (S @ r)) = Inr node"
    using node pd assms(2) by (simp only: Stat_abs_path [OF nm]) (simp add: permissive_def)
  show ?case
  proof (cases node)
    case (File m c)
    then have r: "r \<noteq> []" using Suc.prems(2) node by (auto simp: dir_at_map)
    have "content fs (S @ r @ q) = None" if "q \<noteq> []" for q
      using wf_below_file [OF assms(1) node [unfolded File] that] by (simp add: content_def)
    moreover have "content fs (S @ r) = Some c" using node File by (simp add: content_def)
    ultimately have "content fs (S @ r @ q) \<noteq> None \<longleftrightarrow> q = []" for q by (cases "q = []") simp_all
    then have "{q. content fs (S @ r @ q) \<noteq> None} = {[]}" by simp
    then have "files_at fs S r = {join_path r}" by (simp add: files_at_def)
    then show ?thesis using st File rel_file_below [OF assms(3) r] by (simp add: finds_def IsDir_def)
  next
    case (Dir m)
    have res: "resolve env fs (abs_path (S @ r)) = Inr (S @ r)" using pd by (simp add: resolve_abs_path [OF nm])
    have rd: "Readdirnames env fs (abs_path (S @ r)) = Inr (S @ r, dir_names fs (S @ r))"
      using node Dir assms(2) by (simp add: Readdirnames_def res permissive_def)
    have ent: "map_of fs (S @ r @ [e]) \<noteq> None" if "e \<in> set (dir_names fs (S @ r))" for e
      using that by (simp add: set_dir_names)
    have names: "list_all is_name (dir_names fs (S @ r))"
      using wf_fsD(1) [OF assms(1) ent] by (auto simp: list_all_iff)
    have "finds files' (files_at fs S (r @ [e])) (walk_files n env fs (abs_path S) (abs_path (S @ r @ [e])) files')"
      if e: "e \<in> set (dir_names fs (S @ r))" for e files'
    proof (rule Suc.IH)
      show "map_of fs (S @ r @ [e]) \<noteq> None" by (rule ent [OF e])
      show "\<forall>q. map_of fs (S @ (r @ [e]) @ q) \<noteq> None \<longrightarrow> length q < n"
        using Suc.prems(3) by (metis Suc_less_eq append.assoc append_Cons append_Nil length_Cons)
    qed simp
    from walk_entries_finds [OF assms(1) nm names distinct_dir_names this]
    have "finds files (\<Union>e\<in>set (dir_names fs (S @ r)). files_at fs S (r @ [e])) (walk_files (Suc n) env fs (abs_path S) (abs_path (S @ r)) files)"
      using st Dir rd by (simp add: IsDir_def)
    moreover have "(\<Union>e\<in>set (dir_names fs (S @ r)). files_at fs S (r @ [e])) = files_at fs S r"
    proof -
      have "\<exists>e q'. q = e # q' \<and> e \<in> set (dir_names fs (S @ r))" if "content fs (S @ r @ q) \<noteq> None" for q
      proof (cases q)
        case Nil
        then show ?thesis using that node Dir by (simp add: content_def)
      next
        case (Cons e q')
        have m: "map_of fs (S @ r @ q) \<noteq> None" using that by (auto simp: content_def split: option.splits)
        have "map_of fs (S @ r @ [e]) \<noteq> None"
        proof (cases "q' = []")
          case False
          have "dir_at fs (take (length (S @ r @ [e])) (S @ r @ q))"
            using wf_fsD(3) [OF assms(1) m] Cons False by (auto simp: parent_dirs_def simp del: take_append)
          then show ?thesis using Cons by (auto simp: dir_at_map)
        qed (use m Cons in simp)
        then show ?thesis using Cons by (simp add: set_dir_names)
      qed
      then show ?thesis unfolding files_at_def by (fastforce simp: image_iff)
    qed
    ultimately show ?thesis by simp
  qed
qed

section \<open>The text that is hashed\<close>

definition hash_line :: "(byte list \<Rightarrow> byte list) \<Rightarrow> fs \<Rightarrow> path \<Rightarrow> string \<Rightarrow> string" where
  "hash_line sha fs S f = EncodeToString (sha (the (content fs (S @ split_path f)))) @ ''  '' @ f @ [CHR 0x0A]"

definition dir_text :: "(byte list \<Rightarrow> byte list) \<Rightarrow> fs \<Rightarrow> path \<Rightarrow> string" where
  "dir_text sha fs S = concat (map (hash_line sha fs S) (sorted_list_of_set (files_below fs S)))"

definition str_bytes :: "string \<Rightarrow> byte list" where
  "str_bytes s = map (\<lambda>c. of_nat (char_code c)) s"

lemma files_below_content:
  assumes "wf_fs fs" and "dir_at fs S" and "f \<in> files_below fs S"
  shows "\<exists>r c. f = join_path r \<and> r \<noteq> [] \<and> list_all is_name r \<and> split_path f = r \<and> content fs (S @ r) = Some c"
proof -
  obtain r c where r: "f = join_path r" "content fs (S @ r) = Some c" using assms(3) by (auto simp: files_below_def)
  then have "r \<noteq> []" "list_all is_name r"
    using assms(2) content_names [OF assms(1), of "S @ r"] by (auto simp: dir_at_map content_def)
  then show ?thesis using r split_join [OF _ names_noslash] by blast
qed

lemma hash_lines_text:
  assumes "wf_fs fs" and "permissive env" and "dir_at fs S" and "set files \<subseteq> files_below fs S"
  shows "hash_lines sha env fs (abs_path S) files h = Inr (h @ concat (map (hash_line sha fs S) files))"
  using assms(4)
proof (induction files arbitrary: h)
  case (Cons f files)
  from Cons.prems have "f \<in> files_below fs S" by simp
  from files_below_content [OF assms(1,3) this]
  obtain r c where r: "f = join_path r" "r \<noteq> []" "list_all is_name r" "split_path f = r" "content fs (S @ r) = Some c" by blast
  have node: "\<exists>m. map_of fs (S @ r) = Some (File m c)" using r(5) by (auto simp: content_def split: option.splits inode.splits)
  then have nm: "list_all is_name (S @ r)" and pd: "parent_dirs fs (S @ r)" using wf_fsD [OF assms(1), of "S @ r"] by auto
  have "ReadFile env fs (abs_path (S @ r)) = Inr c"
    using node pd assms(2) by (simp only: ReadFile_abs_path [OF nm]) (simp add: permissive_def)
  moreover have "Join (abs_path S) f = abs_path (S @ r)" using Join_abs_names [OF _ r(3,2), of S] nm r(1) by simp
  ultimately show ?case using Cons r by (simp add: hash_line_def)
qed simp

lemma HashDir_text:
  assumes "wf_fs fs" and "permissive env" and "dir_at fs S" and "S \<noteq> []"
    and "\<forall>q. map_of fs (S @ q) \<noteq> None \<longrightarrow> length q < n"
  shows "HashDir sha n env fs (abs_path S) = Some (Return (Inr (''hashdir:'' @ base64 (sha (str_bytes (dir_text sha fs S))))))"
proof -
  have some: "map_of fs S \<noteq> None" using assms(3) by (auto simp: dir_at_map)
  have nm: "list_all is_name S" by (rule wf_fsD(1) [OF assms(1) some])
  have "finds [] (files_at fs S []) (walk_files n env fs (abs_path S) (abs_path (S @ [])) [])"
    by (rule walk_files_finds) (use assms some in auto)
  then obtain L where L: "DirFiles n env fs (abs_path S) = Some (Return (Inr L))" "distinct L" "set L = files_below fs S"
    using nm by (auto simp: finds_def DirFiles_def files_at_def files_below_def)
  have "sort L = sorted_list_of_set (files_below fs S)" using L by (simp add: sorted_list_of_set.distinct_sorted_key_list_of_set L(3) [symmetric] sorted_list_of_set_sort_remdups distinct_remdups_id)
  moreover have "set (sorted_list_of_set (files_below fs S)) \<subseteq> files_below fs S" unfolding L(3) [symmetric] by simp
  ultimately show ?thesis
    using hash_lines_text [OF assms(1-3)] by (simp add: HashDir_def L(1) dir_text_def str_bytes_def)
qed

lemma dir_text_cong:
  assumes "\<forall>r. content fs (S @ r) = content fs (D @ r)"
  shows "dir_text sha fs S = dir_text sha fs D"
proof -
  have "hash_line sha fs S = hash_line sha fs D" by (rule ext) (simp add: hash_line_def assms)
  then show ?thesis by (simp add: dir_text_def files_below_def assms)
qed

section \<open>Telling directories apart\<close>

lemma hex_code: "d < 16 \<Longrightarrow> char_code (hex_digit d) = (if d < 10 then 48 + d else 87 + d)"
  by (simp add: char_code_def hex_digit_def)

lemma hex_char_inj: "a < 16 \<Longrightarrow> b < 16 \<Longrightarrow> hex_digit a = hex_digit b \<Longrightarrow> a = b"
proof -
  assume "a < 16" "b < 16" "hex_digit a = hex_digit b"
  then have "(if a < 10 then 48 + a else 87 + a) = (if b < 10 then 48 + b else 87 + b)" by (metis hex_code)
  then show "a = b" by (simp split: if_splits)
qed

lemma byte_nibbles: "unat (x :: byte) div 16 < 16"
  using byte_less [of x] by simp

lemma EncodeToString_inj: "EncodeToString a = EncodeToString b \<Longrightarrow> a = b"
proof (induction a arbitrary: b)
  case Nil
  then show ?case by (cases b) (simp_all add: EncodeToString_def)
next
  case (Cons x a)
  then obtain y b' where b: "b = y # b'" by (cases b) (auto simp: EncodeToString_def)
  with Cons.prems have h: "hex_digit (unat x div 16) = hex_digit (unat y div 16)" "hex_digit (unat x mod 16) = hex_digit (unat y mod 16)"
    "EncodeToString a = EncodeToString b'" by (simp_all add: EncodeToString_def)
  have "unat x div 16 = unat y div 16" "unat x mod 16 = unat y mod 16"
    using hex_char_inj [OF byte_nibbles byte_nibbles h(1)] hex_char_inj [OF _ _ h(2)] by simp_all
  then have "unat x = unat y" by (metis div_mult_mod_eq)
  then show ?case using Cons.IH [OF h(3)] b by (simp add: unsigned_word_eqI)
qed

lemma EncodeToString_chars: "c \<in> set (EncodeToString b) \<Longrightarrow> 48 \<le> char_code c"
proof -
  have "48 \<le> char_code (hex_digit d)" if "d < 16" for d using that by (simp add: hex_code)
  then show "c \<in> set (EncodeToString b) \<Longrightarrow> 48 \<le> char_code c" using byte_nibbles by (auto simp: EncodeToString_def)
qed

lemma str_bytes_inj: "str_bytes a = str_bytes b \<Longrightarrow> a = b"
proof -
  have "inj (\<lambda>c. of_nat (char_code c) :: byte)"
  proof (rule injI)
    fix c d assume a: "(of_nat (char_code c) :: byte) = of_nat (char_code d)"
    have "char_code x < 256" for x by (simp add: char_code_def nat_of_char_less_256)
    then have "unat (of_nat (char_code x) :: byte) = char_code x" for x by (simp add: unsigned_of_nat take_bit_nat_eq_self)
    then have "char_code c = char_code d" using a by metis
    then show "c = d" by (simp add: char_code_def)
  qed
  then show "str_bytes a = str_bytes b \<Longrightarrow> a = b" unfolding str_bytes_def by (rule map_injective [rotated])
qed

definition b64_alphabet :: string where
  "b64_alphabet = ''ABCDEFGHIJKLMNOPQRSTUVWXYZabcdefghijklmnopqrstuvwxyz0123456789+/''"

lemma b64_char_inj: "a < 64 \<Longrightarrow> b < 64 \<Longrightarrow> b64_char a = b64_char b \<Longrightarrow> a = b"
proof -
  have "distinct b64_alphabet" "length b64_alphabet = 64" by (simp_all add: b64_alphabet_def)
  then show "a < 64 \<Longrightarrow> b < 64 \<Longrightarrow> b64_char a = b64_char b \<Longrightarrow> a = b"
    unfolding b64_char_def b64_alphabet_def [symmetric] by (simp add: nth_eq_iff_index_eq)
qed

lemma b64_char_pad: "a < 64 \<Longrightarrow> b64_char a \<noteq> CHR ''=''"
proof -
  have "CHR ''='' \<notin> set b64_alphabet" "length b64_alphabet = 64" by (simp_all add: b64_alphabet_def)
  then show "a < 64 \<Longrightarrow> b64_char a \<noteq> CHR ''=''"
    unfolding b64_char_def b64_alphabet_def [symmetric] by (metis nth_mem)
qed

lemma digits_eq: "(a :: nat) * k + b = c * k + d \<Longrightarrow> b < k \<Longrightarrow> d < k \<Longrightarrow> a = c \<and> b = d"
  by (metis add.right_neutral div_less div_mult_self3 mod_less mod_mult_self3 not_less_zero)

lemma byte_parts:
  "unat (x :: byte) div 4 < 64" "unat x div 64 < 4" "unat x div 16 < 16"
  "unat x mod 4 * 16 < 64" "unat x mod 16 * 4 < 64" "unat x mod 64 < 64"
proof -
  have b: "unat x mod 4 \<le> 3" "unat x mod 16 \<le> 15" by auto
  show "unat x div 4 < 64" "unat x div 64 < 4" "unat x div 16 < 16" "unat x mod 64 < 64" using byte_less [of x] by simp_all
  show "unat x mod 4 * 16 < 64" "unat x mod 16 * 4 < 64" using b by linarith+
qed

lemma byte_pairs:
  "unat (x :: byte) mod 4 * 16 + unat (y :: byte) div 16 < 64" "unat x mod 16 * 4 + unat y div 64 < 64"
proof -
  have b: "unat y div 16 < 16" "unat y div 64 < 4" "unat x mod 4 \<le> 3" "unat x mod 16 \<le> 15"
    using byte_less [of x] byte_less [of y] by auto
  show "unat x mod 4 * 16 + unat y div 16 < 64" "unat x mod 16 * 4 + unat y div 64 < 64" using b by linarith+
qed

lemmas byte_digits = byte_parts byte_pairs

lemma byte_eqI: "unat (x :: byte) div k = unat y div k \<Longrightarrow> unat x mod k = unat y mod k \<Longrightarrow> x = y"
  by (metis div_mult_mod_eq unsigned_word_eqI)

lemma base64_inj: "base64 a = base64 b \<Longrightarrow> a = b"
proof (induction a arbitrary: b rule: base64.induct)
  case 1
  then show ?case by (cases b rule: base64.cases) simp_all
next
  case (2 x)
  then show ?case
  proof (cases b rule: base64.cases)
    case (2 x')
    have "unat x div 4 = unat x' div 4" "unat x mod 4 * 16 = unat x' mod 4 * 16"
      using "2.prems" 2 by (auto dest!: b64_char_inj [rotated 2] simp: byte_digits)
    then show ?thesis using 2 by (simp add: byte_eqI [of _ 4])
  qed (use b64_char_pad byte_digits in \<open>auto dest: sym\<close>)
next
  case (3 x y)
  then show ?case
  proof (cases b rule: base64.cases)
    case (3 x' y')
    have e: "unat x div 4 = unat x' div 4" "unat x mod 4 * 16 + unat y div 16 = unat x' mod 4 * 16 + unat y' div 16"
      "unat y mod 16 * 4 = unat y' mod 16 * 4"
      using "3.prems" 3 by (auto dest!: b64_char_inj [rotated 2] simp: byte_digits)
    note d = digits_eq [OF e(2) byte_parts(3) byte_parts(3)]
    have "x = x'" by (rule byte_eqI [OF e(1) conjunct1 [OF d]])
    moreover have "y = y'" by (rule byte_eqI [OF conjunct2 [OF d]]) (use e(3) in simp)
    ultimately show ?thesis using 3 by simp
  qed (use b64_char_pad byte_digits in \<open>auto dest: sym\<close>)
next
  case (4 x y z rest)
  then show ?case
  proof (cases b rule: base64.cases)
    case (4 x' y' z' rest')
    have e: "unat x div 4 = unat x' div 4" "unat x mod 4 * 16 + unat y div 16 = unat x' mod 4 * 16 + unat y' div 16"
      "unat y mod 16 * 4 + unat z div 64 = unat y' mod 16 * 4 + unat z' div 64" "unat z mod 64 = unat z' mod 64"
    proof -
      have c: "b64_char (unat x div 4) = b64_char (unat x' div 4)"
        "b64_char (unat x mod 4 * 16 + unat y div 16) = b64_char (unat x' mod 4 * 16 + unat y' div 16)"
        "b64_char (unat y mod 16 * 4 + unat z div 64) = b64_char (unat y' mod 16 * 4 + unat z' div 64)"
        "b64_char (unat z mod 64) = b64_char (unat z' mod 64)"
        using "4.prems" 4 by simp_all
      show "unat x div 4 = unat x' div 4" by (rule b64_char_inj [OF byte_parts(1) byte_parts(1) c(1)])
      show "unat x mod 4 * 16 + unat y div 16 = unat x' mod 4 * 16 + unat y' div 16"
        by (rule b64_char_inj [OF byte_pairs(1) byte_pairs(1) c(2)])
      show "unat y mod 16 * 4 + unat z div 64 = unat y' mod 16 * 4 + unat z' div 64"
        by (rule b64_char_inj [OF byte_pairs(2) byte_pairs(2) c(3)])
      show "unat z mod 64 = unat z' mod 64" by (rule b64_char_inj [OF byte_parts(6) byte_parts(6) c(4)])
    qed
    note d = digits_eq [OF e(2) byte_parts(3) byte_parts(3)] digits_eq [OF e(3) byte_parts(2) byte_parts(2)]
    have "x = x'" by (rule byte_eqI [OF e(1) conjunct1 [OF d(1)]])
    moreover have "y = y'" by (rule byte_eqI [OF conjunct2 [OF d(1)] conjunct1 [OF d(2)]])
    moreover have "z = z'" by (rule byte_eqI [OF conjunct2 [OF d(2)] e(4)])
    moreover have "rest = rest'" using "4.IH" "4.prems" 4 by simp
    ultimately show ?thesis using 4 by simp
  qed (use b64_char_pad byte_digits in \<open>auto dest: sym\<close>)
qed

lemma lines_inj:
  assumes "concat (map (\<lambda>l. l @ [c]) xs) = concat (map (\<lambda>l. l @ [c]) ys)"
    and "\<forall>l\<in>set xs. c \<notin> set l" and "\<forall>l\<in>set ys. c \<notin> set l"
  shows "xs = ys"
  using assms
proof (induction xs arbitrary: ys)
  case Nil
  then show ?case by (cases ys) auto
next
  case (Cons x xs)
  then obtain y ys' where ys: "ys = y # ys'" by (cases ys) auto
  have "x = y \<and> concat (map (\<lambda>l. l @ [c]) xs) = concat (map (\<lambda>l. l @ [c]) ys')"
    by (rule split_first) (use Cons.prems ys in auto)
  then show ?case using Cons ys by auto
qed

definition no_newline :: "fs \<Rightarrow> bool" where
  "no_newline fs \<longleftrightarrow> list_all (\<lambda>k. list_all (\<lambda>e. CHR 0x0A \<notin> set e) k) (map fst fs)"

text \<open>A line without its end.\<close>

definition line_body :: "(byte list \<Rightarrow> byte list) \<Rightarrow> fs \<Rightarrow> path \<Rightarrow> string \<Rightarrow> string" where
  "line_body sha fs S f = EncodeToString (sha (the (content fs (S @ split_path f)))) @ CHR '' '' # CHR '' '' # f"

lemma dir_text_lines:
  "dir_text sha fs S = concat (map (\<lambda>l. l @ [CHR 0x0A]) (map (line_body sha fs S) (sorted_list_of_set (files_below fs S))))"
proof -
  have "hash_line sha fs S = (\<lambda>f. line_body sha fs S f @ [CHR 0x0A])" by (rule ext) (simp add: hash_line_def line_body_def)
  then show ?thesis by (simp add: dir_text_def comp_def)
qed

lemma newline_code: "char_code (CHR 0x0A) = 10" "char_code (CHR '' '') = 32"
  by (simp_all add: char_code_def)

lemma join_no_newline: "list_all (\<lambda>e. CHR 0x0A \<notin> set e) r \<Longrightarrow> CHR 0x0A \<notin> set (join_path r)"
  by (induction r rule: join_path.induct) (auto simp: slash_def)

lemma line_body_no_newline:
  assumes "no_newline fs" and "f \<in> files_below fs S"
  shows "CHR 0x0A \<notin> set (line_body sha fs S f)"
proof -
  obtain r where r: "f = join_path r" "content fs (S @ r) \<noteq> None" using assms(2) by (auto simp: files_below_def)
  then obtain n where "(S @ r, n) \<in> set fs" by (auto simp: content_def split: option.splits dest: map_of_SomeD)
  then have "list_all (\<lambda>e. CHR 0x0A \<notin> set e) r" using assms(1) by (force simp: no_newline_def list_all_iff)
  then show ?thesis using r(1) join_no_newline EncodeToString_chars newline_code by (fastforce simp: line_body_def)
qed

lemma line_body_inj:
  assumes "line_body sha fs S f = line_body sha fs D g"
  shows "f = g \<and> sha (the (content fs (S @ split_path f))) = sha (the (content fs (D @ split_path g)))"
proof -
  have sp: "CHR '' '' \<notin> set (EncodeToString b)" for b using EncodeToString_chars newline_code by fastforce
  show ?thesis
    using split_first [OF assms [unfolded line_body_def] sp sp] EncodeToString_inj by blast
qed

lemma finite_files_below: "finite (files_below fs S)"
proof -
  have "{r. content fs (S @ r) \<noteq> None} \<subseteq> (\<lambda>k. drop (length S) k) ` fst ` set fs"
    by (force simp: content_def image_iff split: option.splits dest: map_of_SomeD)
  then show ?thesis unfolding files_below_def by (meson finite_imageI finite_set finite_subset)
qed

lemma same_lines:
  assumes "wf_fs fs" and "dir_at fs S" and "dir_at fs D"
    and "map (line_body sha fs S) (sorted_list_of_set (files_below fs S)) = map (line_body sha fs D) (sorted_list_of_set (files_below fs D))"
    and "inj_on sha {c. \<exists>p. content fs p = Some c}"
  shows "content fs (S @ r) = content fs (D @ r)"
proof -
  let ?A = "sorted_list_of_set (files_below fs S)" and ?B = "sorted_list_of_set (files_below fs D)"
  have len: "length ?A = length ?B" using assms(4) by (metis length_map)
  have body: "line_body sha fs S (?A ! k) = line_body sha fs D (?B ! k)" if "k < length ?A" for k
    using arg_cong [OF assms(4), of "\<lambda>l. l ! k"] that len by simp
  then have AB: "?A = ?B" using len line_body_inj by (metis nth_equalityI)
  then have same: "files_below fs S = files_below fs D"
    using finite_files_below by (metis set_sorted_list_of_set)
  have eq: "content fs (S @ q) = content fs (D @ q)" if q: "content fs (S @ q) \<noteq> None" for q
  proof -
    have "join_path q \<in> files_below fs S" using q by (auto simp: files_below_def)
    then have f: "join_path q \<in> set ?A" "join_path q \<in> files_below fs D"
      using finite_files_below same by auto
    have sp: "split_path (join_path q) = q"
      using files_below_content [OF assms(1,2) \<open>join_path q \<in> files_below fs S\<close>]
        content_names [OF assms(1) q] join_path_inj by (auto simp: list_all_iff)
    obtain k where "k < length ?A" "?A ! k = join_path q" using f(1) by (metis in_set_conv_nth)
    then have h: "sha (the (content fs (S @ q))) = sha (the (content fs (D @ q)))"
      using line_body_inj [OF body [of k]] AB sp by simp
    obtain d where "content fs (D @ q) = Some d" using files_below_content [OF assms(1,3) f(2)] sp by auto
    moreover obtain c where "content fs (S @ q) = Some c" using q by auto
    ultimately show ?thesis using h inj_onD [OF assms(5), of c d] by auto
  qed
  have "content fs (S @ q) \<noteq> None \<longleftrightarrow> content fs (D @ q) \<noteq> None" for q
  proof
    assume "content fs (D @ q) \<noteq> None"
    then have "join_path q \<in> files_below fs S" unfolding same by (auto simp: files_below_def)
    then obtain q' c where "join_path q = join_path q'" "list_all is_name q'" "content fs (S @ q') = Some c"
      using files_below_content [OF assms(1,2)] by blast
    then show "content fs (S @ q) \<noteq> None"
      using content_names [OF assms(1) \<open>content fs (D @ q) \<noteq> None\<close>] join_path_inj [of q q'] by simp
  qed (use eq in auto)
  then show ?thesis using eq by (metis option.exhaust)
qed

text \<open>
  C21. Two directories count as equal exactly when they have the same files with the same contents
  (empty directories do not count): for a walk deep enough, with permission to read, names without
  line ends, and a hash function without a collision among the contents of the files and the two texts.
\<close>

theorem DirsEqual_iff:
  assumes "wf_fs fs" and "permissive env" and "dir_at fs S" and "dir_at fs D" and "S \<noteq> []" and "D \<noteq> []"
    and "\<forall>q. map_of fs (S @ q) \<noteq> None \<longrightarrow> length q < n" and "\<forall>q. map_of fs (D @ q) \<noteq> None \<longrightarrow> length q < n"
    and "no_newline fs" and "inj_on sha256 {c. \<exists>p. content fs p = Some c}"
    and "inj_on sha256 {str_bytes (dir_text sha256 fs S), str_bytes (dir_text sha256 fs D)}"
  shows "DirsEqual sha256 n env fs (abs_path S) (abs_path D)
    = Some (Return (\<forall>r. content fs (S @ r) = content fs (D @ r)))"
proof -
  let ?tS = "dir_text sha256 fs S" and ?tD = "dir_text sha256 fs D"
  note hS = HashDir_text [OF assms(1,2,3,5,7), of sha256] and hD = HashDir_text [OF assms(1,2,4,6,8), of sha256]
  have "?tS = ?tD" if "base64 (sha256 (str_bytes ?tS)) = base64 (sha256 (str_bytes ?tD))"
    using inj_onD [OF assms(11) base64_inj [OF that]] str_bytes_inj by blast
  moreover have "\<forall>r. content fs (S @ r) = content fs (D @ r)" if "?tS = ?tD"
  proof -
    have "map (line_body sha256 fs S) (sorted_list_of_set (files_below fs S))
        = map (line_body sha256 fs D) (sorted_list_of_set (files_below fs D))"
      by (rule lines_inj [OF that [unfolded dir_text_lines]])
        (use line_body_no_newline [OF assms(9)] finite_files_below in auto)
    then show ?thesis using same_lines [OF assms(1,3,4) _ assms(10)] by blast
  qed
  ultimately have "(base64 (sha256 (str_bytes ?tS)) = base64 (sha256 (str_bytes ?tD)))
      \<longleftrightarrow> (\<forall>r. content fs (S @ r) = content fs (D @ r))"
    using dir_text_cong [of fs S D sha256] by metis
  then show ?thesis by (simp add: DirsEqual_def hS hD)
qed

definition demo_pair :: fs where
  "demo_pair = [([], Dir 0x1ED), ([''s''], Dir 0x1ED), ([''s'', ''f''], File 0x1A4 [1, 2]),
     ([''t''], Dir 0x1ED), ([''t'', ''f''], File 0x180 [1, 3])]"

theorem DirsEqual_iff_witness:
  "DirsEqual (\<lambda>x. x) 3 (demo_proc ''/'') demo_pair (abs_path [''s'']) (abs_path [''t'']) = Some (Return False)"
proof -
  have 1: "wf_fs demo_pair"
    by (rule keys_wf)
      (simp_all add: demo_pair_def is_name_def slash_def no_dollar_def parent_dirs_def dir_at_def All_less_Suc)
  have 2: "permissive (demo_proc ''/'')" by (simp add: permissive_def demo_proc_def)
  have 3: "dir_at demo_pair [''s'']" "dir_at demo_pair [''t'']" by (simp_all add: dir_at_def demo_pair_def)
  have 4: "\<forall>q. map_of demo_pair (S @ q) \<noteq> None \<longrightarrow> length q < 3" for S by (rule keys_depth) (simp add: demo_pair_def)
  have 5: "no_newline demo_pair" by (simp add: no_newline_def demo_pair_def)
  have "content demo_pair ([''s''] @ [''f'']) \<noteq> content demo_pair ([''t''] @ [''f''])" by (simp add: content_def demo_pair_def)
  then have "\<not> (\<forall>r. content demo_pair ([''s''] @ r) = content demo_pair ([''t''] @ r))" by blast
  with DirsEqual_iff [OF 1 2 3 _ _ 4 4 5, of "\<lambda>x. x"] show ?thesis by (simp add: inj_on_def)
qed

text \<open>
  C37. A copy is equal to its source: after \<open>CopyDir\<close> as in its own property, \<open>DirsEqual\<close> returns true on
  the two directories, whatever the hash function is.
\<close>

theorem CopyDir_then_DirsEqual:
  assumes "wf_fs fs" and "dir_at fs S" and "S \<noteq> []" and "list_all is_name D" and "no_dollar D" and "parent_dirs fs D"
    and "\<forall>r. map_of fs (D @ r) = None" and "\<not> prefix S D" and "\<not> prefix D S" and "permissive env"
    and "\<forall>r. map_of fs (S @ r) \<noteq> None \<longrightarrow> length r < n"
  shows "\<exists>fs'. CopyDir n env (abs_path S) (abs_path D) fs = Some (None, fs')
    \<and> DirsEqual sha256 n env fs' (abs_path S) (abs_path D) = Some (Return True)"
proof -
  have src: "source_ok fs S D" using assms by (simp add: source_ok_def)
  from CopyDir_copied [OF src assms(10,11)] obtain fs' where
    fs': "CopyDir n env (abs_path S) (abs_path D) fs = Some (None, fs')" and c: "copied env fs S D UNIV fs'" by blast
  have wf: "wf_fs fs'" by (rule copied_wf [OF src c])
  have S: "map_of fs' (S @ r) = map_of fs (S @ r)" for r by (rule copied_source [OF src c])
  have D: "map_of fs' (D @ r) = map_option (copy_node env) (map_of fs (S @ r))" for r
    using c assms(2) by (cases r) (auto simp: copied_def dir_at_map copy_node_def)
  have dS: "dir_at fs' S" using S [of "[]"] assms(2) by (simp add: dir_at_map)
  have dD: "dir_at fs' D" using c by (simp add: copied_def dir_at_map)
  have "content fs' (S @ r) = content fs' (D @ r)" for r
    by (simp add: content_def S D copy_node_def split: option.split inode.split)
  then have "dir_text sha256 fs' S = dir_text sha256 fs' D" by (intro dir_text_cong) simp
  moreover have "D \<noteq> []" using assms(9) by auto
  moreover have "\<forall>q. map_of fs' (S @ q) \<noteq> None \<longrightarrow> length q < n" "\<forall>q. map_of fs' (D @ q) \<noteq> None \<longrightarrow> length q < n"
    using assms(11) by (simp_all add: S D)
  ultimately show ?thesis
    using HashDir_text [OF wf assms(10) dS assms(3)] HashDir_text [OF wf assms(10) dD] fs' by (simp add: DirsEqual_def)
qed

theorem CopyDir_then_DirsEqual_witness:
  "\<exists>fs'. CopyDir 4 (demo_proc ''/'') (abs_path [''s'']) (abs_path [''t'']) demo_tree = Some (None, fs')
     \<and> DirsEqual (\<lambda>x. x) 4 (demo_proc ''/'') fs' (abs_path [''s'']) (abs_path [''t'']) = Some (Return True)"
proof -
  have 1: "wf_fs demo_tree"
    by (rule keys_wf)
      (simp_all add: demo_tree_def is_name_def slash_def no_dollar_def parent_dirs_def dir_at_def All_less_Suc)
  have 2: "dir_at demo_tree [''s'']" "[''s''] \<noteq> []" by (simp_all add: dir_at_def demo_tree_def)
  have 3: "list_all is_name [''t'']" "no_dollar [''t'']" by (simp_all add: is_name_def slash_def no_dollar_def)
  have 4: "parent_dirs demo_tree [''t'']" by (simp add: parent_dirs_def dir_at_def demo_tree_def)
  have 5: "\<forall>r. map_of demo_tree ([''t''] @ r) = None" by (rule keys_None) (simp add: demo_tree_def)
  have 6: "\<not> prefix [''s''] [''t'']" "\<not> prefix [''t''] [''s'']" by simp_all
  have 7: "permissive (demo_proc ''/'')" by (simp add: permissive_def demo_proc_def)
  have 8: "\<forall>r. map_of demo_tree ([''s''] @ r) \<noteq> None \<longrightarrow> length r < 4" by (rule keys_depth) (simp add: demo_tree_def)
  from CopyDir_then_DirsEqual [OF 1 2 3 4 5 6 7 8, of "\<lambda>x. x"] show ?thesis .
qed

section \<open>Where it goes wrong\<close>

text \<open>A walk that starts at a plain file.\<close>

lemma DirFiles_plain_file:
  assumes "list_all is_name p" and "Stat env fs (abs_path p) = Inr (File m c)"
  shows "DirFiles (Suc n) env fs (abs_path p) = Some (Panic SliceOutOfRange)"
proof -
  have "rel_file (abs_path p) (abs_path p) = Panic SliceOutOfRange" by (simp add: rel_file_def abs_path_def slash_def)
  then show ?thesis using assms by (simp add: DirFiles_def IsDir_def)
qed

text \<open>
  \<open>DirsEqual\<close> panics instead of returning false when its first argument is a plain file: the name
  relative to the directory is then sliced out of range.
\<close>

lemma DirsEqual_plain_file_panics:
  assumes "list_all is_name p" and "Stat env fs (abs_path p) = Inr (File m c)"
  shows "DirsEqual sha256 (Suc n) env fs (abs_path p) dst = Some (Panic SliceOutOfRange)"
  using DirFiles_plain_file [OF assms] by (simp add: DirsEqual_def HashDir_def)

text \<open>
  Two files in one directory, and in the other a single file whose name contains a line end followed
  by what would be the second line.
\<close>

definition forged_name :: "(byte list \<Rightarrow> byte list) \<Rightarrow> string" where
  "forged_name sha = ''a'' @ CHR 0x0A # EncodeToString (sha [2]) @ ''  b''"

definition forged_fs :: "(byte list \<Rightarrow> byte list) \<Rightarrow> fs" where
  "forged_fs sha = [([], Dir 0x1ED), ([''s''], Dir 0x1ED), ([''s'', ''a''], File 0x180 [1]), ([''s'', ''b''], File 0x180 [2]),
     ([''t''], Dir 0x1ED), ([''t'', forged_name sha], File 0x180 [1])]"

lemma forged_name_ok: "is_name (forged_name sha)" "CHR ''$'' \<notin> set (forged_name sha)"
proof -
  have "char_code (CHR ''/'') = 47" "char_code (CHR ''$'') = 36" by (simp_all add: char_code_def)
  then have "CHR ''/'' \<notin> set (EncodeToString b)" "CHR ''$'' \<notin> set (EncodeToString b)" for b
    using EncodeToString_chars by fastforce+
  then show "is_name (forged_name sha)" "CHR ''$'' \<notin> set (forged_name sha)"
    by (auto simp: is_name_def forged_name_def slash_def)
qed

lemma forged_fs_wf: "wf_fs (forged_fs sha)"
  by (rule keys_wf)
    (use forged_name_ok [of sha] in \<open>simp_all add: forged_fs_def is_name_def slash_def no_dollar_def parent_dirs_def dir_at_def All_less_Suc\<close>)

text \<open>The files of a directory whose entries are plain files.\<close>

lemma files_below_flat:
  assumes "\<And>r. content fs (S @ r) \<noteq> None \<longleftrightarrow> r \<in> (\<lambda>e. [e]) ` E"
  shows "files_below fs S = E"
proof -
  have "{r. content fs (S @ r) \<noteq> None} = (\<lambda>e. [e]) ` E" using assms by blast
  then show ?thesis by (simp add: files_below_def image_image)
qed

lemma forged_content:
  "content (forged_fs sha) (''s'' # r) = (if r = [''a''] then Some [1] else if r = [''b''] then Some [2] else None)"
  "content (forged_fs sha) (''t'' # r) = (if r = [forged_name sha] then Some [1] else None)"
  by (auto simp: content_def forged_fs_def)

text \<open>
  File names with line ends defeat the comparison: for every hash function there are two
  directories with different files for which \<open>DirsEqual\<close> returns true.
\<close>

theorem DirsEqual_forged:
  "\<exists>fs. DirsEqual sha256 2 (demo_proc ''/'') fs (abs_path [''s'']) (abs_path [''t'']) = Some (Return True)
     \<and> content fs [''s'', ''b''] \<noteq> None \<and> content fs [''t'', ''b''] = None"
proof -
  let ?fs = "forged_fs sha256"
  have ab: "files_below ?fs [''s''] = {''a'', ''b''}" by (rule files_below_flat) (auto simp: forged_content)
  have t: "files_below ?fs [''t''] = {forged_name sha256}" by (rule files_below_flat) (auto simp: forged_content)
  have noslash: "slash \<notin> set (forged_name sha256)" using forged_name_ok [of sha256] by (simp add: is_name_def)
  have c: "content ?fs [''s'', ''a''] = Some [1]" "content ?fs [''s'', ''b''] = Some [2]"
    "content ?fs [''t'', forged_name sha256] = Some [1]" "content ?fs [''t'', ''b''] = None"
    using forged_content [of sha256 "[''a'']"] forged_content [of sha256 "[''b'']"] forged_content(2) [of sha256 "[forged_name sha256]"]
    by (simp_all add: forged_name_def)
  have "''a'' \<le> ''b''" by (simp add: less_eq_char_def)
  then have s: "sorted_list_of_set {''a'', ''b''} = [''a'', ''b'']"
    by (simp add: sorted_list_of_set_insert_remove)
  have "dir_text sha256 ?fs [''s''] = dir_text sha256 ?fs [''t'']"
    using c noslash by (simp add: dir_text_def ab t s hash_line_def split_path_name slash_def forged_name_def)
  moreover have "permissive (demo_proc ''/'')" by (simp add: permissive_def demo_proc_def)
  moreover have "dir_at ?fs [''s'']" "dir_at ?fs [''t'']" by (simp_all add: dir_at_def forged_fs_def)
  moreover have "\<forall>q. map_of ?fs ([x] @ q) \<noteq> None \<longrightarrow> length q < 2" for x by (auto simp: forged_fs_def)
  ultimately have "DirsEqual sha256 2 (demo_proc ''/'') ?fs (abs_path [''s'']) (abs_path [''t'']) = Some (Return True)"
    using HashDir_text [OF forged_fs_wf] by (simp add: DirsEqual_def)
  then show ?thesis using c by auto
qed

end
