(* ===== verification/Wallet.thy ===== *)
theory Wallet
  imports Fileutil_Copy Json "HOL-Library.Multiset"
begin

text \<open>
  Wallets on disk (\<open>wallet/wallet.go\<close>, \<open>wallet/error.go\<close>): the kinds of key managers, opening a wallet
  and reading its files, over the file system of \<open>Fileutil\<close>. The order in which a directory lists its
  names is up to the operating system: it is the argument \<open>order\<close>.
\<close>

section \<open>Kinds\<close>

definition Imported :: int where "Imported = 0"
definition Derived :: int where "Derived = 1"
definition Remote :: int where "Remote = 2"

datatype wallet_error =
    FileErr file_error
  | OpenErr string os_error
  | WPlain string
  | WWrapped string wallet_error
  | ErrNoWalletFound

definition ParseKind :: "string \<Rightarrow> wallet_error + int" where
  "ParseKind k =
     (if k = ''derived'' then Inr Derived
      else if k = ''direct'' then Inr Imported
      else if k = ''remote'' then Inr Remote
      else Inl (WPlain (k @ '' is not an allowed keymanager'')))"

definition Kind_String :: "int \<Rightarrow> string" where
  "Kind_String k =
     (if k = Derived then ''derived''
      else if k = Imported then ''direct''
      else if k = Remote then ''remote''
      else dec_int k)"

section \<open>Wallets\<close>

record Config =
  WalletDir :: string
  KeymanagerKind :: int
  WalletPassword :: string

record Wallet =
  walletDir :: string
  accountsPath :: string
  configFilePath :: string
  walletPassword :: string
  keymanagerKind :: int

definition NewWallet :: "Config \<Rightarrow> Wallet" where
  "NewWallet cfg =
     \<lparr>walletDir = WalletDir cfg, accountsPath = Join (WalletDir cfg) (Kind_String (KeymanagerKind cfg)),
      configFilePath = [], walletPassword = WalletPassword cfg, keymanagerKind = KeymanagerKind cfg\<rparr>"

text \<open>What \<open>os.Open\<close> opens, and the text of its error.\<close>

definition os_Open :: "proc_env \<Rightarrow> fs \<Rightarrow> string \<Rightarrow> os_error + (path \<times> inode)" where
  "os_Open env fs p =
     (case resolve env fs p of
        Inl e \<Rightarrow> Inl e
      | Inr q \<Rightarrow>
          (case map_of fs q of
             None \<Rightarrow> Inl ENOENT
           | Some n \<Rightarrow> if deny env OpRead q then Inl EACCES else Inr (q, n)))"

definition open_error_text :: "string \<Rightarrow> os_error \<Rightarrow> string" where
  "open_error_text p e = ''open '' @ p @ '': '' @ strerror e"

text \<open>The names in an opened directory.\<close>

definition file_names :: "(string list \<Rightarrow> string list) \<Rightarrow> fs \<Rightarrow> path \<times> inode \<Rightarrow> os_error + string list" where
  "file_names order fs f =
     (case f of (q, n) \<Rightarrow> if IsDir n then Inr (order (dir_names fs q)) else Inl ENOTDIR)"

definition is_kind :: "string \<Rightarrow> bool" where
  "is_kind nam = (case ParseKind nam of Inl _ \<Rightarrow> False | Inr _ \<Rightarrow> True)"

definition IsValid :: "(string list \<Rightarrow> string list) \<Rightarrow> proc_env \<Rightarrow> fs \<Rightarrow> string \<Rightarrow> wallet_error + bool" where
  "IsValid order env fs dir =
     (case ExpandPath env dir of
        Inl err \<Rightarrow> Inl (FileErr err)
      | Inr expanded \<Rightarrow>
          (case os_Open env fs expanded of
             Inl e \<Rightarrow>
               (let t = open_error_text expanded e in
                if Contains t ''no such file'' \<or> Contains t ''cannot find the file'' \<or> Contains t ''cannot find the path''
                then Inr False else Inl (OpenErr expanded e))
           | Inr f \<Rightarrow>
               (case file_names order fs f of
                  Inl e \<Rightarrow> Inl (OpenErr expanded e)
                | Inr names \<Rightarrow>
                    if length names = 0 then Inl ErrNoWalletFound
                    else Inr (length (filter is_kind names) = 1))))"

text \<open>\<open>errors.Is(err, ErrNoWalletFound)\<close>.\<close>

fun is_no_wallet :: "wallet_error \<Rightarrow> bool" where
  "is_no_wallet ErrNoWalletFound = True"
| "is_no_wallet (WWrapped _ err) = is_no_wallet err"
| "is_no_wallet _ = False"

definition Exists :: "(string list \<Rightarrow> string list) \<Rightarrow> proc_env \<Rightarrow> fs \<Rightarrow> string \<Rightarrow> wallet_error + bool" where
  "Exists order env fs dir =
     (case HasDir env fs dir of
        (_, Some err) \<Rightarrow> Inl (WWrapped ''could not parse wallet directory'' (FileErr err))
      | (dirExists, None) \<Rightarrow>
          (case IsValid order env fs dir of
             Inl err \<Rightarrow>
               if is_no_wallet err then Inr False else Inl (WWrapped ''could not check if dir is valid'' err)
           | Inr isValid \<Rightarrow> Inr (dirExists \<and> isValid)))"

fun first_kind :: "string list \<Rightarrow> int option" where
  "first_kind [] = None"
| "first_kind (n # ns) = (case ParseKind n of Inr k \<Rightarrow> Some k | Inl _ \<Rightarrow> first_kind ns)"

definition readKeymanagerKindFromWalletPath ::
  "(string list \<Rightarrow> string list) \<Rightarrow> proc_env \<Rightarrow> fs \<Rightarrow> string \<Rightarrow> wallet_error + int" where
  "readKeymanagerKindFromWalletPath order env fs walletPath =
     (case os_Open env fs walletPath of
        Inl e \<Rightarrow> Inl (OpenErr walletPath e)
      | Inr f \<Rightarrow>
          (case file_names order fs f of
             Inl e \<Rightarrow> Inl (WPlain (''could not read files in directory: '' @ walletPath))
           | Inr names \<Rightarrow>
               (case first_kind names of
                  Some k \<Rightarrow> Inr k
                | None \<Rightarrow> Inl (WPlain ''no keymanager folder (imported, remote, derived) found in wallet path''))))"

definition OpenWallet :: "(string list \<Rightarrow> string list) \<Rightarrow> proc_env \<Rightarrow> fs \<Rightarrow> Config \<Rightarrow> wallet_error + Wallet" where
  "OpenWallet order env fs cfg =
     (case Exists order env fs (WalletDir cfg) of
        Inl err \<Rightarrow> Inl (WWrapped ''could not check if wallet exists'' err)
      | Inr False \<Rightarrow> Inl ErrNoWalletFound
      | Inr True \<Rightarrow>
          (case IsValid order env fs (WalletDir cfg) of
             Inl err \<Rightarrow>
               if is_no_wallet err then Inl ErrNoWalletFound
               else Inl (WWrapped ''could not check if wallet is valid'' err)
           | Inr False \<Rightarrow> Inl (WPlain ''directory does not contain valid wallet'')
           | Inr True \<Rightarrow>
               (case readKeymanagerKindFromWalletPath order env fs (WalletDir cfg) of
                  Inl err \<Rightarrow> Inl (WWrapped ''could not read keymanager kind for wallet'' err)
                | Inr kind \<Rightarrow>
                    Inr \<lparr>walletDir = WalletDir cfg, accountsPath = Join (WalletDir cfg) (Kind_String kind),
                      configFilePath = [], walletPassword = WalletPassword cfg, keymanagerKind = kind\<rparr>)))"

text \<open>
  \<open>filepath.Glob\<close>: a pattern without special characters names itself if it exists; the matches of any
  other pattern are an argument.
\<close>

definition hasMeta :: "string \<Rightarrow> bool" where
  "hasMeta p \<longleftrightarrow> (\<exists>c\<in>set p. c \<in> {CHR ''*'', CHR ''?'', CHR ''['', CHR 0x5C})"

definition Glob ::
  "(fs \<Rightarrow> string \<Rightarrow> wallet_error + string list) \<Rightarrow> proc_env \<Rightarrow> fs \<Rightarrow> string \<Rightarrow> wallet_error + string list" where
  "Glob glob_meta env fs p =
     (if hasMeta p then glob_meta fs p
      else (case Stat env fs p of Inl _ \<Rightarrow> Inr [] | Inr _ \<Rightarrow> Inr [p]))"

definition read_at_path ::
  "(fs \<Rightarrow> string \<Rightarrow> wallet_error + string list) \<Rightarrow> proc_env \<Rightarrow> fs \<Rightarrow> string \<Rightarrow> string \<Rightarrow> wallet_error + byte list" where
  "read_at_path glob_meta env fs filePath fullPath =
     (case Glob glob_meta env fs fullPath of
        Inl err \<Rightarrow> Inl (WWrapped ''could not find file'' err)
      | Inr [] \<Rightarrow> Inl (WPlain (''no files found in path: '' @ fullPath))
      | Inr (match # _) \<Rightarrow>
          (case ReadFile env fs match of
             Inl e \<Rightarrow> Inl (WWrapped (''could not read path: '' @ filePath) (OpenErr match e))
           | Inr rawData \<Rightarrow> Inr rawData))"

definition ReadFileAtPath ::
  "(fs \<Rightarrow> string \<Rightarrow> wallet_error + string list) \<Rightarrow> proc_env \<Rightarrow> Wallet \<Rightarrow> string \<Rightarrow> string \<Rightarrow> fs
     \<Rightarrow> (wallet_error + byte list) \<times> fs" where
  "ReadFileAtPath glob_meta env w filePath fileName fs =
     (let accountPath = Join (accountsPath w) filePath; fullPath = Join accountPath fileName in
      case HasDir env fs accountPath of
        (_, Some err) \<Rightarrow> (Inl (FileErr err), fs)
      | (True, None) \<Rightarrow> (read_at_path glob_meta env fs filePath fullPath, fs)
      | (False, None) \<Rightarrow>
          (case MkdirAll env accountPath fs of
             (Some err, fs) \<Rightarrow> (Inl (WWrapped (''could not create path: '' @ accountPath) (FileErr err)), fs)
           | (None, fs) \<Rightarrow> (read_at_path glob_meta env fs filePath fullPath, fs)))"

section \<open>Opening a wallet\<close>

text \<open>
  The names of the three kinds and the kinds correspond: parsing the name of a kind gives it back,
  and what parses is the name of a kind; the directory of an imported key manager is \<open>direct\<close>.
\<close>

theorem ParseKind_String:
  "ParseKind s = Inr k \<longleftrightarrow> k \<in> {Imported, Derived, Remote} \<and> s = Kind_String k"
  by (auto simp: ParseKind_def Kind_String_def Imported_def Derived_def Remote_def)

lemma is_kind_iff: "is_kind n \<longleftrightarrow> n = ''direct'' \<or> n = ''derived'' \<or> n = ''remote''"
  by (auto simp: is_kind_def ParseKind_def)

lemma count_kinds:
  assumes "distinct names"
  shows "length (filter is_kind names) =
    of_bool (''direct'' \<in> set names) + of_bool (''derived'' \<in> set names) + of_bool (''remote'' \<in> set names)"
  using assms by (induction names) (auto simp: is_kind_iff)

lemma first_kind_filter:
  "first_kind names = (case filter is_kind names of [] \<Rightarrow> None | n # _ \<Rightarrow> (case ParseKind n of Inl _ \<Rightarrow> None | Inr k \<Rightarrow> Some k))"
  by (induction names) (auto simp: is_kind_def split: sum.splits)

text \<open>The kinds that a directory has an entry for.\<close>

definition kinds_in :: "fs \<Rightarrow> path \<Rightarrow> int list" where
  "kinds_in fs D = filter (\<lambda>k. map_of fs (D @ [Kind_String k]) \<noteq> None) [Imported, Derived, Remote]"

lemma kind_names: "Kind_String Imported = ''direct''" "Kind_String Derived = ''derived''" "Kind_String Remote = ''remote''"
  by (simp_all add: Kind_String_def Imported_def Derived_def Remote_def)

lemma kinds_counted:
  assumes "distinct names" and "set names = {e. map_of fs (D @ [e]) \<noteq> None}"
  shows "length (filter is_kind names) = length (kinds_in fs D)"
    and "kinds_in fs D = [k] \<Longrightarrow> first_kind names = Some k"
proof -
  show eq: "length (filter is_kind names) = length (kinds_in fs D)"
    unfolding count_kinds [OF assms(1)] kinds_in_def using assms(2) by (simp add: kind_names)
  assume k: "kinds_in fs D = [k]"
  then obtain n where n: "filter is_kind names = [n]" using eq by (auto simp: length_Suc_conv)
  have "n \<in> set (filter is_kind names)" by (simp add: n)
  then have "is_kind n" "n \<in> set names" by simp_all
  then obtain k' where k': "ParseKind n = Inr k'" by (auto simp: is_kind_def split: sum.splits)
  then have "k' \<in> {Imported, Derived, Remote}" "n = Kind_String k'"
    by (auto simp: ParseKind_def Kind_String_def Imported_def Derived_def Remote_def split: if_splits)
  then have "k' \<in> set (kinds_in fs D)" using \<open>n \<in> set names\<close> assms(2) by (auto simp: kinds_in_def)
  then show "first_kind names = Some k" using k n k' by (simp add: first_kind_filter)
qed

lemma os_Open_abs_path:
  assumes "list_all is_name D" and "parent_dirs fs D" and "permissive env"
  shows "os_Open env fs (abs_path D) = (case map_of fs D of None \<Rightarrow> Inl ENOENT | Some n \<Rightarrow> Inr (D, n))"
proof -
  have "resolve env fs (abs_path D) = Inr D" using assms(1,2) by (simp add: resolve_abs_path)
  then show ?thesis using assms(3) by (simp add: os_Open_def permissive_def split: option.split)
qed


definition demo_wallet_fs :: fs where
  "demo_wallet_fs = [([], Dir 0x1ED), ([''home''], Dir 0x1ED), ([''home'', ''u''], Dir 0x1ED), ([''home'', ''u'', ''w''], Dir 0x1C0),
     ([''home'', ''u'', ''w'', ''direct''], Dir 0x1C0), ([''home'', ''u'', ''w'', ''notes''], File 0x180 [1])]"

definition demo_config :: "string \<Rightarrow> Config" where
  "demo_config dir = \<lparr>WalletDir = dir, KeymanagerKind = Remote, WalletPassword = ''pw''\<rparr>"


text \<open>
  A wallet directory given by a path that needs expanding (a tilde, a variable) is found and valid,
  but it cannot be opened: its kind is read from the unexpanded path, and unless something exists
  there too, \<open>OpenWallet\<close> fails.
\<close>

theorem OpenWallet_needs_expanded_path:
  assumes "Exists order env fs (WalletDir cfg) = Inr True" and "os_Open env fs (WalletDir cfg) = Inl e"
  shows "OpenWallet order env fs cfg
    = Inl (WWrapped ''could not read keymanager kind for wallet'' (OpenErr (WalletDir cfg) e))"
proof -
  have "IsValid order env fs (WalletDir cfg) = Inr True"
    using assms(1) by (auto simp: Exists_def split: prod.splits option.splits sum.splits if_splits)
  then show ?thesis using assms by (simp add: OpenWallet_def readKeymanagerKindFromWalletPath_def)
qed

theorem OpenWallet_needs_expanded_path_witness:
  "Exists (\<lambda>xs. xs) (demo_proc ''/'') demo_wallet_fs ''~/w'' = Inr True
   \<and> OpenWallet (\<lambda>xs. xs) (demo_proc ''/'') demo_wallet_fs (demo_config ''~/w'')
     = Inl (WWrapped ''could not read keymanager kind for wallet'' (OpenErr ''~/w'' ENOENT))"
proof -
  have w: "WalletDir (demo_config ''~/w'') = ''~/w''" by (simp add: demo_config_def)
  have 1: "Exists (\<lambda>xs. xs) (demo_proc ''/'') demo_wallet_fs ''~/w'' = Inr True" by code_simp
  have 2: "os_Open (demo_proc ''/'') demo_wallet_fs ''~/w'' = Inl ENOENT" by code_simp
  show ?thesis
    using OpenWallet_needs_expanded_path [of "\<lambda>xs. xs" "demo_proc ''/''" demo_wallet_fs "demo_config ''~/w''" ENOENT] 1 2 w
    by simp
qed

end
