(* ===== verification/Rand.thy ===== *)
theory Rand
  imports Bytesutil
begin

text \<open>
  The random source (\<open>rand/rand.go\<close>): 64-bit values read from the operating system's generator, here a
  list of the bytes it will deliver; a read that does not get its eight bytes panics.
\<close>

definition source_Uint64 :: "byte list \<Rightarrow> (uint64 \<times> byte list) outcome" where
  "source_Uint64 reader =
     (if length reader < 8 then Panic (UserPanic ''unexpected EOF'')
      else Return (le_join (rev (take 8 reader)), drop 8 reader))"

definition sign_bit :: uint64 where "sign_bit = push_bit 63 1"

text \<open>The result is an \<open>int64\<close>, given by its value.\<close>

definition source_Int63 :: "byte list \<Rightarrow> (int \<times> byte list) outcome" where
  "source_Int63 reader =
     outcome_bind (source_Uint64 reader) (\<lambda>(val, reader). Return (sint (val AND NOT sign_bit), reader))"

text \<open>\<open>NewDeterministicGenerator\<close> draws its seed once from the source.\<close>

definition deterministic_seed :: "byte list \<Rightarrow> (int \<times> byte list) outcome" where
  "deterministic_seed reader = source_Int63 reader"

lemma bit_sign_bit: "bit sign_bit n \<longleftrightarrow> n = 63"
  unfolding sign_bit_def by (simp only: bit_push_bit_iff bit_1_iff) auto

lemma clear_top_bit: "w AND NOT sign_bit = take_bit 63 w"
  by (rule bit_eqI) (auto simp: bit_and_iff bit_not_iff bit_take_bit_iff bit_sign_bit)

lemma sint_take_bit_63: "sint (take_bit 63 (w :: uint64)) = take_bit 63 (uint w)"
proof -
  have "signed_take_bit 63 (take_bit 63 (uint w)) = take_bit 63 (uint w)"
  proof (rule signed_take_bit_int_eq_self)
    show "- (2 ^ 63) \<le> take_bit 63 (uint w)" by (rule order.trans [OF _ take_bit_nonnegative]) simp
    show "take_bit 63 (uint w) < 2 ^ 63" by (rule take_bit_int_less_exp)
  qed
  then show ?thesis by (simp add: sint_uint unsigned_take_bit_eq)
qed

text \<open>
  \<open>Int63\<close> returns the low 63 bits of eight random bytes in big-endian order, so a value from 0 to
  \<open>2 ^ 63 - 1\<close> and never a negative number, reads exactly eight bytes, and panics when they cannot be
  read.
\<close>

theorem source_Int63_range:
  "source_Int63 reader =
     (if length reader < 8 then Panic (UserPanic ''unexpected EOF'')
      else Return (uint (le_join (rev (take 8 reader)) :: uint64) mod 2 ^ 63, drop 8 reader))
   \<and> (case source_Int63 reader of Return (k, _) \<Rightarrow> 0 \<le> k \<and> k < 2 ^ 63 | Panic _ \<Rightarrow> length reader < 8)"
  by (simp add: source_Int63_def source_Uint64_def clear_top_bit sint_take_bit_63) (simp add: take_bit_eq_mod)

end
