(* ===== verification/Bls_Herumi.thy ===== *)
theory Bls_Herumi
  imports Rand Json
begin

text \<open>
  The wrapper around the BLS library (\<open>bls/herumi\<close>, \<open>bls/signature_set.go\<close>). The library itself is a
  record of its functions. Public keys are mutable objects (\<open>Aggregate\<close> changes its receiver) and a
  cache keeps some of them, so they live in a store, and what is shared with the cache is visible.
\<close>

section \<open>The library and the objects\<close>

record ('fr, 'sk, 'pk, 'sig) bls12 =
  sk_Deserialize :: "byte list \<Rightarrow> 'sk option"
  sk_Serialize :: "'sk \<Rightarrow> byte list"
  sk_IsZero :: "'sk \<Rightarrow> bool"
  GetPublicKey :: "'sk \<Rightarrow> 'pk"
  SignByte :: "'sk \<Rightarrow> byte list \<Rightarrow> 'sig"
  pk_Deserialize :: "byte list \<Rightarrow> 'pk option"
  pk_Serialize :: "'pk \<Rightarrow> byte list"
  pk_IsZero :: "'pk \<Rightarrow> bool"
  pk_Add :: "'pk \<Rightarrow> 'pk \<Rightarrow> 'pk"
  sig_Deserialize :: "byte list \<Rightarrow> 'sig option"
  sig_Serialize :: "'sig \<Rightarrow> byte list"
  sig_Add :: "'sig \<Rightarrow> 'sig \<Rightarrow> 'sig"
  HashAndMapToSignature :: "byte list \<Rightarrow> 'sig"
  VerifyByte :: "'sig \<Rightarrow> 'pk \<Rightarrow> byte list \<Rightarrow> bool"
  AggregateVerifyNoCheck :: "'sig \<Rightarrow> 'pk list \<Rightarrow> byte list \<Rightarrow> bool"
  lib_FastAggregateVerify :: "'sig \<Rightarrow> 'pk list \<Rightarrow> byte list \<Rightarrow> bool"
  SetLittleEndian :: "byte list \<Rightarrow> 'fr option"
  G2MulVec :: "'sig list \<Rightarrow> 'fr list \<Rightarrow> 'sig"
  G1Mul :: "'pk \<Rightarrow> 'fr \<Rightarrow> 'pk"

text \<open>Where an error wraps one of the library, only the text of the wrapper is kept.\<close>

datatype bls_error =
    BlsError string
  | ErrSecretUnmarshal
  | ErrZeroKey
  | ErrInfinitePubKey

text \<open>
  A \<open>*PublicKey\<close> is an address; the object holds a pointer to the library's key, which may be nil. The
  cache maps the bytes of a key to an object.
\<close>

record 'pk keystate =
  key_objs :: "nat \<Rightarrow> 'pk option"
  key_next :: nat
  pubkeyCache :: "byte list \<rightharpoonup> nat"

definition new_key :: "'pk option \<Rightarrow> 'pk keystate \<Rightarrow> nat \<times> 'pk keystate" where
  "new_key p st = (key_next st, st\<lparr>key_objs := (key_objs st)(key_next st := p), key_next := Suc (key_next st)\<rparr>)"

section \<open>Public keys\<close>

definition pk_Copy :: "nat \<Rightarrow> 'pk keystate \<Rightarrow> (nat \<times> 'pk keystate) outcome" where
  "pk_Copy a st =
     (case key_objs st a of None \<Rightarrow> Panic NilDereference | Some p \<Rightarrow> Return (new_key (Some p) st))"

text \<open>The cache decides itself what it keeps: \<open>keep\<close> tells whether \<open>Set\<close> has an effect.\<close>

definition PublicKeyFromBytes ::
  "('fr, 'sk, 'pk, 'sig) bls12 \<Rightarrow> (byte list \<Rightarrow> bool) \<Rightarrow> byte list \<Rightarrow> 'pk keystate \<Rightarrow> ((bls_error + nat) \<times> 'pk keystate) outcome" where
  "PublicKeyFromBytes L keep pubKey st =
     (if length pubKey \<noteq> 48 then Return (Inl (BlsError ''public key must be 48 bytes''), st)
      else
        (case pubkeyCache st pubKey of
           Some cv \<Rightarrow> outcome_bind (pk_Copy cv st) (\<lambda>(a, st). Return (Inr a, st))
         | None \<Rightarrow>
             (case pk_Deserialize L pubKey of
                None \<Rightarrow> Return (Inl (BlsError ''could not unmarshal bytes into public key''), st)
              | Some p \<Rightarrow>
                  let (pubKeyObj, st) = new_key (Some p) st in
                  if pk_IsZero L p then Return (Inl ErrInfinitePubKey, st)
                  else
                    outcome_bind (pk_Copy pubKeyObj st) (\<lambda>(c, st).
                      Return (Inr pubKeyObj, if keep pubKey then st\<lparr>pubkeyCache := (pubkeyCache st)(pubKey \<mapsto> c)\<rparr> else st)))))"

definition pk_Aggregate ::
  "('fr, 'sk, 'pk, 'sig) bls12 \<Rightarrow> nat \<Rightarrow> nat \<Rightarrow> 'pk keystate \<Rightarrow> 'pk keystate outcome" where
  "pk_Aggregate L a b st =
     (case (key_objs st a, key_objs st b) of
        (Some p, Some q) \<Rightarrow> Return (st\<lparr>key_objs := (key_objs st)(a := Some (pk_Add L p q))\<rparr>)
      | _ \<Rightarrow> Panic NilDereference)"

fun aggregate_loop ::
  "('fr, 'sk, 'pk, 'sig) bls12 \<Rightarrow> (byte list \<Rightarrow> bool) \<Rightarrow> nat \<Rightarrow> byte list list \<Rightarrow> 'pk keystate
     \<Rightarrow> ((bls_error + nat) \<times> 'pk keystate) outcome" where
  "aggregate_loop L keep p [] st = Return (Inr p, st)"
| "aggregate_loop L keep p (k # pubs) st =
     outcome_bind (PublicKeyFromBytes L keep k st) (\<lambda>(r, st).
       case r of
         Inl err \<Rightarrow> Return (Inl err, st)
       | Inr pubkey \<Rightarrow> outcome_bind (pk_Aggregate L p pubkey st) (\<lambda>st. aggregate_loop L keep p pubs st))"

definition AggregatePublicKeys ::
  "('fr, 'sk, 'pk, 'sig) bls12 \<Rightarrow> (byte list \<Rightarrow> bool) \<Rightarrow> byte list list \<Rightarrow> 'pk keystate
     \<Rightarrow> ((bls_error + nat) \<times> 'pk keystate) outcome" where
  "AggregatePublicKeys L keep pubs st =
     (case pubs of
        [] \<Rightarrow> (let (a, st) = new_key None st in Return (Inr a, st))
      | k # rest \<Rightarrow>
          outcome_bind (PublicKeyFromBytes L keep k st) (\<lambda>(r, st).
            case r of
              Inl err \<Rightarrow> Return (Inl err, st)
            | Inr p \<Rightarrow> aggregate_loop L keep p rest st))"

definition pk_Marshal :: "('fr, 'sk, 'pk, 'sig) bls12 \<Rightarrow> nat \<Rightarrow> 'pk keystate \<Rightarrow> byte list outcome" where
  "pk_Marshal L a st = (case key_objs st a of None \<Rightarrow> Panic NilDereference | Some p \<Rightarrow> Return (pk_Serialize L p))"

definition IsInfinite :: "('fr, 'sk, 'pk, 'sig) bls12 \<Rightarrow> nat \<Rightarrow> 'pk keystate \<Rightarrow> bool outcome" where
  "IsInfinite L a st = (case key_objs st a of None \<Rightarrow> Panic NilDereference | Some p \<Rightarrow> Return (pk_IsZero L p))"

section \<open>Secret keys\<close>

definition RandKey :: "('fr, 'sk, 'pk, 'sig) bls12 \<Rightarrow> 'sk \<Rightarrow> bls_error + 'sk" where
  "RandKey L generated = (if sk_IsZero L generated then Inl (BlsError ''generated a zero secret key'') else Inr generated)"

definition SecretKeyFromBytes :: "('fr, 'sk, 'pk, 'sig) bls12 \<Rightarrow> byte list \<Rightarrow> bls_error + 'sk" where
  "SecretKeyFromBytes L privKey =
     (if length privKey \<noteq> 32 then Inl (BlsError ''secret key must be 32 bytes'')
      else
        (case sk_Deserialize L privKey of
           None \<Rightarrow> Inl ErrSecretUnmarshal
         | Some secKey \<Rightarrow> if sk_IsZero L secKey then Inl ErrZeroKey else Inr secKey))"

definition sk_Marshal :: "('fr, 'sk, 'pk, 'sig) bls12 \<Rightarrow> 'sk \<Rightarrow> byte list" where
  "sk_Marshal L s =
     (let keyBytes = sk_Serialize L s in
      if length keyBytes < 32 then replicate (32 - length keyBytes) 0 @ keyBytes else keyBytes)"

text \<open>A public key is a new object.\<close>

definition sk_PublicKey :: "('fr, 'sk, 'pk, 'sig) bls12 \<Rightarrow> 'sk \<Rightarrow> 'pk keystate \<Rightarrow> nat \<times> 'pk keystate" where
  "sk_PublicKey L s st = new_key (Some (GetPublicKey L s)) st"

definition sk_Sign :: "('fr, 'sk, 'pk, 'sig) bls12 \<Rightarrow> 'sk \<Rightarrow> byte list \<Rightarrow> 'sig" where
  [simp]: "sk_Sign L s msg = SignByte L s msg"

section \<open>Signatures\<close>

definition SignatureFromBytes :: "('fr, 'sk, 'pk, 'sig) bls12 \<Rightarrow> byte list \<Rightarrow> bls_error + 'sig" where
  "SignatureFromBytes L s =
     (if length s \<noteq> 96 then Inl (BlsError ''signature must be 96 bytes'')
      else
        (case sig_Deserialize L s of
           None \<Rightarrow> Inl (BlsError ''could not unmarshal bytes into signature'')
         | Some signature \<Rightarrow> Inr signature))"

definition Verify ::
  "('fr, 'sk, 'pk, 'sig) bls12 \<Rightarrow> 'sig \<Rightarrow> nat \<Rightarrow> byte list \<Rightarrow> 'pk keystate \<Rightarrow> bool outcome" where
  "Verify L s pubKey msg st =
     (case key_objs st pubKey of
        None \<Rightarrow> Panic NilDereference
      | Some p \<Rightarrow> Return (if pk_IsZero L p then False else VerifyByte L s p msg))"

text \<open>The keys behind a list of objects.\<close>

fun raw_keys :: "nat list \<Rightarrow> 'pk keystate \<Rightarrow> 'pk list outcome" where
  "raw_keys [] st = Return []"
| "raw_keys (a # as) st =
     (case key_objs st a of
        None \<Rightarrow> Panic NilDereference
      | Some p \<Rightarrow> outcome_bind (raw_keys as st) (\<lambda>ps. Return (p # ps)))"

text \<open>Messages are arrays of 32 bytes.\<close>

definition AggregateVerify ::
  "('fr, 'sk, 'pk, 'sig) bls12 \<Rightarrow> 'sig \<Rightarrow> nat list \<Rightarrow> byte list list \<Rightarrow> 'pk keystate \<Rightarrow> bool outcome" where
  "AggregateVerify L s pubKeys msgs st =
     (let size = length pubKeys in
      if size = 0 then Return False
      else if size \<noteq> length msgs then Return False
      else outcome_bind (raw_keys pubKeys st) (\<lambda>rawKeys. Return (AggregateVerifyNoCheck L s rawKeys (concat msgs))))"

definition FastAggregateVerify ::
  "('fr, 'sk, 'pk, 'sig) bls12 \<Rightarrow> 'sig \<Rightarrow> nat list \<Rightarrow> byte list \<Rightarrow> 'pk keystate \<Rightarrow> bool outcome" where
  "FastAggregateVerify L s pubKeys msg st =
     (if length pubKeys = 0 then Return False
      else outcome_bind (raw_keys pubKeys st) (\<lambda>rawKeys. Return (lib_FastAggregateVerify L s rawKeys msg)))"

definition NewAggregateSignature :: "('fr, 'sk, 'pk, 'sig) bls12 \<Rightarrow> 'sig" where
  "NewAggregateSignature L = HashAndMapToSignature L (map (\<lambda>c. of_nat (char_code c)) ''mock'')"

definition AggregateSignatures :: "('fr, 'sk, 'pk, 'sig) bls12 \<Rightarrow> 'sig list \<Rightarrow> 'sig option" where
  "AggregateSignatures L sigs = (case sigs of [] \<Rightarrow> None | s # rest \<Rightarrow> Some (foldl (sig_Add L) s rest))"

definition Aggregate :: "('fr, 'sk, 'pk, 'sig) bls12 \<Rightarrow> 'sig list \<Rightarrow> 'sig option" where
  "Aggregate L sigs = AggregateSignatures L sigs"

text \<open>The random scalars of \<open>VerifyMultipleSignatures\<close>, one per signature.\<close>

fun random_scalars ::
  "('fr, 'sk, 'pk, 'sig) bls12 \<Rightarrow> nat \<Rightarrow> byte list \<Rightarrow> (bls_error + 'fr list) outcome" where
  "random_scalars L 0 reader = Return (Inr [])"
| "random_scalars L (Suc n) reader =
     outcome_bind (source_Uint64 reader) (\<lambda>(rNum, reader).
       outcome_bind (Bytes8 rNum) (\<lambda>b.
         case SetLittleEndian L b of
           None \<Rightarrow> Return (Inl (BlsError ''err mclBnFr_setLittleEndian''))
         | Some r \<Rightarrow>
             outcome_bind (random_scalars L n reader) (\<lambda>rs.
               Return (case rs of Inl err \<Rightarrow> Inl err | Inr rs \<Rightarrow> Inr (r # rs)))))"

text \<open>A key is a possibly nil interface value; the first nil is reported.\<close>

fun multi_keys ::
  "('fr, 'sk, 'pk, 'sig) bls12 \<Rightarrow> nat option list \<Rightarrow> 'fr list \<Rightarrow> 'pk keystate \<Rightarrow> (bls_error + 'pk list) outcome" where
  "multi_keys L [] rs st = Return (Inr [])"
| "multi_keys L (None # ks) rs st = Return (Inl (BlsError ''nil public key''))"
| "multi_keys L (Some a # ks) rs st =
     (case key_objs st a of
        None \<Rightarrow> Panic NilDereference
      | Some p \<Rightarrow>
          (case rs of
             [] \<Rightarrow> Panic IndexOutOfRange
           | r # rs \<Rightarrow>
               outcome_bind (multi_keys L ks rs st) (\<lambda>res.
                 Return (case res of Inl err \<Rightarrow> Inl err | Inr ps \<Rightarrow> Inr (G1Mul L p r # ps)))))"

definition VerifyMultipleSignatures ::
  "('fr, 'sk, 'pk, 'sig) bls12 \<Rightarrow> byte list \<Rightarrow> 'sig list \<Rightarrow> byte list list \<Rightarrow> nat option list \<Rightarrow> 'pk keystate
     \<Rightarrow> (bls_error + bool) outcome" where
  "VerifyMultipleSignatures L reader sigs msgs pubKeys st =
     (if length sigs = 0 \<or> length pubKeys = 0 then Return (Inr False)
      else if length sigs \<noteq> length pubKeys \<or> length sigs \<noteq> length msgs then
        Return (Inl (BlsError (''provided signatures, pubkeys and messages have differing lengths. S: '' @ dec_nat (length sigs)
          @ '', P: '' @ dec_nat (length pubKeys) @ '',M '' @ dec_nat (length msgs))))
      else
        outcome_bind (random_scalars L (length sigs) reader) (\<lambda>res.
          case res of
            Inl err \<Rightarrow> Return (Inl err)
          | Inr randNums \<Rightarrow>
              let finalSig = G2MulVec L sigs randNums in
              outcome_bind (multi_keys L pubKeys randNums st) (\<lambda>res.
                Return (case res of
                   Inl err \<Rightarrow> Inl err
                 | Inr multiKeys \<Rightarrow> Inr (AggregateVerifyNoCheck L finalSig multiKeys (concat msgs))))))"

definition sig_Marshal :: "('fr, 'sk, 'pk, 'sig) bls12 \<Rightarrow> 'sig \<Rightarrow> byte list" where
  "sig_Marshal L s = sig_Serialize L s"

section \<open>Signature sets\<close>

record SignatureSet =
  Signatures :: "byte list list"
  PublicKeys :: "nat list"
  Messages :: "byte list list"

definition NewSet :: SignatureSet where
  "NewSet = \<lparr>Signatures = [], PublicKeys = [], Messages = []\<rparr>"

definition set_Join :: "SignatureSet \<Rightarrow> SignatureSet \<Rightarrow> SignatureSet" where
  "set_Join s t = \<lparr>Signatures = Signatures s @ Signatures t, PublicKeys = PublicKeys s @ PublicKeys t,
     Messages = Messages s @ Messages t\<rparr>"

section \<open>The cache is transparent\<close>

text \<open>The reference: decoding without a cache, and adding up the decoded keys.\<close>

definition decode_key :: "('fr, 'sk, 'pk, 'sig) bls12 \<Rightarrow> byte list \<Rightarrow> bls_error + 'pk" where
  "decode_key L b =
     (if length b \<noteq> 48 then Inl (BlsError ''public key must be 48 bytes'')
      else
        (case pk_Deserialize L b of
           None \<Rightarrow> Inl (BlsError ''could not unmarshal bytes into public key'')
         | Some p \<Rightarrow> if pk_IsZero L p then Inl ErrInfinitePubKey else Inr p))"

fun sum_keys :: "('fr, 'sk, 'pk, 'sig) bls12 \<Rightarrow> 'pk \<Rightarrow> byte list list \<Rightarrow> bls_error + 'pk" where
  "sum_keys L v [] = Inr v"
| "sum_keys L v (k # ks) = (case decode_key L k of Inl err \<Rightarrow> Inl err | Inr q \<Rightarrow> sum_keys L (pk_Add L v q) ks)"

definition cache_ok :: "('fr, 'sk, 'pk, 'sig) bls12 \<Rightarrow> 'pk keystate \<Rightarrow> bool" where
  "cache_ok L st \<longleftrightarrow> (\<forall>b a. pubkeyCache st b = Some a \<longrightarrow> a < key_next st \<and> key_objs st a \<noteq> None \<and> decode_key L b = Inr (the (key_objs st a)))"

text \<open>Old objects are untouched and none of them newly shared; and an object that is shared with nobody.\<close>

definition kept :: "('fr, 'sk, 'pk, 'sig) bls12 \<Rightarrow> 'pk keystate \<Rightarrow> 'pk keystate \<Rightarrow> bool" where
  "kept L st st' \<longleftrightarrow> cache_ok L st' \<and> key_next st \<le> key_next st' \<and> (\<forall>a < key_next st. key_objs st' a = key_objs st a)
     \<and> (\<forall>a < key_next st. a \<in> ran (pubkeyCache st') \<longrightarrow> a \<in> ran (pubkeyCache st))"

definition owned :: "nat \<Rightarrow> 'pk \<Rightarrow> 'pk keystate \<Rightarrow> bool" where
  "owned a p st \<longleftrightarrow> a < key_next st \<and> key_objs st a = Some p \<and> a \<notin> ran (pubkeyCache st)"

lemma PublicKeyFromBytes_decodes:
  assumes "cache_ok L st"
  shows "\<exists>r st'. PublicKeyFromBytes L keep b st = Return (r, st') \<and> kept L st st'
    \<and> (case r of Inl err \<Rightarrow> decode_key L b = Inl err
       | Inr a \<Rightarrow> key_next st \<le> a \<and> (\<exists>p. decode_key L b = Inr p \<and> owned a p st'))"
proof (cases "length b = 48")
  case False
  then show ?thesis using assms by (simp add: PublicKeyFromBytes_def decode_key_def kept_def)
next
  case len: True
  show ?thesis
  proof (cases "pubkeyCache st b")
    case (Some cv)
    then obtain p where p: "key_objs st cv = Some p" "decode_key L b = Inr p" "cv < key_next st"
      using assms by (fastforce simp: cache_ok_def)
    let ?st = "st\<lparr>key_objs := (key_objs st)(key_next st := Some p), key_next := Suc (key_next st)\<rparr>"
    have "PublicKeyFromBytes L keep b st = Return (Inr (key_next st), ?st)"
      using len Some p by (simp add: PublicKeyFromBytes_def pk_Copy_def new_key_def)
    moreover have "kept L st ?st" using assms by (fastforce simp: kept_def cache_ok_def)
    moreover have "owned (key_next st) p ?st" using assms by (fastforce simp: owned_def cache_ok_def ran_def)
    ultimately show ?thesis using p by auto
  next
    case None
    show ?thesis
    proof (cases "pk_Deserialize L b")
      case None': None
      then show ?thesis using assms len None by (simp add: PublicKeyFromBytes_def decode_key_def kept_def)
    next
      case (Some p)
      let ?n = "key_next st"
      let ?st1 = "st\<lparr>key_objs := (key_objs st)(?n := Some p), key_next := Suc ?n\<rparr>"
      let ?st2 = "st\<lparr>key_objs := (key_objs st)(?n := Some p, Suc ?n := Some p), key_next := Suc (Suc ?n)\<rparr>"
      let ?st = "if keep b then ?st2\<lparr>pubkeyCache := (pubkeyCache st)(b \<mapsto> Suc ?n)\<rparr> else ?st2"
      have k1: "kept L st ?st1" using assms by (fastforce simp: kept_def cache_ok_def)
      show ?thesis
      proof (cases "pk_IsZero L p")
        case True
        then have "PublicKeyFromBytes L keep b st = Return (Inl ErrInfinitePubKey, ?st1)"
          using len None Some by (simp add: PublicKeyFromBytes_def new_key_def)
        then show ?thesis using k1 True len Some by (simp add: decode_key_def)
      next
        case False
        then have dec: "decode_key L b = Inr p" using len Some by (simp add: decode_key_def)
        have "PublicKeyFromBytes L keep b st = Return (Inr ?n, ?st)"
          using len None Some False by (simp add: PublicKeyFromBytes_def new_key_def pk_Copy_def)
        moreover have "cache_ok L ?st" using assms dec by (fastforce simp: cache_ok_def)
        moreover have "kept L st ?st" using \<open>cache_ok L ?st\<close> by (auto simp: kept_def ran_def)
        moreover have "owned ?n p ?st" using assms by (fastforce simp: owned_def cache_ok_def ran_def)
        ultimately show ?thesis using dec by auto
      qed
    qed
  qed
qed

lemma aggregate_loop_sums:
  assumes "cache_ok L st" and "owned p v st"
  shows "\<exists>r st'. aggregate_loop L keep p ks st = Return (r, st') \<and> cache_ok L st' \<and> key_next st \<le> key_next st'
    \<and> (\<forall>a < key_next st. a \<noteq> p \<longrightarrow> key_objs st' a = key_objs st a)
    \<and> (\<forall>a < key_next st. a \<in> ran (pubkeyCache st') \<longrightarrow> a \<in> ran (pubkeyCache st))
    \<and> (case r of Inl err \<Rightarrow> sum_keys L v ks = Inl err
       | Inr a \<Rightarrow> a = p \<and> (\<exists>w. sum_keys L v ks = Inr w \<and> owned p w st'))"
  using assms
proof (induction ks arbitrary: st v)
  case (Cons k ks)
  from PublicKeyFromBytes_decodes [OF Cons.prems(1), of keep k] obtain r st1 where
    r: "PublicKeyFromBytes L keep k st = Return (r, st1)" "kept L st st1"
    "case r of Inl err \<Rightarrow> decode_key L k = Inl err
       | Inr a \<Rightarrow> key_next st \<le> a \<and> (\<exists>q. decode_key L k = Inr q \<and> owned a q st1)" by blast
  have p: "p < key_next st" "p \<notin> ran (pubkeyCache st)" "key_objs st p = Some v" using Cons.prems(2) by (auto simp: owned_def)
  have own1: "owned p v st1" using r(2) p by (auto simp: kept_def owned_def)
  show ?case
  proof (cases r)
    case (Inl err)
    then show ?thesis using r p by (auto simp: kept_def)
  next
    case (Inr a)
    then obtain q where q: "decode_key L k = Inr q" "owned a q st1" "key_next st \<le> a" using r(3) by auto
    let ?st2 = "st1\<lparr>key_objs := (key_objs st1)(p := Some (pk_Add L v q))\<rparr>"
    have agg: "pk_Aggregate L p a st1 = Return ?st2" using own1 q(2) by (simp add: pk_Aggregate_def owned_def)
    have ok2: "cache_ok L ?st2" using r(2) own1 by (auto simp: kept_def cache_ok_def owned_def ran_def)
    have own2: "owned p (pk_Add L v q) ?st2" using own1 by (simp add: owned_def)
    from Cons.IH [OF ok2 own2] obtain r' st' where IH: "aggregate_loop L keep p ks ?st2 = Return (r', st')" "cache_ok L st'"
      "key_next st1 \<le> key_next st'" "\<forall>a < key_next st1. a \<noteq> p \<longrightarrow> key_objs st' a = key_objs st1 a"
      "\<forall>a < key_next st1. a \<in> ran (pubkeyCache st') \<longrightarrow> a \<in> ran (pubkeyCache st1)"
      "case r' of Inl err \<Rightarrow> sum_keys L (pk_Add L v q) ks = Inl err
       | Inr a \<Rightarrow> a = p \<and> (\<exists>w. sum_keys L (pk_Add L v q) ks = Inr w \<and> owned p w st')"
      by auto
    have "aggregate_loop L keep p (k # ks) st = Return (r', st')" using r(1) Inr agg IH(1) by simp
    moreover have "key_next st \<le> key_next st'" "\<forall>a < key_next st. a \<noteq> p \<longrightarrow> key_objs st' a = key_objs st a"
      "\<forall>a < key_next st. a \<in> ran (pubkeyCache st') \<longrightarrow> a \<in> ran (pubkeyCache st)"
      using r(2) IH(3-5) by (auto simp: kept_def)
    moreover have s: "sum_keys L v (k # ks) = sum_keys L (pk_Add L v q) ks" by (simp add: q(1))
    ultimately show ?thesis using IH(2) IH(6) [folded s] by blast
  qed
qed (use assms in \<open>auto simp: owned_def\<close>)

text \<open>
  C19. The cache of public keys is transparent: \<open>AggregatePublicKeys\<close> never panics and returns exactly
  the sum of the keys decoded without a cache, or the first decoding error, whatever the cache has kept;
  although the sum is accumulated by changing a key object in place, no object that existed before
  changes, and every cached object still holds the key of its bytes. No keys give an object without a
  key.
\<close>

theorem AggregatePublicKeys_cached:
  assumes "cache_ok L st"
  shows "\<exists>r st'. AggregatePublicKeys L keep pubs st = Return (r, st') \<and> cache_ok L st'
    \<and> (\<forall>a < key_next st. key_objs st' a = key_objs st a)
    \<and> (case pubs of
         [] \<Rightarrow> (\<exists>a. r = Inr a \<and> key_objs st' a = None)
       | k # ks \<Rightarrow>
           (case (case decode_key L k of Inl err \<Rightarrow> Inl err | Inr v \<Rightarrow> sum_keys L v ks) of
              Inl err \<Rightarrow> r = Inl err
            | Inr w \<Rightarrow> (\<exists>a. r = Inr a \<and> key_objs st' a = Some w)))"
proof (cases pubs)
  case Nil
  then show ?thesis using assms by (fastforce simp: AggregatePublicKeys_def new_key_def cache_ok_def)
next
  case (Cons k ks)
  from PublicKeyFromBytes_decodes [OF assms, of keep k] obtain r st1 where
    r: "PublicKeyFromBytes L keep k st = Return (r, st1)" "kept L st st1"
    "case r of Inl err \<Rightarrow> decode_key L k = Inl err
       | Inr a \<Rightarrow> key_next st \<le> a \<and> (\<exists>q. decode_key L k = Inr q \<and> owned a q st1)" by blast
  show ?thesis
  proof (cases r)
    case (Inl err)
    then show ?thesis using r Cons by (auto simp: AggregatePublicKeys_def kept_def)
  next
    case (Inr a)
    then obtain v where v: "decode_key L k = Inr v" "owned a v st1" "key_next st \<le> a" using r(3) by auto
    have ok1: "cache_ok L st1" using r(2) by (simp add: kept_def)
    from aggregate_loop_sums [OF ok1 v(2), of keep ks] obtain r' st' where
      l: "aggregate_loop L keep a ks st1 = Return (r', st')" "cache_ok L st'"
      "\<forall>b < key_next st1. b \<noteq> a \<longrightarrow> key_objs st' b = key_objs st1 b"
      "case r' of Inl err \<Rightarrow> sum_keys L v ks = Inl err | Inr b \<Rightarrow> b = a \<and> (\<exists>w. sum_keys L v ks = Inr w \<and> owned a w st')" by blast
    have "AggregatePublicKeys L keep pubs st = Return (r', st')" using Cons r(1) Inr l(1) by (simp add: AggregatePublicKeys_def)
    moreover have "\<forall>b < key_next st. key_objs st' b = key_objs st b" using r(2) l(3) v(3) by (auto simp: kept_def)
    ultimately show ?thesis using l(2,4) v(1) Cons by (cases r') (auto simp: owned_def)
  qed
qed

text \<open>A library for the examples: keys are numbers, the first byte of their encoding.\<close>

definition demo_bls :: "(nat, nat, nat, nat) bls12" where
  "demo_bls = \<lparr>sk_Deserialize = (\<lambda>b. Some (unat (hd b))), sk_Serialize = (\<lambda>k. of_nat k # replicate 31 0), sk_IsZero = (\<lambda>k. k = 0),
     GetPublicKey = (\<lambda>k. k), SignByte = (\<lambda>k m. k + length m),
     pk_Deserialize = (\<lambda>b. Some (unat (hd b))), pk_Serialize = (\<lambda>k. of_nat k # replicate 47 0), pk_IsZero = (\<lambda>k. k = 0), pk_Add = (+),
     sig_Deserialize = (\<lambda>b. Some (unat (hd b))), sig_Serialize = (\<lambda>k. of_nat k # replicate 95 0), sig_Add = (+),
     HashAndMapToSignature = length, VerifyByte = (\<lambda>s p m. s = p + length m),
     AggregateVerifyNoCheck = (\<lambda>s ps m. s = sum_list ps + length m), lib_FastAggregateVerify = (\<lambda>s ps m. s = sum_list ps + length ps * length m),
     SetLittleEndian = (\<lambda>b. Some (unat (hd b))), G2MulVec = (\<lambda>ss rs. sum_list (map2 (*) ss rs)), G1Mul = (*)\<rparr>"

definition empty_keys :: "'pk keystate" where
  "empty_keys = \<lparr>key_objs = (\<lambda>_. None), key_next = 0, pubkeyCache = Map.empty\<rparr>"

theorem AggregatePublicKeys_cached_witness:
  "\<exists>a st'. AggregatePublicKeys demo_bls (\<lambda>_. True) [3 # replicate 47 0, 4 # replicate 47 0, 3 # replicate 47 0] empty_keys
     = Return (Inr a, st') \<and> key_objs st' a = Some 10 \<and> cache_ok demo_bls st'"
proof -
  have ok: "cache_ok demo_bls empty_keys" by (simp add: cache_ok_def empty_keys_def)
  have dec: "decode_key demo_bls (b # replicate 47 0) = Inr (unat b)" if "unat b \<noteq> 0" for b
    using that by (simp add: decode_key_def demo_bls_def)
  have "decode_key demo_bls (3 # replicate 47 0) = Inr 3" "decode_key demo_bls (4 # replicate 47 0) = Inr 4"
    using dec [of 3] dec [of 4] by simp_all
  moreover from this have "sum_keys demo_bls 3 [4 # replicate 47 0, 3 # replicate 47 0] = Inr 10" by (simp add: demo_bls_def)
  ultimately show ?thesis
    using AggregatePublicKeys_cached [OF ok, of "\<lambda>_. True" "[3 # replicate 47 0, 4 # replicate 47 0, 3 # replicate 47 0]"]
    by auto
qed

section \<open>The interface of public keys\<close>

text \<open>
  What the clients of \<open>bls/interface.go\<close> rely on: \<open>Copy\<close> gives a new object with the same key, and \<open>Aggregate\<close> changes
  its receiver and nothing else. \<open>val\<close> is the key behind an object that exists.
\<close>

locale public_key_interface =
  fixes val :: "nat \<Rightarrow> 's \<Rightarrow> 'pk option"
    and Copy :: "nat \<Rightarrow> 's \<Rightarrow> (nat \<times> 's) outcome"
    and Agg :: "nat \<Rightarrow> nat \<Rightarrow> 's \<Rightarrow> 's outcome"
    and plus_pk :: "'pk \<Rightarrow> 'pk \<Rightarrow> 'pk"
  assumes Copy_new: "val a s = Some p \<Longrightarrow>
      \<exists>b s'. Copy a s = Return (b, s') \<and> val b s = None \<and> val b s' = Some p \<and> (\<forall>c. c \<noteq> b \<longrightarrow> val c s' = val c s)"
    and Agg_receiver: "val a s = Some p \<Longrightarrow> val b s = Some q \<Longrightarrow>
      \<exists>s'. Agg a b s = Return s' \<and> val a s' = Some (plus_pk p q) \<and> (\<forall>c. c \<noteq> a \<longrightarrow> val c s' = val c s)"
begin

lemma copy_isolates:
  assumes "val a s = Some p" and "val b s = Some q" and "Copy a s = Return (k, t)"
  shows "\<exists>u. Agg k b t = Return u \<and> val k u = Some (plus_pk p q) \<and> (\<forall>c. val c s \<noteq> None \<longrightarrow> val c u = val c s)"
proof -
  from Copy_new [OF assms(1)] assms(3) have k: "val k s = None" "val k t = Some p" "\<forall>c. c \<noteq> k \<longrightarrow> val c t = val c s" by auto
  then have "val b t = Some q" using assms(2) by (metis option.distinct(1))
  from Agg_receiver [OF k(2) this] show ?thesis using k(1,3) by metis
qed

end

definition key_value :: "nat \<Rightarrow> 'pk keystate \<Rightarrow> 'pk option" where
  "key_value a st = (if a < key_next st then key_objs st a else None)"

interpretation herumi_keys: public_key_interface key_value pk_Copy "pk_Aggregate L" "pk_Add L"
  for L :: "('fr, 'sk, 'pk, 'sig) bls12"
proof
  fix a p and s :: "'pk keystate"
  assume a: "key_value a s = Some p"
  then have "a < key_next s" "key_objs s a = Some p" by (simp_all add: key_value_def split: if_splits)
  then show "\<exists>b s'. pk_Copy a s = Return (b, s') \<and> key_value b s = None \<and> key_value b s' = Some p \<and> (\<forall>c. c \<noteq> b \<longrightarrow> key_value c s' = key_value c s)"
    by (intro exI [of _ "key_next s"] exI [of _ "snd (new_key (Some p) s)"]) (simp add: key_value_def pk_Copy_def new_key_def less_Suc_eq)
next
  fix a b :: nat and p q and s :: "'pk keystate"
  assume a: "key_value a s = Some p" and b: "key_value b s = Some q"
  let ?s = "s\<lparr>key_objs := (key_objs s)(a := Some (pk_Add L p q))\<rparr>"
  have "pk_Aggregate L a b s = Return ?s" using a b by (simp add: key_value_def pk_Aggregate_def split: if_splits)
  moreover have "key_value a ?s = Some (pk_Add L p q)" using a by (simp add: key_value_def split: if_splits)
  moreover have "\<forall>c. c \<noteq> a \<longrightarrow> key_value c ?s = key_value c s" by (simp add: key_value_def)
  ultimately show "\<exists>s'. pk_Aggregate L a b s = Return s' \<and> key_value a s' = Some (pk_Add L p q) \<and> (\<forall>c. c \<noteq> a \<longrightarrow> key_value c s' = key_value c s)"
    by blast
qed

text \<open>Aggregating into a copy never changes another key: neither the original nor one that the cache holds.\<close>

lemma aggregate_into_copy:
  assumes "cache_ok L st" and "key_value a st = Some p" and "key_value b st = Some q"
  shows "\<exists>k t u. pk_Copy a st = Return (k, t) \<and> pk_Aggregate L k b t = Return u \<and> key_value k u = Some (pk_Add L p q)
    \<and> (\<forall>c. key_value c st \<noteq> None \<longrightarrow> key_value c u = key_value c st) \<and> cache_ok L u"
proof -
  obtain k t where kt: "pk_Copy a st = Return (k, t)" using herumi_keys.Copy_new [OF assms(2)] by blast
  obtain u where u: "pk_Aggregate L k b t = Return u" "key_value k u = Some (pk_Add L p q)"
    "\<forall>c. key_value c st \<noteq> None \<longrightarrow> key_value c u = key_value c st"
    using herumi_keys.copy_isolates [OF assms(2,3) kt, where L = L] by blast
  have same: "pubkeyCache u = pubkeyCache st" "key_next st \<le> key_next u"
    using kt u(1) by (auto simp: pk_Copy_def pk_Aggregate_def new_key_def split: option.splits)
  have "cache_ok L u" unfolding cache_ok_def same(1)
  proof (intro allI impI)
    fix c d
    assume "pubkeyCache st c = Some d"
    then have d: "d < key_next st" "key_objs st d \<noteq> None" "decode_key L c = Inr (the (key_objs st d))"
      using assms(1) unfolding cache_ok_def by blast+
    then have "key_value d u = key_objs st d" using u(3) by (simp add: key_value_def)
    then show "d < key_next u \<and> key_objs u d \<noteq> None \<and> decode_key L c = Inr (the (key_objs u d))"
      using d same(2) by (auto simp: key_value_def split: if_splits)
  qed
  then show ?thesis using kt u by blast
qed

end
