(* ===== verification/Keymanager.thy ===== *)
theory Keymanager
  imports Wallet Bls_Herumi
begin

text \<open>
  The key manager (\<open>wallet/keymanager.go\<close>) and the slot information it signs (\<open>wallet/types.go\<close>).
  Arguments stand for the BLS library, the decryption of a keystore, the JSON decoding of the two
  documents, Keccak-256, and the RLP encoder.
\<close>

section \<open>Slot information\<close>

record SlotInfo =
  Epoch :: uint64
  Slot :: uint64
  ProposerIndex :: uint64

definition NewSlotInfo :: "uint64 \<Rightarrow> uint64 \<Rightarrow> uint64 \<Rightarrow> SlotInfo" where
  "NewSlotInfo epoch slot proposerIndex = \<lparr>Epoch = epoch, Slot = slot, ProposerIndex = proposerIndex\<rparr>"

text \<open>\<open>rlp_value\<close> is what the RLP encoder makes of a struct that is passed by value.\<close>

definition EncodeRLP :: "(SlotInfo \<Rightarrow> wallet_error + byte list) \<Rightarrow> SlotInfo \<Rightarrow> wallet_error + byte list" where
  "EncodeRLP rlp_value s = rlp_value \<lparr>Epoch = Epoch s, Slot = Slot s, ProposerIndex = ProposerIndex s\<rparr>"

text \<open>
  \<open>rlpHash\<close> hashes what was written: for a pointer the encoder calls its \<open>EncodeRLP\<close>, and writes nothing
  if that fails. The error is dropped.
\<close>

definition rlpHash :: "(byte list \<Rightarrow> byte list) \<Rightarrow> wallet_error + byte list \<Rightarrow> byte list" where
  "rlpHash keccak encoded = keccak (case encoded of Inl _ \<Rightarrow> [] | Inr b \<Rightarrow> b)"

definition SlotInfo_Hash ::
  "(byte list \<Rightarrow> byte list) \<Rightarrow> (SlotInfo \<Rightarrow> wallet_error + byte list) \<Rightarrow> SlotInfo \<Rightarrow> byte list" where
  "SlotInfo_Hash keccak rlp_value s = rlpHash keccak (EncodeRLP rlp_value s)"

text \<open>
  \<open>DecodeRLP\<close> passes a \<open>*SlotInfo\<close> to the decoder, which calls \<open>DecodeRLP\<close> for it; the first argument
  bounds the depth of calls.
\<close>

primrec DecodeRLP :: "nat \<Rightarrow> 's \<Rightarrow> SlotInfo \<Rightarrow> (wallet_error option \<times> SlotInfo) option" where
  "DecodeRLP 0 rlpData s = None"
| "DecodeRLP (Suc n) rlpData s =
     (case DecodeRLP n rlpData (NewSlotInfo 0 0 0) of
        None \<Rightarrow> None
      | Some (Some err, eb) \<Rightarrow> Some (Some err, s)
      | Some (None, eb) \<Rightarrow> Some (None, s\<lparr>Epoch := Epoch eb, Slot := Slot eb, ProposerIndex := ProposerIndex eb\<rparr>))"

section \<open>State\<close>

text \<open>A public key of the store may be nil.\<close>

record accountStore =
  PrivateKeys :: "byte list list"
  store_PublicKeys :: "byte list option list"

record Keymanager =
  km_wallet :: Wallet
  accountsStore :: accountStore
  disabledPublicKeys :: "byte list set"

text \<open>The caches are global variables of the package.\<close>

record 'sk keycache =
  orderedPublicKeys :: "byte list list"
  secretKeysCache :: "byte list \<rightharpoonup> 'sk"

text \<open>Of the keystore document only these parts are used; \<open>Crypto\<close> goes to the decryptor as it is.\<close>

record 'c AccountsKeystoreRepresentation =
  Crypto :: 'c
  DisabledPublicKeys :: "string list"

definition AccountsPath :: string where "AccountsPath = ''accounts''"
definition AccountsKeystoreFileName :: string where "AccountsKeystoreFileName = ''all-accounts.keystore.json''"

section \<open>Initialisation\<close>

text \<open>\<open>hex.DecodeString\<close>.\<close>

fun hex_DecodeString :: "string \<Rightarrow> byte list option" where
  "hex_DecodeString [] = Some []"
| "hex_DecodeString [c] = None"
| "hex_DecodeString (c # d # s) =
     (case (hex_val c, hex_val d, hex_DecodeString s) of
        (Some a, Some b, Some bs) \<Rightarrow> Some (of_nat (16 * a + b) # bs)
      | _ \<Rightarrow> None)"

text \<open>The text of an error; those of system calls without the path.\<close>

fun file_error_text :: "file_error \<Rightarrow> string" where
  "file_error_text (PathError e) = strerror e"
| "file_error_text (Plain t) = t"
| "file_error_text (Wrapped t e) = t @ '': '' @ file_error_text e"

fun wallet_error_text :: "wallet_error \<Rightarrow> string" where
  "wallet_error_text (FileErr e) = file_error_text e"
| "wallet_error_text (OpenErr p e) = open_error_text p e"
| "wallet_error_text (WPlain t) = t"
| "wallet_error_text (WWrapped t e) = t @ '': '' @ wallet_error_text e"
| "wallet_error_text ErrNoWalletFound =
     ''no wallet found. You can create a new wallet with `validator wallet create`. ''
     @ ''If you already did, perhaps you created a wallet in a custom directory, which you can specify using ''
     @ ''`--wallet-dir=/path/to/my/wallet`''"

fun fill_caches ::
  "('fr, 'sk, 'pk, 'sig) bls12 \<Rightarrow> nat \<Rightarrow> byte list option list \<Rightarrow> byte list list \<Rightarrow> 'sk keycache
     \<Rightarrow> (wallet_error option \<times> 'sk keycache) outcome" where
  "fill_caches L i [] privs c = Return (None, c)"
| "fill_caches L i (publicKey # pubs) privs c =
     (let publicKey48 = ToBytes48 (case publicKey of None \<Rightarrow> [] | Some b \<Rightarrow> b) in
      if i \<ge> length (orderedPublicKeys c) then Panic IndexOutOfRange
      else
        let c = c\<lparr>orderedPublicKeys := (orderedPublicKeys c)[i := publicKey48]\<rparr> in
        if i \<ge> length privs then Panic IndexOutOfRange
        else
          (case SecretKeyFromBytes L (privs ! i) of
             Inl err \<Rightarrow> Return (Some (WPlain ''failed to initialize keys caches from account keystore''), c)
           | Inr secretKey \<Rightarrow>
               fill_caches L (Suc i) pubs privs (c\<lparr>secretKeysCache := (secretKeysCache c)(publicKey48 \<mapsto> secretKey)\<rparr>)))"

definition initializeKeysCachesFromKeystore ::
  "('fr, 'sk, 'pk, 'sig) bls12 \<Rightarrow> Keymanager \<Rightarrow> (wallet_error option \<times> 'sk keycache) outcome" where
  "initializeKeysCachesFromKeystore L km =
     (let count = length (PrivateKeys (accountsStore km)) in
      fill_caches L 0 (store_PublicKeys (accountsStore km)) (PrivateKeys (accountsStore km))
        \<lparr>orderedPublicKeys = replicate count (replicate 48 0), secretKeysCache = Map.empty\<rparr>)"

fun disable_keys :: "string list \<Rightarrow> byte list set \<Rightarrow> bool \<times> byte list set" where
  "disable_keys [] d = (True, d)"
| "disable_keys (pubKey # ks) d =
     (case hex_DecodeString pubKey of
        None \<Rightarrow> (False, d)
      | Some pubKeyBytes \<Rightarrow> disable_keys ks (insert (ToBytes48 pubKeyBytes) d))"

record ('c, 'fr, 'sk, 'pk, 'sig) km_env =
  km_proc :: proc_env
  km_glob :: "fs \<Rightarrow> string \<Rightarrow> wallet_error + string list"
  unmarshal_keystore :: "byte list \<Rightarrow> wallet_error + 'c AccountsKeystoreRepresentation"
  Decrypt :: "'c \<Rightarrow> string \<Rightarrow> string + byte list"
  unmarshal_store :: "byte list \<Rightarrow> wallet_error + accountStore"
  km_bls :: "('fr, 'sk, 'pk, 'sig) bls12"

text \<open>From the decoded store on: the error, the key manager and the caches.\<close>

definition use_store ::
  "('c, 'fr, 'sk, 'pk, 'sig) km_env \<Rightarrow> accountStore \<Rightarrow> string list \<Rightarrow> Keymanager \<Rightarrow> 'sk keycache
     \<Rightarrow> (wallet_error option \<times> Keymanager \<times> 'sk keycache) outcome" where
  "use_store E store disabled km c =
     (if length (store_PublicKeys store) \<noteq> length (PrivateKeys store) then
        Return (Some (WPlain ''unequal number of public keys and private keys''), km, c)
      else if length (store_PublicKeys store) = 0 then Return (None, km, c)
      else
        let km = km\<lparr>accountsStore := store\<rparr>;
            (ok, d) = disable_keys disabled (disabledPublicKeys km);
            km = km\<lparr>disabledPublicKeys := d\<rparr> in
        if \<not> ok then Return (Some (WPlain ''encoding/hex: invalid string''), km, c)
        else
          outcome_bind (initializeKeysCachesFromKeystore (km_bls E) km) (\<lambda>(err, c).
            case err of
              Some err \<Rightarrow> Return (Some (WWrapped ''failed to initialize keys caches'' err), km, c)
            | None \<Rightarrow> Return (None, km, c)))"

definition initializeAccountKeystore ::
  "('c, 'fr, 'sk, 'pk, 'sig) km_env \<Rightarrow> Keymanager \<Rightarrow> 'sk keycache \<Rightarrow> fs
     \<Rightarrow> (wallet_error option \<times> Keymanager \<times> 'sk keycache \<times> fs) outcome" where
  "initializeAccountKeystore E km c fs =
     (case ReadFileAtPath (km_glob E) (km_proc E) (km_wallet km) AccountsPath AccountsKeystoreFileName fs of
        (Inl err, fs) \<Rightarrow>
          if Contains (wallet_error_text err) ''no files found'' then Return (None, km, c, fs)
          else Return (Some (WWrapped (''could not read keystore file for accounts '' @ AccountsKeystoreFileName) err), km, c, fs)
      | (Inr encoded, fs) \<Rightarrow>
          (case unmarshal_keystore E encoded of
             Inl err \<Rightarrow>
               Return (Some (WWrapped (''could not decode keystore file for accounts '' @ AccountsKeystoreFileName) err), km, c, fs)
           | Inr keystoreFile \<Rightarrow>
               (case Decrypt E (Crypto keystoreFile) (walletPassword (km_wallet km)) of
                  Inl err \<Rightarrow>
                    Return (Some (WWrapped (if Contains err ''invalid checksum'' then ''wrong password for wallet entered''
                      else ''could not decrypt keystore'') (WPlain err)), km, c, fs)
                | Inr enc \<Rightarrow>
                    (case unmarshal_store E enc of
                       Inl err \<Rightarrow> Return (Some err, km, c, fs)
                     | Inr store \<Rightarrow>
                         outcome_bind (use_store E store (DisabledPublicKeys keystoreFile) km c) (\<lambda>(err, km, c).
                           Return (err, km, c, fs))))))"

definition NewKeymanager ::
  "('c, 'fr, 'sk, 'pk, 'sig) km_env \<Rightarrow> Wallet \<Rightarrow> 'sk keycache \<Rightarrow> fs
     \<Rightarrow> ((wallet_error + Keymanager) \<times> 'sk keycache \<times> fs) outcome" where
  "NewKeymanager E wallet c fs =
     outcome_bind
       (initializeAccountKeystore E
          \<lparr>km_wallet = wallet, accountsStore = \<lparr>PrivateKeys = [], store_PublicKeys = []\<rparr>, disabledPublicKeys = {}\<rparr> c fs)
       (\<lambda>(err, k, c, fs).
          case err of
            Some err \<Rightarrow> Return (Inl (WWrapped ''failed to initialize account store'' err), c, fs)
          | None \<Rightarrow> Return (Inr k, c, fs))"

section \<open>Signing and verifying\<close>

definition Sign ::
  "('fr, 'sk, 'pk, 'sig) bls12 \<Rightarrow> (SlotInfo \<Rightarrow> byte list) \<Rightarrow> 'sk keycache \<Rightarrow> Keymanager \<Rightarrow> SlotInfo \<Rightarrow> uint64
     \<Rightarrow> (wallet_error + 'sig) outcome" where
  "Sign L hash c km slotInfo pubKeyIndex =
     (let slotInfoHash = hash slotInfo; keys = store_PublicKeys (accountsStore km) in
      if unat pubKeyIndex \<ge> length keys then Panic IndexOutOfRange
      else
        (case keys ! unat pubKeyIndex of
           None \<Rightarrow> Return (Inl (WPlain ''nil public key in request''))
         | Some publicKey \<Rightarrow>
             (case secretKeysCache c (ToBytes48 publicKey) of
                None \<Rightarrow> Return (Inl (WPlain ''no signing key found in keys cache''))
              | Some secretKey \<Rightarrow> Return (Inr (sk_Sign L secretKey slotInfoHash)))))"

definition VerifySignature ::
  "('fr, 'sk, 'pk, 'sig) bls12 \<Rightarrow> (byte list \<Rightarrow> bool) \<Rightarrow> (SlotInfo \<Rightarrow> byte list) \<Rightarrow> Keymanager \<Rightarrow> SlotInfo \<Rightarrow> uint64 \<Rightarrow> 'sig
     \<Rightarrow> 'pk keystate \<Rightarrow> (wallet_error option \<times> 'pk keystate) outcome" where
  "VerifySignature L keep hash km slotInfo pubKeyIndex signature st =
     (let slotInfoHash = hash slotInfo; keys = store_PublicKeys (accountsStore km) in
      if unat pubKeyIndex \<ge> length keys then Panic IndexOutOfRange
      else
        outcome_bind (PublicKeyFromBytes L keep (case keys ! unat pubKeyIndex of None \<Rightarrow> [] | Some b \<Rightarrow> b) st) (\<lambda>(r, st).
          case r of
            Inl err \<Rightarrow> Return (Some (WPlain ''could not convert bytes to public key''), st)
          | Inr publicKey \<Rightarrow>
              outcome_bind (Verify L signature publicKey slotInfoHash st) (\<lambda>ok.
                Return (if ok then None else Some (WPlain ''signature did not verify''), st))))"

section \<open>The caches\<close>

definition key48 :: "byte list option \<Rightarrow> byte list" where
  "key48 publicKey = ToBytes48 (case publicKey of None \<Rightarrow> [] | Some b \<Rightarrow> b)"

text \<open>The caches agree with the store: every public key finds the secret key at its position.\<close>

definition caches_ok :: "('fr, 'sk, 'pk, 'sig) bls12 \<Rightarrow> Keymanager \<Rightarrow> 'sk keycache \<Rightarrow> bool" where
  "caches_ok L km c \<longleftrightarrow>
     (let pubs = store_PublicKeys (accountsStore km); privs = PrivateKeys (accountsStore km) in
      length pubs = length privs
      \<and> (pubs \<noteq> [] \<longrightarrow> orderedPublicKeys c = map key48 pubs)
      \<and> (distinct (map key48 pubs) \<longrightarrow>
           (\<forall>k < length pubs. \<exists>sk. SecretKeyFromBytes L (privs ! k) = Inr sk \<and> secretKeysCache c (key48 (pubs ! k)) = Some sk)))"

lemma fill_caches_ok:
  assumes "fill_caches L i pubs privs c = Return (None, c')" and "length (orderedPublicKeys c) = i + length pubs"
  shows "orderedPublicKeys c' = take i (orderedPublicKeys c) @ map key48 pubs
    \<and> (\<forall>b. b \<notin> set (map key48 pubs) \<longrightarrow> secretKeysCache c' b = secretKeysCache c b)
    \<and> (distinct (map key48 pubs) \<longrightarrow>
        (\<forall>k < length pubs. \<exists>sk. SecretKeyFromBytes L (privs ! (i + k)) = Inr sk \<and> secretKeysCache c' (key48 (pubs ! k)) = Some sk))"
  using assms
proof (induction L i pubs privs c rule: fill_caches.induct)
  case (2 L i publicKey pubs privs c)
  let ?b = "key48 publicKey"
  let ?c1 = "c\<lparr>orderedPublicKeys := (orderedPublicKeys c)[i := ?b]\<rparr>"
  have i: "i < length (orderedPublicKeys c)" using 2(3) by simp
  have p: "i < length privs" using 2(2) i by (auto simp: Let_def split: if_splits)
  obtain sk where sk: "SecretKeyFromBytes L (privs ! i) = Inr sk"
    using 2(2) i p by (auto simp: Let_def split: sum.splits)
  let ?c2 = "?c1\<lparr>secretKeysCache := (secretKeysCache c)(?b \<mapsto> sk)\<rparr>"
  have run: "fill_caches L (Suc i) pubs privs ?c2 = Return (None, c')"
    using 2(2) i p sk by (simp add: Let_def key48_def)
  have IH: "orderedPublicKeys c' = take (Suc i) (orderedPublicKeys ?c2) @ map key48 pubs"
    "\<forall>b. b \<notin> set (map key48 pubs) \<longrightarrow> secretKeysCache c' b = secretKeysCache ?c2 b"
    "distinct (map key48 pubs) \<longrightarrow>
      (\<forall>k < length pubs. \<exists>sk. SecretKeyFromBytes L (privs ! (Suc i + k)) = Inr sk \<and> secretKeysCache c' (key48 (pubs ! k)) = Some sk)"
    using 2(1) [OF refl _ refl _ sk, folded key48_def] run i p 2(3) by simp_all
  have "orderedPublicKeys c' = take i (orderedPublicKeys c) @ map key48 (publicKey # pubs)"
    using IH(1) i by (simp add: take_Suc_conv_app_nth)
  moreover have "\<exists>sk. SecretKeyFromBytes L (privs ! (i + k)) = Inr sk \<and> secretKeysCache c' (key48 ((publicKey # pubs) ! k)) = Some sk"
    if "distinct (map key48 (publicKey # pubs))" "k < length (publicKey # pubs)" for k
  proof (cases k)
    case 0
    then show ?thesis using sk IH(2) that(1) by simp
  next
    case (Suc j)
    then show ?thesis using IH(3) that by simp
  qed
  ultimately show ?case using IH(2) by auto
qed simp

lemma NewKeymanager_caches:
  assumes "NewKeymanager E w c fs = Return (Inr km, c', fs')"
  shows "caches_ok (km_bls E) km c'"
proof -
  have empty: "caches_ok (km_bls E) \<lparr>km_wallet = w, accountsStore = \<lparr>PrivateKeys = [], store_PublicKeys = []\<rparr>, disabledPublicKeys = d\<rparr> c" for d c
    by (simp add: caches_ok_def)
  have store: "caches_ok (km_bls E) k c'" if "use_store E store dis k0 c = Return (None, k, c')"
    "accountsStore k0 = \<lparr>PrivateKeys = [], store_PublicKeys = []\<rparr>" for store dis k0 k c c'
  proof (cases "length (store_PublicKeys store) = 0")
    case True
    then show ?thesis using that by (auto simp: use_store_def caches_ok_def split: if_splits)
  next
    case False
    obtain ok d where d: "disable_keys dis (disabledPublicKeys k0) = (ok, d)" by (cases "disable_keys dis (disabledPublicKeys k0)")
    let ?k = "k0\<lparr>accountsStore := store, disabledPublicKeys := d\<rparr>"
    have len: "length (store_PublicKeys store) = length (PrivateKeys store)"
      using that(1) by (auto simp: use_store_def split: if_splits)
    have "outcome_bind (initializeKeysCachesFromKeystore (km_bls E) ?k) (\<lambda>(err, c). case err of
        Some err \<Rightarrow> Return (Some (WWrapped ''failed to initialize keys caches'' err), ?k, c) | None \<Rightarrow> Return (None, ?k, c))
      = Return (None, k, c')"
      using that(1) False len d by (simp add: use_store_def Let_def split: if_splits)
    then have i: "initializeKeysCachesFromKeystore (km_bls E) ?k = Return (None, c')" and k: "k = ?k"
      by (auto simp: outcome_bind_Return_iff split: option.splits)
    show ?thesis
      using fill_caches_ok [OF i [unfolded initializeKeysCachesFromKeystore_def Let_def]] len k by (simp add: caches_ok_def)
  qed
  show ?thesis
    using assms empty store
    by (auto simp: NewKeymanager_def initializeAccountKeystore_def outcome_bind_Return_iff
        split: option.splits prod.splits sum.splits if_splits)
qed

section \<open>What a signature shows\<close>

lemma VerifySignature_decodes:
  assumes "cache_ok L st" and "unat i < length (store_PublicKeys (accountsStore km))"
    and "store_PublicKeys (accountsStore km) ! unat i = Some pub" and "decode_key L pub = Inr p" and "\<not> pk_IsZero L p"
  shows "\<exists>st'. VerifySignature L keep hash km s i sig st
    = Return (if VerifyByte L sig p (hash s) then None else Some (WPlain ''signature did not verify''), st')"
proof -
  from PublicKeyFromBytes_decodes [OF assms(1), of keep pub] obtain r st' where
    r: "PublicKeyFromBytes L keep pub st = Return (r, st')"
    "case r of Inl err \<Rightarrow> decode_key L pub = Inl err
       | Inr a \<Rightarrow> key_next st \<le> a \<and> (\<exists>p. decode_key L pub = Inr p \<and> owned a p st')" by blast
  then obtain a where a: "r = Inr a" "key_objs st' a = Some p" using assms(4) by (cases r) (auto simp: owned_def)
  then show ?thesis using r(1) assms by (simp add: VerifySignature_def Verify_def Let_def)
qed

lemma decode_key_nonzero: "decode_key L pub = Inr p \<Longrightarrow> \<not> pk_IsZero L p"
  by (auto simp: decode_key_def split: if_splits option.splits)

text \<open>
  C18. A key manager that was created signs with the secret key at the position of the given public key,
  and its signature verifies under the same index: for a store whose public keys are different and
  belong to the secret keys, and a library whose signatures verify under the key of their signer,
  whatever the state of the cache of public keys is.
\<close>

theorem Sign_then_VerifySignature:
  assumes "NewKeymanager E w c0 fs = Return (Inr km, c, fs')" and "L = km_bls E"
    and "distinct (map key48 (store_PublicKeys (accountsStore km)))"
    and "unat i < length (store_PublicKeys (accountsStore km))"
    and "store_PublicKeys (accountsStore km) ! unat i = Some pub"
    and "\<forall>sk. SecretKeyFromBytes L (PrivateKeys (accountsStore km) ! unat i) = Inr sk \<longrightarrow> decode_key L pub = Inr (GetPublicKey L sk)"
    and "\<forall>sk m. \<not> sk_IsZero L sk \<longrightarrow> VerifyByte L (SignByte L sk m) (GetPublicKey L sk) m"
    and "cache_ok L st"
  shows "\<exists>sig st'. Sign L hash c km s i = Return (Inr sig) \<and> VerifySignature L keep hash km s i sig st = Return (None, st')"
proof -
  have "caches_ok L km c" using NewKeymanager_caches [OF assms(1)] assms(2) by simp
  then obtain sk where sk: "SecretKeyFromBytes L (PrivateKeys (accountsStore km) ! unat i) = Inr sk"
    "secretKeysCache c (ToBytes48 pub) = Some sk"
    using assms(3-5) by (force simp: caches_ok_def Let_def key48_def)
  have nz: "\<not> sk_IsZero L sk" using sk(1) by (auto simp: SecretKeyFromBytes_def split: if_splits option.splits)
  have dec: "decode_key L pub = Inr (GetPublicKey L sk)" using assms(6) sk(1) by blast
  have sign: "Sign L hash c km s i = Return (Inr (SignByte L sk (hash s)))"
    using assms(4,5) sk(2) by (simp add: Sign_def Let_def)
  from VerifySignature_decodes [OF assms(8,4,5) dec decode_key_nonzero [OF dec], where keep = keep and hash = hash and s = s and sig = "SignByte L sk (hash s)"]
  show ?thesis using sign assms(7) nz by auto
qed

definition demo_store :: accountStore where
  "demo_store = \<lparr>PrivateKeys = [3 # replicate 31 0, 4 # replicate 31 0],
     store_PublicKeys = [Some (3 # replicate 47 0), Some (4 # replicate 47 0)]\<rparr>"

definition demo_km_env :: "(unit, nat, nat, nat, nat) km_env" where
  "demo_km_env = \<lparr>km_proc = demo_proc ''/'', km_glob = (\<lambda>_ _. Inr []), unmarshal_keystore = (\<lambda>_. Inr \<lparr>Crypto = (), DisabledPublicKeys = []\<rparr>),
     Decrypt = (\<lambda>_ _. Inr []), unmarshal_store = (\<lambda>_. Inr demo_store), km_bls = demo_bls\<rparr>"

definition demo_keys_fs :: fs where
  "demo_keys_fs = [([], Dir 0x1ED), ([''w''], Dir 0x1C0), ([''w'', ''direct''], Dir 0x1C0), ([''w'', ''direct'', ''accounts''], Dir 0x1C0),
     ([''w'', ''direct'', ''accounts'', ''all-accounts.keystore.json''], File 0x180 [1])]"

definition demo_open_wallet :: Wallet where
  "demo_open_wallet = \<lparr>walletDir = ''/w'', accountsPath = ''/w/direct'', configFilePath = [], walletPassword = ''pw'', keymanagerKind = Imported\<rparr>"

definition no_keys :: "'sk keycache" where
  "no_keys = \<lparr>orderedPublicKeys = [], secretKeysCache = Map.empty\<rparr>"

lemma demo_keymanager_of:
  assumes "ReadFileAtPath (\<lambda>_ _. Inr []) (demo_proc ''/'') w AccountsPath AccountsKeystoreFileName fs = (Inr [1], fs)"
  shows "\<exists>km c. NewKeymanager demo_km_env w no_keys fs = Return (Inr km, c, fs) \<and> accountsStore km = demo_store"
proof -
  let ?km = "\<lparr>km_wallet = w, accountsStore = demo_store, disabledPublicKeys = {}\<rparr>"
  have sk: "SecretKeyFromBytes demo_bls (3 # replicate 31 0) = Inr 3" "SecretKeyFromBytes demo_bls (4 # replicate 31 0) = Inr 4"
    by (simp_all add: SecretKeyFromBytes_def demo_bls_def)
  have len: "length (store_PublicKeys demo_store) = 2" "length (PrivateKeys demo_store) = 2"
    "store_PublicKeys demo_store = [Some (3 # replicate 47 0), Some (4 # replicate 47 0)]"
    "PrivateKeys demo_store = [3 # replicate 31 0, 4 # replicate 31 0]" by (simp_all add: demo_store_def)
  obtain c where "initializeKeysCachesFromKeystore demo_bls ?km = Return (None, c)"
    using sk by (simp add: initializeKeysCachesFromKeystore_def len Let_def)
  then have "use_store demo_km_env demo_store [] \<lparr>km_wallet = w, accountsStore = \<lparr>PrivateKeys = [], store_PublicKeys = []\<rparr>, disabledPublicKeys = {}\<rparr> no_keys
      = Return (None, ?km, c)"
    by (simp add: use_store_def len(1,2) Let_def demo_km_env_def)
  then have "NewKeymanager demo_km_env w no_keys fs = Return (Inr ?km, c, fs)"
    using assms by (simp add: NewKeymanager_def initializeAccountKeystore_def demo_km_env_def)
  then show ?thesis by auto
qed

lemma demo_keymanager:
  "\<exists>km c. NewKeymanager demo_km_env demo_open_wallet no_keys demo_keys_fs = Return (Inr km, c, demo_keys_fs) \<and> accountsStore km = demo_store"
  by (rule demo_keymanager_of) code_simp

theorem Sign_then_VerifySignature_witness:
  "\<exists>km c sig st'. NewKeymanager demo_km_env demo_open_wallet no_keys demo_keys_fs = Return (Inr km, c, demo_keys_fs)
     \<and> Sign demo_bls (\<lambda>_. [1, 2]) c km (NewSlotInfo 2 64 5454) 1 = Return (Inr sig)
     \<and> VerifySignature demo_bls (\<lambda>_. True) (\<lambda>_. [1, 2]) km (NewSlotInfo 2 64 5454) 1 sig empty_keys = Return (None, st')"
proof -
  obtain km c where k: "NewKeymanager demo_km_env demo_open_wallet no_keys demo_keys_fs = Return (Inr km, c, demo_keys_fs)"
    "accountsStore km = demo_store" using demo_keymanager by blast
  have L: "demo_bls = km_bls demo_km_env" by (simp add: demo_km_env_def)
  have d: "distinct (map key48 (store_PublicKeys (accountsStore km)))" unfolding k(2) by code_simp
  have i: "unat (1 :: uint64) < length (store_PublicKeys (accountsStore km))" by (simp add: k(2) demo_store_def)
  have p: "store_PublicKeys (accountsStore km) ! unat (1 :: uint64) = Some (4 # replicate 47 0)" by (simp add: k(2) demo_store_def)
  have m: "\<forall>sk. SecretKeyFromBytes demo_bls (PrivateKeys (accountsStore km) ! unat (1 :: uint64)) = Inr sk
      \<longrightarrow> decode_key demo_bls (4 # replicate 47 0) = Inr (GetPublicKey demo_bls sk)"
    by (auto simp: k(2) demo_store_def SecretKeyFromBytes_def decode_key_def demo_bls_def)
  have v: "\<forall>sk m. \<not> sk_IsZero demo_bls sk \<longrightarrow> VerifyByte demo_bls (SignByte demo_bls sk m) (GetPublicKey demo_bls sk) m"
    by (simp add: demo_bls_def)
  have ok: "cache_ok demo_bls empty_keys" by (simp add: cache_ok_def empty_keys_def)
  from Sign_then_VerifySignature [OF k(1) L d i p m v ok, where hash = "\<lambda>_. [1, 2]" and s = "NewSlotInfo 2 64 5454" and keep = "\<lambda>_. True"]
  show ?thesis using k(1) by blast
qed


definition demo_km :: Keymanager where
  "demo_km = \<lparr>km_wallet = demo_open_wallet, accountsStore = demo_store, disabledPublicKeys = {}\<rparr>"


text \<open>\<open>DecodeRLP\<close> never returns, and disabled keys sign like the others.\<close>

lemma DecodeRLP_never_returns: "DecodeRLP n rlpData s = None"
  by (induction n arbitrary: s) simp_all

lemma Sign_ignores_disabled: "Sign L hash c (km\<lparr>disabledPublicKeys := d\<rparr>) s i = Sign L hash c km s i"
  by (simp add: Sign_def)

end
