(* ===== verification/Account_Example.thy ===== *)
theory Account_Example
  imports Keymanager
begin

text \<open>
  The example program of the account manager (\<open>main.go\<close>): it opens the wallet of the working directory, sets
  up its key manager, signs a slot information with one key and verifies the signature with another.
\<close>

section \<open>The program\<close>

definition main_config :: Config where
  "main_config = \<lparr>WalletDir = ''./wallet/prysm-wallet-v2'', KeymanagerKind = 0, WalletPassword = ''Konasl@123''\<rparr>"

definition main_slot :: SlotInfo where
  "main_slot = NewSlotInfo 2 64 5454"

definition signerPubKeyIndex :: uint64 where "signerPubKeyIndex = 1"

definition verifierPubKeyIndex :: uint64 where "verifierPubKeyIndex = 0"

text \<open>Where the program ends, with the error it logs.\<close>

datatype main_end =
    OpenFailed wallet_error
  | KeymanagerFailed wallet_error
  | SignFailed wallet_error
  | VerifyFailed wallet_error
  | Verified

text \<open>The caches of the packages are empty when the program starts; \<open>st\<close> is that of public keys.\<close>

definition account_main ::
  "(string list \<Rightarrow> string list) \<Rightarrow> ('c, 'fr, 'sk, 'pk, 'sig) km_env \<Rightarrow> (byte list \<Rightarrow> bool) \<Rightarrow> (SlotInfo \<Rightarrow> byte list)
     \<Rightarrow> 'sk keycache \<Rightarrow> 'pk keystate \<Rightarrow> fs \<Rightarrow> main_end outcome" where
  "account_main order E keep hash c st fs =
     (case OpenWallet order (km_proc E) fs main_config of
        Inl err \<Rightarrow> Return (OpenFailed err)
      | Inr wallet \<Rightarrow>
          outcome_bind (NewKeymanager E wallet c fs) (\<lambda>(r, c, fs).
            case r of
              Inl err \<Rightarrow> Return (KeymanagerFailed err)
            | Inr keyManager \<Rightarrow>
                outcome_bind (Sign (km_bls E) hash c keyManager main_slot signerPubKeyIndex) (\<lambda>r.
                  case r of
                    Inl err \<Rightarrow> Return (SignFailed err)
                  | Inr signature \<Rightarrow>
                      outcome_bind (VerifySignature (km_bls E) keep hash keyManager main_slot verifierPubKeyIndex signature st) (\<lambda>(err, _).
                        Return (case err of Some err \<Rightarrow> VerifyFailed err | None \<Rightarrow> Verified)))))"

section \<open>How it ends\<close>

lemma sign_index: "unat signerPubKeyIndex = 1" "unat verifierPubKeyIndex = 0"
  by (simp_all add: signerPubKeyIndex_def verifierPubKeyIndex_def)

lemma account_main_short_store:
  assumes "OpenWallet order (km_proc E) fs main_config = Inr w" and "NewKeymanager E w c fs = Return (Inr km, c', fs')"
    and "length (store_PublicKeys (accountsStore km)) < 2"
  shows "account_main order E keep hash c st fs = Panic IndexOutOfRange"
  using assms by (simp add: account_main_def Sign_def sign_index)

lemma NewKeymanager_no_accounts:
  assumes "ReadFileAtPath (km_glob E) (km_proc E) w AccountsPath AccountsKeystoreFileName fs = (Inl err, fs')"
    and "Contains (wallet_error_text err) ''no files found''"
  shows "\<exists>km. NewKeymanager E w c fs = Return (Inr km, c, fs') \<and> store_PublicKeys (accountsStore km) = []"
  using assms by (simp add: NewKeymanager_def initializeAccountKeystore_def)

text \<open>
  A wallet without accounts opens and gets a key manager, which has no keys; the program then ends with
  an index out of range, because \<open>Sign\<close> does not check the index.
\<close>

theorem account_main_no_accounts:
  assumes "OpenWallet order (km_proc E) fs main_config = Inr w"
    and "ReadFileAtPath (km_glob E) (km_proc E) w AccountsPath AccountsKeystoreFileName fs = (Inl err, fs')"
    and "Contains (wallet_error_text err) ''no files found''"
  shows "account_main order E keep hash c st fs = Panic IndexOutOfRange"
  using NewKeymanager_no_accounts [OF assms(2,3)] account_main_short_store [OF assms(1)] by fastforce

text \<open>
  With two different keys whose public keys belong to them, the program signs with the second, verifies with the first, and
  ends with the error that the signature did not verify: for a library whose signatures verify under the signer's key and no other.
\<close>

theorem account_main_rejects:
  assumes "OpenWallet order (km_proc E) fs main_config = Inr w" and "NewKeymanager E w c0 fs = Return (Inr km, c, fs')"
    and "L = km_bls E" and "distinct (map key48 (store_PublicKeys (accountsStore km)))"
    and "store_PublicKeys (accountsStore km) = Some pub0 # Some pub1 # pubs"
    and "\<forall>sk. SecretKeyFromBytes L (PrivateKeys (accountsStore km) ! 1) = Inr sk \<longrightarrow> decode_key L pub1 = Inr (GetPublicKey L sk)"
    and "decode_key L pub0 = Inr p0" and "decode_key L pub1 \<noteq> Inr p0"
    and "\<forall>sk p m. VerifyByte L (SignByte L sk m) p m \<longleftrightarrow> p = GetPublicKey L sk" and "cache_ok L st"
  shows "account_main order E keep hash c0 st fs = Return (VerifyFailed (WPlain ''signature did not verify''))"
proof -
  have "caches_ok L km c" using NewKeymanager_caches [OF assms(2)] assms(3) by simp
  then obtain sk where sk: "SecretKeyFromBytes L (PrivateKeys (accountsStore km) ! 1) = Inr sk"
    "secretKeysCache c (ToBytes48 pub1) = Some sk"
    using assms(4,5) by (force simp: caches_ok_def Let_def key48_def)
  have sign: "Sign L hash c km main_slot signerPubKeyIndex = Return (Inr (SignByte L sk (hash main_slot)))"
    using assms(5) sk(2) by (simp add: Sign_def sign_index Let_def)
  have "p0 \<noteq> GetPublicKey L sk" using assms(6,8) sk(1) by metis
  then have reject: "\<not> VerifyByte L (SignByte L sk (hash main_slot)) p0 (hash main_slot)" using assms(9) by blast
  obtain st' where "VerifySignature L keep hash km main_slot verifierPubKeyIndex (SignByte L sk (hash main_slot)) st
      = Return (Some (WPlain ''signature did not verify''), st')"
    using VerifySignature_decodes [OF assms(10), of verifierPubKeyIndex km pub0 p0 keep hash main_slot "SignByte L sk (hash main_slot)"]
      assms(5) decode_key_nonzero [OF assms(7)] reject by (auto simp: sign_index assms(7))
  then show ?thesis using assms(1-3) sign by (simp add: account_main_def)
qed

section \<open>Examples\<close>

text \<open>A wallet below the root, which is the working directory: without accounts, and with the two keys of the example store.\<close>

definition bare_fs :: fs where
  "bare_fs = [([], Dir 0x1ED), ([''wallet''], Dir 0x1C0), ([''wallet'', ''prysm-wallet-v2''], Dir 0x1C0),
     ([''wallet'', ''prysm-wallet-v2'', ''direct''], Dir 0x1C0), ([''wallet'', ''prysm-wallet-v2'', ''direct'', ''accounts''], Dir 0x1C0)]"

definition keys_fs :: fs where
  "keys_fs = bare_fs @ [([''wallet'', ''prysm-wallet-v2'', ''direct'', ''accounts'', ''all-accounts.keystore.json''], File 0x180 [1])]"

definition main_wallet :: Wallet where
  "main_wallet = \<lparr>walletDir = ''./wallet/prysm-wallet-v2'', accountsPath = ''wallet/prysm-wallet-v2/direct'', configFilePath = [],
     walletPassword = ''Konasl@123'', keymanagerKind = 0\<rparr>"

lemma open_main_wallet:
  "OpenWallet (\<lambda>xs. xs) (demo_proc ''/'') bare_fs main_config = Inr main_wallet"
  "OpenWallet (\<lambda>xs. xs) (demo_proc ''/'') keys_fs main_config = Inr main_wallet"
  by code_simp+

lemma read_main_wallet:
  "ReadFileAtPath (\<lambda>_ _. Inr []) (demo_proc ''/'') main_wallet AccountsPath AccountsKeystoreFileName bare_fs
     = (Inl (WPlain ''no files found in path: wallet/prysm-wallet-v2/direct/accounts/all-accounts.keystore.json''), bare_fs)"
  "ReadFileAtPath (\<lambda>_ _. Inr []) (demo_proc ''/'') main_wallet AccountsPath AccountsKeystoreFileName keys_fs = (Inr [1], keys_fs)"
  by code_simp+

theorem account_main_no_accounts_witness:
  "account_main (\<lambda>xs. xs) demo_km_env (\<lambda>_. True) (\<lambda>_. [1, 2]) no_keys empty_keys bare_fs = Panic IndexOutOfRange"
proof (rule account_main_no_accounts)
  show "OpenWallet (\<lambda>xs. xs) (km_proc demo_km_env) bare_fs main_config = Inr main_wallet"
    by (simp add: demo_km_env_def open_main_wallet)
  show "ReadFileAtPath (km_glob demo_km_env) (km_proc demo_km_env) main_wallet AccountsPath AccountsKeystoreFileName bare_fs
      = (Inl (WPlain ''no files found in path: wallet/prysm-wallet-v2/direct/accounts/all-accounts.keystore.json''), bare_fs)"
    by (simp add: demo_km_env_def read_main_wallet)
  show "Contains (wallet_error_text (WPlain ''no files found in path: wallet/prysm-wallet-v2/direct/accounts/all-accounts.keystore.json'')) ''no files found''"
    by code_simp
qed

theorem account_main_rejects_witness:
  "account_main (\<lambda>xs. xs) demo_km_env (\<lambda>_. True) (\<lambda>_. [1, 2]) no_keys empty_keys keys_fs
     = Return (VerifyFailed (WPlain ''signature did not verify''))"
proof -
  obtain km c where km: "NewKeymanager demo_km_env main_wallet no_keys keys_fs = Return (Inr km, c, keys_fs)" "accountsStore km = demo_store"
    using demo_keymanager_of [OF read_main_wallet(2)] by blast
  have 1: "OpenWallet (\<lambda>xs. xs) (km_proc demo_km_env) keys_fs main_config = Inr main_wallet"
    by (simp add: demo_km_env_def open_main_wallet)
  have 2: "demo_bls = km_bls demo_km_env" by (simp add: demo_km_env_def)
  have 3: "distinct (map key48 (store_PublicKeys (accountsStore km)))" unfolding km(2) by code_simp
  have 4: "store_PublicKeys (accountsStore km) = Some (3 # replicate 47 0) # Some (4 # replicate 47 0) # []" by (simp add: km(2) demo_store_def)
  have 5: "\<forall>sk. SecretKeyFromBytes demo_bls (PrivateKeys (accountsStore km) ! 1) = Inr sk
      \<longrightarrow> decode_key demo_bls (4 # replicate 47 0) = Inr (GetPublicKey demo_bls sk)"
    by (auto simp: km(2) demo_store_def SecretKeyFromBytes_def decode_key_def demo_bls_def)
  have 6: "decode_key demo_bls (3 # replicate 47 0) = Inr 3" "decode_key demo_bls (4 # replicate 47 0) \<noteq> Inr 3"
    by (simp_all add: decode_key_def demo_bls_def)
  have 7: "\<forall>sk p m. VerifyByte demo_bls (SignByte demo_bls sk m) p m \<longleftrightarrow> p = GetPublicKey demo_bls sk"
    by (auto simp: demo_bls_def)
  have 8: "cache_ok demo_bls empty_keys" by (simp add: cache_ok_def empty_keys_def)
  from account_main_rejects [OF 1 km(1) 2 3 4 5 6 7 8] show ?thesis .
qed

end
