(* ===== verification/Route_Guide.thy ===== *)
theory Route_Guide
  imports Json Go_Path
begin

text \<open>
  The route guide service (\<open>route_guide/server/server.go\<close>): looking up and listing features, recording a
  route and the chat. Messages come from clients, so that any of their parts may be missing. The
  great-circle distance is an argument here (\<open>Route_Distance\<close> defines it), as is the elapsed time.
\<close>

section \<open>Messages and state\<close>

type_synonym int32 = "32 word"

record Point =
  Latitude :: int32
  Longitude :: int32

record Rectangle =
  Lo :: "Point option"
  Hi :: "Point option"

record Feature =
  Name :: string
  Location :: "Point option"

record RouteNote =
  note_Location :: "Point option"
  note_Message :: string

record RouteSummary =
  PointCount :: int32
  FeatureCount :: int32
  Distance :: int32
  ElapsedTime :: int32

record routeGuideServer =
  savedFeatures :: "Feature list"
  routeNotes :: "string \<Rightarrow> RouteNote list"

text \<open>What a stream delivers: values, then the end of the stream or an error.\<close>

datatype stream_end = StreamEOF | StreamError string

section \<open>Features\<close>

fun find_feature :: "Feature list \<Rightarrow> Point \<Rightarrow> Feature option" where
  "find_feature [] point = None"
| "find_feature (feature # fs) point =
     (if Location feature = Some point then Some feature else find_feature fs point)"

definition GetFeature :: "routeGuideServer \<Rightarrow> Point \<Rightarrow> Feature" where
  "GetFeature s point =
     (case find_feature (savedFeatures s) point of
        Some feature \<Rightarrow> feature
      | None \<Rightarrow> \<lparr>Name = [], Location = Some point\<rparr>)"

text \<open>
  \<open>inRange\<close> compares 32-bit integers converted to \<open>float64\<close>, which is exact, so that integers can be
  compared instead. Missing parts are nil pointers.
\<close>

definition inRange :: "Point option \<Rightarrow> Rectangle \<Rightarrow> bool outcome" where
  "inRange point rect =
     (case (Lo rect, Hi rect, point) of
        (Some lo, Some hi, Some p) \<Rightarrow>
          (let left = min (sint (Longitude lo)) (sint (Longitude hi));
               right = max (sint (Longitude lo)) (sint (Longitude hi));
               top = max (sint (Latitude lo)) (sint (Latitude hi));
               bottom = min (sint (Latitude lo)) (sint (Latitude hi)) in
           Return (sint (Longitude p) \<ge> left \<and> sint (Longitude p) \<le> right \<and> sint (Latitude p) \<ge> bottom \<and> sint (Latitude p) \<le> top))
      | _ \<Rightarrow> Panic NilDereference)"

text \<open>The k-th \<open>Send\<close> may fail: \<open>send_err k\<close>. The result has what was sent and the error.\<close>

fun list_features ::
  "(nat \<Rightarrow> string option) \<Rightarrow> Rectangle \<Rightarrow> Feature list \<Rightarrow> Feature list \<Rightarrow> (string option \<times> Feature list) outcome" where
  "list_features send_err rect [] sent = Return (None, sent)"
| "list_features send_err rect (feature # fs) sent =
     outcome_bind (inRange (Location feature) rect) (\<lambda>hit.
       if hit then
         (case send_err (length sent) of
            Some err \<Rightarrow> Return (Some err, sent)
          | None \<Rightarrow> list_features send_err rect fs (sent @ [feature]))
       else list_features send_err rect fs sent)"

definition ListFeatures ::
  "(nat \<Rightarrow> string option) \<Rightarrow> routeGuideServer \<Rightarrow> Rectangle \<Rightarrow> (string option \<times> Feature list) outcome" where
  "ListFeatures send_err s rect = list_features send_err rect (savedFeatures s) []"

section \<open>Routes\<close>

fun count_features :: "Feature list \<Rightarrow> Point \<Rightarrow> int32 \<Rightarrow> int32" where
  "count_features [] point n = n"
| "count_features (feature # fs) point n = count_features fs point (if Location feature = Some point then n + 1 else n)"

fun record_points ::
  "(Point \<Rightarrow> Point \<Rightarrow> int32) \<Rightarrow> Feature list \<Rightarrow> Point list \<Rightarrow> int32 \<times> int32 \<times> int32 \<times> Point option \<Rightarrow> int32 \<times> int32 \<times> int32" where
  "record_points calcDistance fs [] (pointCount, featureCount, distance, lastPoint) = (pointCount, featureCount, distance)"
| "record_points calcDistance fs (point # ps) (pointCount, featureCount, distance, lastPoint) =
     record_points calcDistance fs ps
       (pointCount + 1, count_features fs point featureCount,
        (case lastPoint of None \<Rightarrow> distance | Some l \<Rightarrow> distance + calcDistance l point), Some point)"

definition RecordRoute ::
  "(Point \<Rightarrow> Point \<Rightarrow> int32) \<Rightarrow> int32 \<Rightarrow> routeGuideServer \<Rightarrow> Point list \<Rightarrow> stream_end \<Rightarrow> string + RouteSummary" where
  "RecordRoute calcDistance elapsed s points ending =
     (case ending of
        StreamError err \<Rightarrow> Inl err
      | StreamEOF \<Rightarrow>
          (let (pointCount, featureCount, distance) = record_points calcDistance (savedFeatures s) points (0, 0, 0, None) in
           Inr \<lparr>PointCount = pointCount, FeatureCount = featureCount, Distance = distance, ElapsedTime = elapsed\<rparr>))"

section \<open>The chat\<close>

definition serialize :: "Point option \<Rightarrow> string outcome" where
  "serialize point =
     (case point of
        None \<Rightarrow> Panic NilDereference
      | Some p \<Rightarrow> Return (dec_int (sint (Latitude p)) @ CHR '' '' # dec_int (sint (Longitude p))))"

text \<open>
  What a client's loop does with one note while it holds the lock: the note is appended, and the copy is
  what the client is sent after the lock is released.
\<close>

definition chat_note :: "routeGuideServer \<Rightarrow> RouteNote \<Rightarrow> (RouteNote list \<times> routeGuideServer) outcome" where
  "chat_note s note =
     outcome_bind (serialize (note_Location note)) (\<lambda>key.
       let s = s\<lparr>routeNotes := (routeNotes s)(key := routeNotes s key @ [note])\<rparr> in
       Return (routeNotes s key, s))"

text \<open>The notes of all clients in the order in which they take the lock, with what each is answered.\<close>

fun chat_run :: "routeGuideServer \<Rightarrow> RouteNote list \<Rightarrow> (RouteNote list list \<times> routeGuideServer) outcome" where
  "chat_run s [] = Return ([], s)"
| "chat_run s (note # notes) =
     outcome_bind (chat_note s note) (\<lambda>(rn, s).
       outcome_bind (chat_run s notes) (\<lambda>(rns, s). Return (rn # rns, s)))"

text \<open>One client alone: it stops at the first \<open>Send\<close> that fails.\<close>

fun send_notes :: "(nat \<Rightarrow> string option) \<Rightarrow> RouteNote list \<Rightarrow> RouteNote list \<Rightarrow> string option \<times> RouteNote list" where
  "send_notes send_err [] sent = (None, sent)"
| "send_notes send_err (note # rn) sent =
     (case send_err (length sent) of
        Some err \<Rightarrow> (Some err, sent)
      | None \<Rightarrow> send_notes send_err rn (sent @ [note]))"

fun RouteChat ::
  "(nat \<Rightarrow> string option) \<Rightarrow> RouteNote list \<Rightarrow> stream_end \<Rightarrow> routeGuideServer \<Rightarrow> RouteNote list
     \<Rightarrow> (string option \<times> RouteNote list \<times> routeGuideServer) outcome" where
  "RouteChat send_err [] ending s sent =
     Return (case ending of StreamEOF \<Rightarrow> None | StreamError err \<Rightarrow> Some err, sent, s)"
| "RouteChat send_err (note # notes) ending s sent =
     outcome_bind (chat_note s note) (\<lambda>(rn, s).
       case send_notes send_err rn sent of
         (Some err, sent) \<Rightarrow> Return (Some err, sent, s)
       | (None, sent) \<Rightarrow> RouteChat send_err notes ending s sent)"

section \<open>The server\<close>

definition feature_at :: "string \<Rightarrow> int32 \<Rightarrow> int32 \<Rightarrow> Feature" where
  "feature_at nam lat long = \<lparr>Name = nam, Location = Some \<lparr>Latitude = lat, Longitude = long\<rparr>\<rparr>"

text \<open>The built-in JSON data, as it decodes, in four parts.\<close>

definition exampleData_1 :: "Feature list" where
  "exampleData_1 =
     [feature_at ''Patriots Path, Mendham, NJ 07945, USA'' (407838351) (-746143763),
      feature_at ''101 New Jersey 10, Whippany, NJ 07981, USA'' (408122808) (-743999179),
      feature_at ''U.S. 6, Shohola, PA 18458, USA'' (413628156) (-749015468),
      feature_at ''5 Conners Road, Kingston, NY 12401, USA'' (419999544) (-740371136),
      feature_at ''Mid Hudson Psychiatric Center, New Hampton, NY 10958, USA'' (414008389) (-743951297),
      feature_at ''287 Flugertown Road, Livingston Manor, NY 12758, USA'' (419611318) (-746524769),
      feature_at ''4001 Tremley Point Road, Linden, NJ 07036, USA'' (406109563) (-742186778),
      feature_at ''352 South Mountain Road, Wallkill, NY 12589, USA'' (416802456) (-742370183),
      feature_at ''Bailey Turn Road, Harriman, NY 10926, USA'' (412950425) (-741077389),
      feature_at ''193-199 Wawayanda Road, Hewitt, NJ 07421, USA'' (412144655) (-743949739),
      feature_at ''406-496 Ward Avenue, Pine Bush, NY 12566, USA'' (415736605) (-742847522),
      feature_at ''162 Merrill Road, Highland Mills, NY 10930, USA'' (413843930) (-740501726),
      feature_at ''Clinton Road, West Milford, NJ 07480, USA'' (410873075) (-744459023),
      feature_at ''16 Old Brook Lane, Warwick, NY 10990, USA'' (412346009) (-744026814),
      feature_at ''3 Drake Lane, Pennington, NJ 08534, USA'' (402948455) (-747903913),
      feature_at ''6324 8th Avenue, Brooklyn, NY 11220, USA'' (406337092) (-740122226),
      feature_at ''1 Merck Access Road, Whitehouse Station, NJ 08889, USA'' (406421967) (-747727624),
      feature_at ''78-98 Schalck Road, Narrowsburg, NY 12764, USA'' (416318082) (-749677716),
      feature_at ''282 Lakeview Drive Road, Highland Lake, NY 12743, USA'' (415301720) (-748416257),
      feature_at ''330 Evelyn Avenue, Hamilton Township, NJ 08619, USA'' (402647019) (-747071791),
      feature_at ''New York State Reference Route 987E, Southfields, NY 10975, USA'' (412567807) (-741058078),
      feature_at ''103-271 Tempaloni Road, Ellenville, NY 12428, USA'' (416855156) (-744420597),
      feature_at ''1300 Airport Road, North Brunswick Township, NJ 08902, USA'' (404663628) (-744820157),
      feature_at [] (407113723) (-749746483),
      feature_at [] (402133926) (-743613249)]"

definition exampleData_2 :: "Feature list" where
  "exampleData_2 =
     [feature_at [] (400273442) (-741220915),
      feature_at [] (411236786) (-744070769),
      feature_at ''211-225 Plains Road, Augusta, NJ 07822, USA'' (411633782) (-746784970),
      feature_at [] (415830701) (-742952812),
      feature_at ''165 Pedersen Ridge Road, Milford, PA 18337, USA'' (413447164) (-748712898),
      feature_at ''100-122 Locktown Road, Frenchtown, NJ 08825, USA'' (405047245) (-749800722),
      feature_at [] (418858923) (-746156790),
      feature_at ''650-652 Willi Hill Road, Swan Lake, NY 12783, USA'' (417951888) (-748484944),
      feature_at ''26 East 3rd Street, New Providence, NJ 07974, USA'' (407033786) (-743977337),
      feature_at [] (417548014) (-740075041),
      feature_at [] (410395868) (-744972325),
      feature_at [] (404615353) (-745129803),
      feature_at ''611 Lawrence Avenue, Westfield, NJ 07090, USA'' (406589790) (-743560121),
      feature_at ''18 Lannis Avenue, New Windsor, NY 12553, USA'' (414653148) (-740477477),
      feature_at ''82-104 Amherst Avenue, Colonia, NJ 07067, USA'' (405957808) (-743255336),
      feature_at ''170 Seven Lakes Drive, Sloatsburg, NY 10974, USA'' (411733589) (-741648093),
      feature_at ''1270 Lakes Road, Monroe, NY 10950, USA'' (412676291) (-742606606),
      feature_at ''509-535 Alphano Road, Great Meadows, NJ 07838, USA'' (409224445) (-748286738),
      feature_at ''652 Garden Street, Elizabeth, NJ 07202, USA'' (406523420) (-742135517),
      feature_at ''349 Sea Spray Court, Neptune City, NJ 07753, USA'' (401827388) (-740294537),
      feature_at ''13-17 Stanley Street, West Milford, NJ 07480, USA'' (410564152) (-743685054),
      feature_at ''47 Industrial Avenue, Teterboro, NJ 07608, USA'' (408472324) (-740726046),
      feature_at ''5 White Oak Lane, Stony Point, NY 10980, USA'' (412452168) (-740214052),
      feature_at ''Berkshire Valley Management Area Trail, Jefferson, NJ, USA'' (409146138) (-746188906),
      feature_at ''1007 Jersey Avenue, New Brunswick, NJ 08901, USA'' (404701380) (-744781745)]"

definition exampleData_3 :: "Feature list" where
  "exampleData_3 =
     [feature_at ''6 East Emerald Isle Drive, Lake Hopatcong, NJ 07849, USA'' (409642566) (-746017679),
      feature_at ''1358-1474 New Jersey 57, Port Murray, NJ 07865, USA'' (408031728) (-748645385),
      feature_at ''367 Prospect Road, Chester, NY 10918, USA'' (413700272) (-742135189),
      feature_at ''10 Simon Lake Drive, Atlantic Highlands, NJ 07716, USA'' (404310607) (-740282632),
      feature_at ''11 Ward Street, Mount Arlington, NJ 07856, USA'' (409319800) (-746201391),
      feature_at ''300-398 Jefferson Avenue, Elizabeth, NJ 07201, USA'' (406685311) (-742108603),
      feature_at ''43 Dreher Road, Roscoe, NY 12776, USA'' (419018117) (-749142781),
      feature_at ''Swan Street, Pine Island, NY 10969, USA'' (412856162) (-745148837),
      feature_at ''66 Pleasantview Avenue, Monticello, NY 12701, USA'' (416560744) (-746721964),
      feature_at [] (405314270) (-749836354),
      feature_at [] (414219548) (-743327440),
      feature_at ''565 Winding Hills Road, Montgomery, NY 12549, USA'' (415534177) (-742900616),
      feature_at ''231 Rocky Run Road, Glen Gardner, NJ 08826, USA'' (406898530) (-749127080),
      feature_at ''100 Mount Pleasant Avenue, Newark, NJ 07104, USA'' (407586880) (-741670168),
      feature_at ''517-521 Huntington Drive, Manchester Township, NJ 08759, USA'' (400106455) (-742870190),
      feature_at [] (400066188) (-746793294),
      feature_at ''40 Mountain Road, Napanoch, NY 12458, USA'' (418803880) (-744102673),
      feature_at [] (414204288) (-747895140),
      feature_at [] (414777405) (-740615601),
      feature_at ''48 North Road, Forestburgh, NY 12777, USA'' (415464475) (-747175374),
      feature_at [] (404062378) (-746376177),
      feature_at [] (405688272) (-749285130),
      feature_at [] (400342070) (-748788996),
      feature_at [] (401809022) (-744157964),
      feature_at ''9 Thompson Avenue, Leonardo, NJ 07737, USA'' (404226644) (-740517141)]"

definition exampleData_4 :: "Feature list" where
  "exampleData_4 =
     [feature_at [] (410322033) (-747871659),
      feature_at [] (407100674) (-747742727),
      feature_at ''213 Bush Road, Stone Ridge, NY 12484, USA'' (418811433) (-741718005),
      feature_at [] (415034302) (-743850945),
      feature_at [] (411349992) (-743694161),
      feature_at ''1-17 Bergen Court, New Brunswick, NJ 08901, USA'' (404839914) (-744759616),
      feature_at ''35 Oakland Valley Road, Cuddebackville, NY 12729, USA'' (414638017) (-745957854),
      feature_at [] (412127800) (-740173578),
      feature_at [] (401263460) (-747964303),
      feature_at [] (412843391) (-749086026),
      feature_at [] (418512773) (-743067823),
      feature_at ''42-102 Main Street, Belford, NJ 07718, USA'' (404318328) (-740835638),
      feature_at [] (419020746) (-741172328),
      feature_at [] (404080723) (-746119569),
      feature_at [] (401012643) (-744035134),
      feature_at [] (404306372) (-741079661),
      feature_at [] (403966326) (-748519297),
      feature_at [] (405002031) (-748407866),
      feature_at [] (409532885) (-742200683),
      feature_at [] (416851321) (-742674555),
      feature_at ''3387 Richmond Terrace, Staten Island, NY 10303, USA'' (406411633) (-741722051),
      feature_at ''261 Van Sickle Road, Goshen, NY 10924, USA'' (413069058) (-744597778),
      feature_at [] (418465462) (-746859398),
      feature_at [] (411733222) (-744228360),
      feature_at ''3 Hasta Way, Newton, NJ 07860, USA'' (410248224) (-747127767)]"

definition exampleData :: "Feature list" where
  "exampleData = exampleData_1 @ exampleData_2 @ exampleData_3 @ exampleData_4"

text \<open>
  \<open>ReadFile\<close> reads the given file and \<open>Unmarshal\<close> decodes it (a list without null entries); \<open>Inl\<close> is the message
  with which the program ends.
\<close>

definition loadFeatures ::
  "(string \<Rightarrow> string + byte list) \<Rightarrow> (byte list \<Rightarrow> string + Feature list) \<Rightarrow> string \<Rightarrow> routeGuideServer \<Rightarrow> string + routeGuideServer" where
  "loadFeatures ReadFile Unmarshal filePath s =
     (let decoded = (if filePath \<noteq> [] then (case ReadFile filePath of Inl err \<Rightarrow> Inl err | Inr data \<Rightarrow> Unmarshal data)
                     else Inr exampleData) in
      case decoded of
        Inl err \<Rightarrow> Inl (''Failed to load default features: '' @ err)
      | Inr features \<Rightarrow> Inr (s\<lparr>savedFeatures := features\<rparr>))"

definition newServer ::
  "(string \<Rightarrow> string + byte list) \<Rightarrow> (byte list \<Rightarrow> string + Feature list) \<Rightarrow> string \<Rightarrow> string + routeGuideServer" where
  "newServer ReadFile Unmarshal jsonDBFile =
     loadFeatures ReadFile Unmarshal jsonDBFile \<lparr>savedFeatures = [], routeNotes = (\<lambda>_. [])\<rparr>"

text \<open>\<open>data.Path\<close>, over the directory of its package.\<close>

definition data_Path :: "string \<Rightarrow> string \<Rightarrow> string" where
  "data_Path basepath rel = (if IsAbs rel then rel else Join basepath rel)"

record server_flags =
  fl_tls :: bool
  fl_certFile :: string
  fl_keyFile :: string
  fl_jsonDBFile :: string
  fl_port :: int

text \<open>
  \<open>main\<close> up to \<open>Serve\<close>: the listener, the credentials if there are any, and the server.
  \<open>NewServerTLSFromFile\<close> loads credentials.
\<close>

definition server_main ::
  "(string \<Rightarrow> string + 'l) \<Rightarrow> (string \<Rightarrow> string \<Rightarrow> string + 'creds) \<Rightarrow> string \<Rightarrow> (string \<Rightarrow> string + byte list)
     \<Rightarrow> (byte list \<Rightarrow> string + Feature list) \<Rightarrow> server_flags \<Rightarrow> string + ('l \<times> 'creds option \<times> routeGuideServer)" where
  "server_main Listen NewServerTLSFromFile basepath ReadFile Unmarshal fl =
     (case Listen (''localhost:'' @ dec_int (fl_port fl)) of
        Inl err \<Rightarrow> Inl (''failed to listen: '' @ err)
      | Inr lis \<Rightarrow>
          (case (if fl_tls fl then
                   let certFile = (if fl_certFile fl = [] then data_Path basepath ''x509/server_cert.pem'' else fl_certFile fl);
                       keyFile = (if fl_keyFile fl = [] then data_Path basepath ''x509/server_key.pem'' else fl_keyFile fl) in
                   (case NewServerTLSFromFile certFile keyFile of
                      Inl err \<Rightarrow> Inl (''Failed to generate credentials '' @ err)
                    | Inr creds \<Rightarrow> Inr (Some creds))
                 else Inr None) of
             Inl err \<Rightarrow> Inl err
           | Inr opts \<Rightarrow>
               (case newServer ReadFile Unmarshal (fl_jsonDBFile fl) of Inl err \<Rightarrow> Inl err | Inr s \<Rightarrow> Inr (lis, opts, s))))"

section \<open>Properties\<close>

lemma dec_nat_no_minus: "CHR ''-'' \<notin> set (dec_nat n)" "CHR '' '' \<notin> set (dec_nat n)"
proof -
  have d: "is_digit c" if "c \<in> set (dec_nat n)" for c using list_all_digit_dec_nat [of n] that by (simp add: list_all_iff)
  have "\<not> is_digit (CHR ''-'')" "\<not> is_digit (CHR '' '')" by (simp_all add: is_digit_def char_code_def)
  then show "CHR ''-'' \<notin> set (dec_nat n)" "CHR '' '' \<notin> set (dec_nat n)" using d by blast+
qed

lemma dec_int_inj: "dec_int a = dec_int b \<Longrightarrow> a = b"
proof -
  have "CHR ''-'' # s \<noteq> dec_nat n" for s n using dec_nat_no_minus(1) [of n] by (metis list.set_intros(1))
  then show "dec_int a = dec_int b \<Longrightarrow> a = b"
    using dec_nat_inj by (auto simp: dec_int_def split: if_splits) (metis dec_nat_inj eq_nat_nat_iff neg_0_le_iff_le minus_equation_iff le_cases not_less)+
qed

lemma dec_int_no_space: "CHR '' '' \<notin> set (dec_int k)"
  using dec_nat_no_minus by (simp add: dec_int_def)

lemma serialize_inj:
  assumes "serialize p = Return key" and "serialize q = Return key"
  shows "p = q"
proof -
  obtain a b where ab: "p = Some a" "q = Some b" using assms by (auto simp: serialize_def split: option.splits)
  then have "dec_int (sint (Latitude a)) = dec_int (sint (Latitude b)) \<and> dec_int (sint (Longitude a)) = dec_int (sint (Longitude b))"
    using assms by (intro split_first [where c = "CHR '' ''"]) (auto simp: serialize_def dec_int_no_space)
  then have "sint (Latitude a) = sint (Latitude b)" "sint (Longitude a) = sint (Longitude b)" using dec_int_inj by blast+
  then show ?thesis using ab by (simp add: signed_word_eqI)
qed

definition same_place :: "RouteNote \<Rightarrow> RouteNote \<Rightarrow> bool" where
  "same_place n m \<longleftrightarrow> note_Location m = note_Location n"

text \<open>The notes so far, by their location.\<close>

definition notes_of :: "RouteNote list \<Rightarrow> string \<Rightarrow> RouteNote list" where
  "notes_of h key = filter (\<lambda>m. serialize (note_Location m) = Return key) h"

lemma chat_note_history:
  assumes "routeNotes s = notes_of h" and "note_Location n \<noteq> None"
  shows "\<exists>s'. chat_note s n = Return (filter (same_place n) (h @ [n]), s') \<and> routeNotes s' = notes_of (h @ [n])"
proof -
  obtain key where key: "serialize (note_Location n) = Return key" using assms(2) by (auto simp: serialize_def)
  have same: "serialize (note_Location m) = Return key \<longleftrightarrow> same_place n m" for m
    using key serialize_inj by (auto simp: same_place_def)
  have "(routeNotes s)(key := routeNotes s key @ [n]) = notes_of (h @ [n])"
    using key by (auto simp: assms(1) notes_of_def)
  moreover have "routeNotes s key @ [n] = filter (same_place n) (h @ [n])"
    by (simp add: assms(1) notes_of_def same) (simp add: same_place_def)
  ultimately show ?thesis using key by (simp add: chat_note_def)
qed

lemma newServer_no_notes: "newServer ReadFile Unmarshal file = Inr s \<Longrightarrow> routeNotes s = notes_of []"
  by (auto simp: newServer_def loadFeatures_def notes_of_def Let_def split: sum.splits if_splits)

lemma chat_run_history:
  assumes "routeNotes s = notes_of h" and "\<forall>n\<in>set ns. note_Location n \<noteq> None"
  shows "\<exists>s'. chat_run s ns = Return (map (\<lambda>k. filter (same_place (ns ! k)) (h @ take (Suc k) ns)) [0..<length ns], s')
    \<and> routeNotes s' = notes_of (h @ ns)"
  using assms
proof (induction ns arbitrary: s h)
  case (Cons n ns)
  obtain s1 where s1: "chat_note s n = Return (filter (same_place n) (h @ [n]), s1)" "routeNotes s1 = notes_of (h @ [n])"
    using chat_note_history [OF Cons.prems(1)] Cons.prems(2) by auto
  have "\<forall>m\<in>set ns. note_Location m \<noteq> None" using Cons.prems(2) by simp
  from Cons.IH [OF s1(2) this] obtain s2 where
    s2: "chat_run s1 ns = Return (map (\<lambda>k. filter (same_place (ns ! k)) ((h @ [n]) @ take (Suc k) ns)) [0..<length ns], s2)"
    "routeNotes s2 = notes_of ((h @ [n]) @ ns)" by blast
  have "map (\<lambda>k. filter (same_place ((n # ns) ! k)) (h @ take (Suc k) (n # ns))) [0..<length (n # ns)]
      = filter (same_place n) (h @ [n]) # map (\<lambda>k. filter (same_place (ns ! k)) ((h @ [n]) @ take (Suc k) ns)) [0..<length ns]"
    by (simp add: upt_conv_Cons map_Suc_upt [symmetric] del: upt_Suc)
  then show ?case using s1 s2 by simp
qed simp

lemma send_notes_all: "send_notes (\<lambda>_. None) rn sent = (None, sent @ rn)"
  by (induction rn arbitrary: sent) simp_all

lemma RouteChat_run:
  assumes "chat_run s ns = Return (rns, s')"
  shows "RouteChat (\<lambda>_. None) ns StreamEOF s sent = Return (None, sent @ concat rns, s')"
  using assms
proof (induction ns arbitrary: s sent rns)
  case (Cons n ns)
  then obtain rn s1 rest where "chat_note s n = Return (rn, s1)" "chat_run s1 ns = Return (rest, s')" "rns = rn # rest"
    by (auto simp: outcome_bind_Return_iff)
  then show ?case using Cons.IH by (simp add: send_notes_all)
qed simp

text \<open>
  C24. In the chat every note is answered with all notes at its location that came before it, from
  whichever client, in the order in which they came, and with itself at the end: locations are never
  mixed up. A client whose sends succeed is sent these answers one after the other.
\<close>

theorem RouteChat_history:
  assumes "newServer ReadFile Unmarshal file = Inr s0" and "\<forall>n\<in>set ns. note_Location n \<noteq> None"
  shows "\<exists>rns s. chat_run s0 ns = Return (rns, s) \<and> length rns = length ns
    \<and> (\<forall>k < length ns. rns ! k = filter (same_place (ns ! k)) (take (Suc k) ns) \<and> last (rns ! k) = ns ! k)
    \<and> RouteChat (\<lambda>_. None) ns StreamEOF s0 [] = Return (None, concat rns, s)"
proof -
  from chat_run_history [OF newServer_no_notes [OF assms(1)] assms(2)] obtain s where
    s: "chat_run s0 ns = Return (map (\<lambda>k. filter (same_place (ns ! k)) (take (Suc k) ns)) [0..<length ns], s)"
    by auto
  have "last (filter (same_place (ns ! k)) (take (Suc k) ns)) = ns ! k" if "k < length ns" for k
    using that by (simp add: take_Suc_conv_app_nth same_place_def)
  then show ?thesis using s RouteChat_run [OF s, of "[]"] by auto
qed

definition demo_note :: "int32 \<Rightarrow> string \<Rightarrow> RouteNote" where
  "demo_note x t = \<lparr>note_Location = Some \<lparr>Latitude = x, Longitude = 1\<rparr>, note_Message = t\<rparr>"

definition default_server :: routeGuideServer where
  "default_server = \<lparr>savedFeatures = exampleData, routeNotes = (\<lambda>_. [])\<rparr>"

lemma newServer_default: "newServer ReadFile Unmarshal [] = Inr default_server"
  by (simp add: newServer_def loadFeatures_def default_server_def)

theorem RouteChat_history_witness:
  "\<exists>rns s. chat_run default_server [demo_note 0 ''a'', demo_note 5 ''b'', demo_note 0 ''c''] = Return (rns, s)
     \<and> rns ! 2 = [demo_note 0 ''a'', demo_note 0 ''c'']"
proof -
  let ?ns = "[demo_note 0 ''a'', demo_note 5 ''b'', demo_note 0 ''c'']"
  have "\<forall>n\<in>set ?ns. note_Location n \<noteq> None" by (simp add: demo_note_def)
  from RouteChat_history [OF newServer_default this] obtain rns s where "chat_run default_server ?ns = Return (rns, s)"
    "\<forall>k < 3. rns ! k = filter (same_place (?ns ! k)) (take (Suc k) ?ns)" by auto
  moreover from this(2) have "rns ! 2 = [demo_note 0 ''a'', demo_note 0 ''c'']"
    by (simp add: same_place_def demo_note_def)
  ultimately show ?thesis by blast
qed

text \<open>A note without a location, and a rectangle without a corner, make the handler panic.\<close>

lemma RouteChat_no_location_panics:
  "note_Location n = None \<Longrightarrow> RouteChat send_err (n # ns) ending s sent = Panic NilDereference"
  by (simp add: chat_note_def serialize_def)

lemma ListFeatures_no_corner_panics:
  "Lo rect = None \<or> Hi rect = None \<Longrightarrow> savedFeatures s \<noteq> [] \<Longrightarrow> ListFeatures send_err s rect = Panic NilDereference"
  by (cases "savedFeatures s") (auto simp: ListFeatures_def inRange_def split: option.splits)

section \<open>Summaries and lists\<close>

lemma count_features_eq: "count_features fs p n = n + of_nat (length (filter (\<lambda>f. Location f = Some p) fs))"
  by (induction fs arbitrary: n) (simp_all add: ac_simps)

text \<open>The distances from each point to the next.\<close>

definition hops :: "(Point \<Rightarrow> Point \<Rightarrow> int32) \<Rightarrow> Point list \<Rightarrow> int32" where
  "hops d ps = sum_list (map2 d ps (tl ps))"

lemma record_points_eq:
  "record_points d fs ps (pc, fc, di, l) =
     (pc + of_nat (length ps),
      fc + of_nat (sum_list (map (\<lambda>p. length (filter (\<lambda>f. Location f = Some p) fs)) ps)),
      di + hops d (case l of None \<Rightarrow> ps | Some q \<Rightarrow> q # ps))"
proof (induction ps arbitrary: pc fc di l)
  case Nil
  show ?case by (simp add: hops_def split: option.split)
next
  case (Cons p ps)
  have hop: "hops d (q # p # ps) = d q p + hops d (p # ps)" for q by (simp add: hops_def)
  show ?case by (cases l) (simp_all add: Cons hop count_features_eq ac_simps)
qed

text \<open>
  C38. The summary of a route counts the points, the features at the points (a point visited twice counts
  twice), and adds up the distances between consecutive points, all modulo \<open>2 ^ 32\<close>; a route that ends
  with an error gives no summary.
\<close>

theorem RecordRoute_summary:
  "RecordRoute d elapsed s ps ending =
     (case ending of
        StreamError err \<Rightarrow> Inl err
      | StreamEOF \<Rightarrow>
          Inr \<lparr>PointCount = of_nat (length ps),
            FeatureCount = of_nat (sum_list (map (\<lambda>p. length (filter (\<lambda>f. Location f = Some p) (savedFeatures s))) ps)),
            Distance = sum_list (map2 d ps (tl ps)), ElapsedTime = elapsed\<rparr>)"
  by (simp add: RecordRoute_def record_points_eq hops_def split: stream_end.split)

end
