(* ===== verification/Route_Client.thy ===== *)
theory Route_Client
  imports Route_Guide
begin

text \<open>
  The route guide client (\<open>route_guide/client/client.go\<close>) and its session with the server. The generated
  stub is a record of what its calls return; \<open>Inl\<close> is the message with which \<open>log.Fatalf\<close> ends the program
  (without the addresses it prints) and \<open>Inr\<close> what a call that ends well has logged. The draws of the
  random generator are an argument. The ten-second timeouts are errors of the calls.
\<close>

section \<open>The stub\<close>

text \<open>
  A streaming call can fail when it is opened, at its k-th \<open>Send\<close>, and while it receives. \<open>chat_recv\<close> is what
  the chat answers to the notes that were sent, and how its stream ends.
\<close>

record client_stub =
  get_call :: "Point \<Rightarrow> string + Feature"
  list_call :: "Rectangle \<Rightarrow> string + (Feature list \<times> stream_end)"
  route_open :: "string option"
  route_send :: "nat \<Rightarrow> string option"
  route_close :: "Point list \<Rightarrow> string + RouteSummary"
  chat_open :: "string option"
  chat_send :: "nat \<Rightarrow> string option"
  chat_recv :: "RouteNote list \<Rightarrow> RouteNote list \<times> stream_end"

section \<open>The calls\<close>

definition printFeature :: "client_stub \<Rightarrow> Point \<Rightarrow> string + Feature" where
  "printFeature client point =
     (case get_call client point of
        Inl err \<Rightarrow> Inl (''GetFeatures(_) = _, '' @ err @ '': '')
      | Inr feature \<Rightarrow> Inr feature)"

text \<open>The getters of the generated messages return zero values for what is missing.\<close>

definition GetLocation_point :: "Feature \<Rightarrow> int32 \<times> int32" where
  "GetLocation_point f = (case Location f of None \<Rightarrow> (0, 0) | Some p \<Rightarrow> (Latitude p, Longitude p))"

definition printFeatures :: "client_stub \<Rightarrow> Rectangle \<Rightarrow> string + (string \<times> int32 \<times> int32) list" where
  "printFeatures client rect =
     (case list_call client rect of
        Inl err \<Rightarrow> Inl (''ListFeatures(_) = _, '' @ err)
      | Inr (features, ending) \<Rightarrow>
          (case ending of
             StreamError err \<Rightarrow> Inl (''ListFeatures(_) = _, '' @ err)
           | StreamEOF \<Rightarrow> Inr (map (\<lambda>f. (Name f, GetLocation_point f)) features)))"

text \<open>\<open>Int31n k n\<close> is the \<open>k\<close>-th draw, for the bound \<open>n\<close>.\<close>

definition randomPoint :: "(nat \<Rightarrow> int32 \<Rightarrow> int32) \<Rightarrow> nat \<Rightarrow> Point" where
  "randomPoint Int31n k =
     (let lat = (Int31n k 180 - 90) * 10000000;
          long = (Int31n (Suc k) 360 - 180) * 10000000 in
      \<lparr>Latitude = lat, Longitude = long\<rparr>)"

definition route_points :: "(nat \<Rightarrow> int32 \<Rightarrow> int32) \<Rightarrow> Point list" where
  "route_points Int31n =
     (let pointCount = sint (Int31n 0 100) + 2 in
      map (\<lambda>i. randomPoint Int31n (Suc (2 * i))) [0..<nat pointCount])"

text \<open>A loop of \<open>Send\<close>s: what was sent and the error that ended it. The \<open>k\<close>-th value is sent first.\<close>

fun send_all :: "(nat \<Rightarrow> string option) \<Rightarrow> nat \<Rightarrow> 'a list \<Rightarrow> 'a list \<times> string option" where
  "send_all Send k [] = ([], None)"
| "send_all Send k (x # xs) =
     (case Send k of
        Some err \<Rightarrow> ([], Some err)
      | None \<Rightarrow> (case send_all Send (Suc k) xs of (sent, err) \<Rightarrow> (x # sent, err)))"

definition runRecordRoute :: "(nat \<Rightarrow> int32 \<Rightarrow> int32) \<Rightarrow> client_stub \<Rightarrow> string + RouteSummary" where
  "runRecordRoute Int31n client =
     (let points = route_points Int31n in
      case route_open client of
        Some err \<Rightarrow> Inl (''RecordRoute(_) = _, '' @ err)
      | None \<Rightarrow>
          (case send_all (route_send client) 0 points of
             (_, Some err) \<Rightarrow> Inl (''Send(_) = '' @ err)
           | (sent, None) \<Rightarrow>
               (case route_close client sent of
                  Inl err \<Rightarrow> Inl (''CloseAndRecv() got error '' @ err @ '', want <nil>'')
                | Inr reply \<Rightarrow> Inr reply)))"

definition note_at :: "int32 \<Rightarrow> int32 \<Rightarrow> string \<Rightarrow> RouteNote" where
  "note_at lat long msg = \<lparr>note_Location = Some \<lparr>Latitude = lat, Longitude = long\<rparr>, note_Message = msg\<rparr>"

definition chat_notes :: "RouteNote list" where
  "chat_notes =
     [note_at 0 1 ''First message'', note_at 0 2 ''Second message'', note_at 0 3 ''Third message'',
      note_at 0 1 ''Fourth message'', note_at 0 2 ''Fifth message'', note_at 0 3 ''Sixth message'']"

text \<open>What the receiving goroutine logs. It dereferences the location of every note.\<close>

fun log_notes :: "RouteNote list \<Rightarrow> (string \<times> int32 \<times> int32) list outcome" where
  "log_notes [] = Return []"
| "log_notes (n # ns) =
     (case note_Location n of
        None \<Rightarrow> Panic NilDereference
      | Some p \<Rightarrow> outcome_bind (log_notes ns) (\<lambda>rest. Return ((note_Message n, Latitude p, Longitude p) # rest)))"

text \<open>
  The chat: the notes are sent while another goroutine receives, and the call waits for the end of the
  answers. When both goroutines fail, the first to do so ends the program: \<open>receiver_first\<close>.
\<close>

definition runRouteChat :: "bool \<Rightarrow> client_stub \<Rightarrow> (string + (string \<times> int32 \<times> int32) list) outcome" where
  "runRouteChat receiver_first client =
     (case chat_open client of
        Some err \<Rightarrow> Return (Inl (''RouteChat(_) = _, '' @ err))
      | None \<Rightarrow>
          (case send_all (chat_send client) 0 chat_notes of
             (sent, failed) \<Rightarrow>
               (case chat_recv client sent of
                  (received, ending) \<Rightarrow>
                    outcome_bind (log_notes received) (\<lambda>logs.
                      Return (case (failed, ending) of
                         (None, StreamEOF) \<Rightarrow> Inr logs
                       | (None, StreamError err) \<Rightarrow> Inl (''Failed to receive a note : '' @ err)
                       | (Some err, StreamEOF) \<Rightarrow> Inl (''Failed to send a note: '' @ err)
                       | (Some err, StreamError err') \<Rightarrow>
                           Inl (if receiver_first then ''Failed to receive a note : '' @ err'
                                else ''Failed to send a note: '' @ err))))))"

section \<open>The program\<close>

record client_flags =
  fl_client_tls :: bool
  fl_caFile :: string
  fl_serverAddr :: string
  fl_serverHostOverride :: string

record session_log =
  log_feature :: Feature
  log_missing :: Feature
  log_features :: "(string \<times> int32 \<times> int32) list"
  log_summary :: RouteSummary
  log_chat :: "(string \<times> int32 \<times> int32) list"

definition main_rect :: Rectangle where
  "main_rect =
     \<lparr>Lo = Some \<lparr>Latitude = 400000000, Longitude = -750000000\<rparr>, Hi = Some \<lparr>Latitude = 420000000, Longitude = -730000000\<rparr>\<rparr>"

text \<open>The calls of \<open>main\<close>, one after the other. The program ends at the first that fails.\<close>

definition client_session ::
  "(nat \<Rightarrow> int32 \<Rightarrow> int32) \<Rightarrow> bool \<Rightarrow> client_stub \<Rightarrow> (string + session_log) outcome" where
  "client_session Int31n receiver_first client =
     (case printFeature client \<lparr>Latitude = 409146138, Longitude = -746188906\<rparr> of
        Inl err \<Rightarrow> Return (Inl err)
      | Inr f1 \<Rightarrow>
          (case printFeature client \<lparr>Latitude = 0, Longitude = 0\<rparr> of
             Inl err \<Rightarrow> Return (Inl err)
           | Inr f2 \<Rightarrow>
               (case printFeatures client main_rect of
                  Inl err \<Rightarrow> Return (Inl err)
                | Inr fs \<Rightarrow>
                    (case runRecordRoute Int31n client of
                       Inl err \<Rightarrow> Return (Inl err)
                     | Inr reply \<Rightarrow>
                         outcome_bind (runRouteChat receiver_first client) (\<lambda>r.
                           Return (case r of
                              Inl err \<Rightarrow> Inl err
                            | Inr logs \<Rightarrow>
                                Inr \<lparr>log_feature = f1, log_missing = f2, log_features = fs, log_summary = reply, log_chat = logs\<rparr>))))))"

text \<open>
  \<open>main\<close>: the credentials (\<open>NewClientTLSFromFile\<close>), the connection (\<open>Dial\<close>, with the credentials if there are
  any) and the calls on its stub.
\<close>

definition client_main ::
  "(string \<Rightarrow> string \<Rightarrow> string + 'creds) \<Rightarrow> string \<Rightarrow> ('creds option \<Rightarrow> string \<Rightarrow> string + client_stub)
     \<Rightarrow> (nat \<Rightarrow> int32 \<Rightarrow> int32) \<Rightarrow> bool \<Rightarrow> client_flags \<Rightarrow> (string + session_log) outcome" where
  "client_main NewClientTLSFromFile basepath Dial Int31n receiver_first fl =
     (case (if fl_client_tls fl then
              let caFile = (if fl_caFile fl = [] then data_Path basepath ''x509/ca_cert.pem'' else fl_caFile fl) in
              (case NewClientTLSFromFile caFile (fl_serverHostOverride fl) of
                 Inl err \<Rightarrow> Inl (''Failed to create TLS credentials '' @ err)
               | Inr creds \<Rightarrow> Inr (Some creds))
            else Inr None) of
        Inl err \<Rightarrow> Return (Inl err)
      | Inr opts \<Rightarrow>
          (case Dial opts (fl_serverAddr fl) of
             Inl err \<Rightarrow> Return (Inl (''fail to dial: '' @ err))
           | Inr client \<Rightarrow> client_session Int31n receiver_first client))"

section \<open>Connected to the server\<close>

text \<open>
  The stub of a client that is alone with a server and whose transport does not fail. A handler that
  panics ends the server, which the client sees as an error.
\<close>

definition list_features_of :: "routeGuideServer \<Rightarrow> Rectangle \<Rightarrow> string + (Feature list \<times> stream_end)" where
  "list_features_of s rect =
     (case ListFeatures (\<lambda>_. None) s rect of
        Return (None, sent) \<Rightarrow> Inr (sent, StreamEOF)
      | Return (Some err, sent) \<Rightarrow> Inr (sent, StreamError err)
      | Panic _ \<Rightarrow> Inl ''transport is closing'')"

definition chat_with :: "routeGuideServer \<Rightarrow> RouteNote list \<Rightarrow> RouteNote list \<times> stream_end" where
  "chat_with s notes =
     (case RouteChat (\<lambda>_. None) notes StreamEOF s [] of
        Return (None, sent, _) \<Rightarrow> (sent, StreamEOF)
      | Return (Some err, sent, _) \<Rightarrow> (sent, StreamError err)
      | Panic _ \<Rightarrow> ([], StreamError ''transport is closing''))"

definition stub_of :: "(Point \<Rightarrow> Point \<Rightarrow> int32) \<Rightarrow> int32 \<Rightarrow> routeGuideServer \<Rightarrow> client_stub" where
  "stub_of calcDistance elapsed s =
     \<lparr>get_call = (\<lambda>p. Inr (GetFeature s p)), list_call = list_features_of s,
      route_open = None, route_send = (\<lambda>_. None), route_close = (\<lambda>ps. RecordRoute calcDistance elapsed s ps StreamEOF),
      chat_open = None, chat_send = (\<lambda>_. None), chat_recv = chat_with s\<rparr>"

section \<open>Random routes\<close>

text \<open>What \<open>Int31n\<close> promises: a draw from zero up to its positive bound.\<close>

definition draws_ok :: "(nat \<Rightarrow> int32 \<Rightarrow> int32) \<Rightarrow> bool" where
  "draws_ok Int31n \<longleftrightarrow> (\<forall>k n. 0 < sint n \<longrightarrow> 0 \<le> sint (Int31n k n) \<and> sint (Int31n k n) < sint n)"

lemma sint32_of_int: "- (2 ^ 31) \<le> m \<Longrightarrow> m < 2 ^ 31 \<Longrightarrow> sint (word_of_int m :: int32) = m"
  by (simp add: sint_sbintrunc' signed_take_bit_int_eq_self)

lemma draws_okD:
  assumes "draws_ok Int31n" and "0 < m" and "m < 2 ^ 31"
  shows "0 \<le> sint (Int31n k (word_of_int m)) \<and> sint (Int31n k (word_of_int m)) < m"
proof -
  have "sint (word_of_int m :: int32) = m" using assms(2,3) by (simp add: sint32_of_int)
  then show ?thesis using assms(1,2) unfolding draws_ok_def by metis
qed

lemma scaled_coordinate:
  assumes "0 \<le> sint (x :: int32)" and "sint x < 2 * c" and "c \<le> 180" and "0 < c"
  shows "sint ((x - word_of_int c) * 10000000) = (sint x - c) * 10000000"
proof -
  have e: "(x - word_of_int c) * 10000000 = word_of_int ((sint x - c) * 10000000)"
    by simp
  have "(sint x - c) * 10000000 < c * 10000000" using assms(2) by simp
  moreover have "- c * 10000000 \<le> (sint x - c) * 10000000" using assms(1) by (intro mult_right_mono) simp_all
  ultimately show ?thesis unfolding e using assms(3,4) by (intro sint32_of_int) simp_all
qed

text \<open>
  The points of a random route lie on the globe, in whole degrees: the multiplication by \<open>10 ^ 7\<close> does not wrap,
  although 180 degrees are close to the end of 32 bits. A route has from two to 101 points.
\<close>

theorem route_points_on_globe:
  assumes "draws_ok Int31n"
  shows "2 \<le> length (route_points Int31n) \<and> length (route_points Int31n) \<le> 101
    \<and> (\<forall>p\<in>set (route_points Int31n).
         \<exists>lat long. - 90 \<le> lat \<and> lat < 90 \<and> - 180 \<le> long \<and> long < 180
           \<and> sint (Latitude p) = lat * 10000000 \<and> sint (Longitude p) = long * 10000000)"
proof -
  have pt: "\<exists>lat long. - 90 \<le> lat \<and> lat < 90 \<and> - 180 \<le> long \<and> long < 180
      \<and> sint (Latitude (randomPoint Int31n k)) = lat * 10000000 \<and> sint (Longitude (randomPoint Int31n k)) = long * 10000000" for k
  proof (intro exI conjI)
    have a: "0 \<le> sint (Int31n k 180)" "sint (Int31n k 180) < 180" using draws_okD [OF assms, of 180 k] by simp_all
    have b: "0 \<le> sint (Int31n (Suc k) 360)" "sint (Int31n (Suc k) 360) < 360" using draws_okD [OF assms, of 360 "Suc k"] by simp_all
    show "sint (Latitude (randomPoint Int31n k)) = (sint (Int31n k 180) - 90) * 10000000"
      using scaled_coordinate [of "Int31n k 180" 90] a by (simp add: randomPoint_def Let_def)
    show "sint (Longitude (randomPoint Int31n k)) = (sint (Int31n (Suc k) 360) - 180) * 10000000"
      using scaled_coordinate [of "Int31n (Suc k) 360" 180] b by (simp add: randomPoint_def Let_def)
    show "- 90 \<le> sint (Int31n k 180) - 90" "sint (Int31n k 180) - 90 < 90"
      "- 180 \<le> sint (Int31n (Suc k) 360) - 180" "sint (Int31n (Suc k) 360) - 180 < 180" using a b by simp_all
  qed
  have "0 \<le> sint (Int31n 0 100)" "sint (Int31n 0 100) < 100" using draws_okD [OF assms, of 100 0] by simp_all
  then have "2 \<le> length (route_points Int31n)" "length (route_points Int31n) \<le> 101" by (simp_all add: route_points_def Let_def)
  then show ?thesis using pt by (auto simp: route_points_def Let_def)
qed

lemma draws_ok_zero: "draws_ok (\<lambda>_ _. 0)"
  by (simp add: draws_ok_def)

theorem route_points_on_globe_witness:
  "length (route_points (\<lambda>_ _. 0)) \<ge> 2 \<and> Latitude (hd (route_points (\<lambda>_ _. 0))) = - 900000000"
  using route_points_on_globe [OF draws_ok_zero] by (simp add: route_points_def randomPoint_def Let_def hd_map upt_conv_Cons)

section \<open>A session\<close>

lemma send_all_ok: "send_all (\<lambda>_. None) k xs = (xs, None)"
  by (induction xs arbitrary: k) simp_all

lemma list_features_all:
  assumes "\<forall>f\<in>set fs. inRange (Location f) rect = Return True"
  shows "list_features (\<lambda>_. None) rect fs sent = Return (None, sent @ fs)"
  using assms by (induction fs arbitrary: sent) simp_all

lemma find_feature_at:
  "find_feature (feature_at nam a b # fs) \<lparr>Latitude = c, Longitude = d\<rparr>
     = (if a = c \<and> b = d then Some (feature_at nam a b) else find_feature fs \<lparr>Latitude = c, Longitude = d\<rparr>)"
  by (simp add: feature_at_def)

lemmas exampleData_parts = exampleData_def exampleData_1_def exampleData_2_def exampleData_3_def exampleData_4_def

lemma find_berkshire:
  "find_feature exampleData \<lparr>Latitude = 409146138, Longitude = -746188906\<rparr>
     = Some (feature_at ''Berkshire Valley Management Area Trail, Jefferson, NJ, USA'' 409146138 (-746188906))"
  unfolding exampleData_parts by (simp add: find_feature_at del: find_feature.simps(2))

lemma find_nowhere: "find_feature exampleData \<lparr>Latitude = 0, Longitude = 0\<rparr> = None"
  unfolding exampleData_parts by (simp add: find_feature_at del: find_feature.simps(2))

lemma feature_in_main_rect:
  "inRange (Location (feature_at nam a b)) main_rect
     = Return (400000000 \<le> sint a \<and> sint a \<le> 420000000 \<and> - 750000000 \<le> sint b \<and> sint b \<le> - 730000000)"
  by (simp add: feature_at_def inRange_def main_rect_def) blast

lemma exampleData_in_range: "list_all (\<lambda>f. inRange (Location f) main_rect = Return True) exampleData"
  unfolding exampleData_parts by (simp add: feature_in_main_rect)

lemma chat_with_new_server:
  assumes "routeNotes s = notes_of []"
  shows "chat_with s chat_notes =
    (concat (map (\<lambda>k. filter (same_place (chat_notes ! k)) (take (Suc k) chat_notes)) [0..<length chat_notes]), StreamEOF)"
proof -
  have "\<forall>n\<in>set chat_notes. note_Location n \<noteq> None" by (simp add: chat_notes_def note_at_def)
  from chat_run_history [OF assms this] obtain s' where
    "chat_run s chat_notes = Return (map (\<lambda>k. filter (same_place (chat_notes ! k)) (take (Suc k) chat_notes)) [0..<length chat_notes], s')"
    by auto
  from RouteChat_run [OF this, of "[]"] show ?thesis by (simp add: chat_with_def)
qed

lemma chat_answers:
  "concat (map (\<lambda>k. filter (same_place (chat_notes ! k)) (take (Suc k) chat_notes)) [0..<length chat_notes]) =
     [note_at 0 1 ''First message'', note_at 0 2 ''Second message'', note_at 0 3 ''Third message'',
      note_at 0 1 ''First message'', note_at 0 1 ''Fourth message'', note_at 0 2 ''Second message'', note_at 0 2 ''Fifth message'',
      note_at 0 3 ''Third message'', note_at 0 3 ''Sixth message'']"
  by (simp add: chat_notes_def note_at_def same_place_def upt_conv_Cons)

text \<open>What is logged of a feature.\<close>

definition feature_line :: "Feature \<Rightarrow> string \<times> int32 \<times> int32" where
  "feature_line f = (Name f, GetLocation_point f)"

text \<open>
  C26. The client's session with a freshly started server that has the built-in features runs to its end,
  whichever of its goroutines is faster: the first lookup finds the feature at its point, the second an
  unnamed one; all built-in features lie in the rectangle and are listed in order; the summary counts
  every point of the random route; and the chat logs nine messages, each note preceded by the earlier one at its point.
\<close>

theorem client_session_with_server:
  assumes "newServer ReadFile Unmarshal [] = Inr s" and "draws_ok Int31n"
  shows "\<exists>summary. client_session Int31n receiver_first (stub_of d elapsed s) = Return (Inr
      \<lparr>log_feature = feature_at ''Berkshire Valley Management Area Trail, Jefferson, NJ, USA'' 409146138 (-746188906),
       log_missing = feature_at '''' 0 0,
       log_features = map feature_line exampleData,
       log_summary = summary,
       log_chat = [(''First message'', 0, 1), (''Second message'', 0, 2), (''Third message'', 0, 3),
         (''First message'', 0, 1), (''Fourth message'', 0, 1), (''Second message'', 0, 2), (''Fifth message'', 0, 2),
         (''Third message'', 0, 3), (''Sixth message'', 0, 3)]\<rparr>)
    \<and> sint (PointCount summary) = sint (Int31n 0 100) + 2"
proof -
  have s: "s = default_server" using assms(1) by (simp add: newServer_default)
  have draw: "0 \<le> sint (Int31n 0 100)" "sint (Int31n 0 100) < 100" using draws_okD [OF assms(2), of 100 0] by simp_all
  then have "of_nat (length (route_points Int31n)) = (word_of_int (sint (Int31n 0 100) + 2) :: int32)"
    by (simp add: route_points_def Let_def)
  then have count: "sint (of_nat (length (route_points Int31n)) :: int32) = sint (Int31n 0 100) + 2"
    using draw sint32_of_int [of "sint (Int31n 0 100) + 2"] by simp
  have features: "printFeatures (stub_of d elapsed s) main_rect = Inr (map feature_line exampleData)"
    using list_features_all [of exampleData main_rect "[]"] exampleData_in_range
    by (simp add: printFeatures_def stub_of_def list_features_of_def ListFeatures_def s default_server_def list_all_iff feature_line_def)
  have chat: "chat_recv (stub_of d elapsed s) chat_notes = (concat (map (\<lambda>k. filter (same_place (chat_notes ! k)) (take (Suc k) chat_notes)) [0..<length chat_notes]), StreamEOF)"
    using chat_with_new_server [OF newServer_no_notes [OF assms(1)]] by (simp add: stub_of_def)
  obtain summary where route: "runRecordRoute Int31n (stub_of d elapsed s) = Inr summary"
      "PointCount summary = of_nat (length (route_points Int31n))"
    by (simp add: runRecordRoute_def stub_of_def send_all_ok RecordRoute_def record_points_eq Let_def)
  have lookups: "printFeature (stub_of d elapsed s) \<lparr>Latitude = 409146138, Longitude = -746188906\<rparr>
        = Inr (feature_at ''Berkshire Valley Management Area Trail, Jefferson, NJ, USA'' 409146138 (-746188906))"
      "printFeature (stub_of d elapsed s) \<lparr>Latitude = 0, Longitude = 0\<rparr> = Inr (feature_at '''' 0 0)"
    by (simp_all add: printFeature_def stub_of_def GetFeature_def s default_server_def find_berkshire find_nowhere)
      (simp add: feature_at_def)
  have "runRouteChat receiver_first (stub_of d elapsed s) = Return (Inr [(''First message'', 0, 1), (''Second message'', 0, 2), (''Third message'', 0, 3),
         (''First message'', 0, 1), (''Fourth message'', 0, 1), (''Second message'', 0, 2), (''Fifth message'', 0, 2),
         (''Third message'', 0, 3), (''Sixth message'', 0, 3)])"
    using chat unfolding chat_answers by (simp add: runRouteChat_def stub_of_def send_all_ok note_at_def)
  with lookups features route count show ?thesis by (simp add: client_session_def)
qed

theorem client_session_with_server_witness:
  "\<exists>summary sl. client_session (\<lambda>_ _. 0) True (stub_of (\<lambda>_ _. 0) 0 default_server) = Return (Inr sl)
     \<and> log_summary sl = summary \<and> sint (PointCount summary) = 2 \<and> length (log_chat sl) = 9"
  using client_session_with_server [OF newServer_default draws_ok_zero, of True "\<lambda>_ _. 0" 0] by auto

end
