(* ===== verification/Epoch_Extractor.thy ===== *)
theory Epoch_Extractor
  imports Prelude
begin

text \<open>
  The proposer schedule (\<open>epoch-extractor/main.go\<close>): on every tick of its timer the client asks a beacon
  node for the head slot and, when the epoch has changed, for the proposers of the next and of the
  current epoch. The answers of the node are arguments.
  What is logged as a schedule is the value of \<open>logProposerSchedule\<close>.
\<close>

section \<open>Assignments\<close>

record assignment =
  ValidatorIndex :: uint64
  ProposerSlots :: "uint64 list"
  PublicKey :: "byte list"

type_synonym index_map = "uint64 \<rightharpoonup> string"
type_synonym slot_map = "uint64 \<rightharpoonup> uint64"

fun set_slots :: "uint64 list \<Rightarrow> uint64 \<Rightarrow> slot_map \<Rightarrow> slot_map" where
  "set_slots [] v m = m"
| "set_slots (proposerSlot # slots) v m = set_slots slots v (m(proposerSlot \<mapsto> v))"

fun process_assignments :: "assignment list \<Rightarrow> index_map \<times> slot_map \<Rightarrow> index_map \<times> slot_map" where
  "process_assignments [] (proposerIndexToPubKey, slotToProposerIndex) = (proposerIndexToPubKey, slotToProposerIndex)"
| "process_assignments (a # as) (proposerIndexToPubKey, slotToProposerIndex) =
     process_assignments as
       ((if length (ProposerSlots a) > 0 then proposerIndexToPubKey(ValidatorIndex a \<mapsto> EncodeToString (PublicKey a))
         else proposerIndexToPubKey),
        set_slots (ProposerSlots a) (ValidatorIndex a) slotToProposerIndex)"

definition processNextEpochAssignments :: "assignment list \<Rightarrow> index_map \<times> slot_map" where
  "processNextEpochAssignments as = process_assignments as (Map.empty, Map.empty)"

section \<open>The client\<close>

text \<open>
  The fields \<open>assignments\<close>, \<open>conn\<close>, \<open>cancel\<close>, \<open>ctx\<close> and the two gRPC stubs hold what the arguments of the
  operations stand for.
\<close>

record Client =
  curSlot :: uint64
  curEpoch :: uint64
  prevEpoch :: uint64
  nextEpochProposerIndexToPubKey :: index_map
  nextEpochSlotToProposerIndex :: slot_map
  curEpochProposerIndexToPubKey :: index_map
  curEpochSlotToProposerIndex :: slot_map
  grpcRetryDelay :: int
  grpcRetries :: nat
  maxCallRecvMsgSize :: int
  endpoint :: string
  SlotsPerEpoch :: uint64

text \<open>Five seconds, in nanoseconds.\<close>

definition dialInterval :: int where
  "dialInterval = 5 * 1000000000"

definition NewClient :: "string \<Rightarrow> uint64 \<Rightarrow> Client" where
  "NewClient vanguardRPCEndpoint slotsPerEpoch =
     \<lparr>curSlot = 0, curEpoch = 0, prevEpoch = 0,
      nextEpochProposerIndexToPubKey = Map.empty, nextEpochSlotToProposerIndex = Map.empty,
      curEpochProposerIndexToPubKey = Map.empty, curEpochSlotToProposerIndex = Map.empty,
      grpcRetryDelay = dialInterval, grpcRetries = 5, maxCallRecvMsgSize = 4194304,
      endpoint = vanguardRPCEndpoint, SlotsPerEpoch = slotsPerEpoch\<rparr>"

text \<open>The options of a connection; \<open>tls\<close> loads a certificate file.\<close>

datatype CallOption = MaxCallRecvMsgSize int | WithMax nat | WithBackoffLinear int

datatype 'creds DialOption = WithTransportCredentials 'creds | WithInsecure | WithDefaultCallOptions "CallOption list" | ExtraOption nat

definition ConstructDialOptions ::
  "(string \<Rightarrow> string + 'creds) \<Rightarrow> int \<Rightarrow> string \<Rightarrow> nat \<Rightarrow> int \<Rightarrow> 'creds DialOption list \<Rightarrow> 'creds DialOption list option" where
  "ConstructDialOptions tls maxSize withCert retries retryDelay extraOpts =
     (let options = (\<lambda>transportSecurity.
            [transportSecurity,
             WithDefaultCallOptions
               [MaxCallRecvMsgSize (if maxSize = 0 then 10 * 5 * 2 ^ 20 else maxSize), WithMax retries, WithBackoffLinear retryDelay]]
            @ extraOpts) in
      if withCert \<noteq> [] then
        case tls withCert of Inl err \<Rightarrow> None | Inr creds \<Rightarrow> Some (options (WithTransportCredentials creds))
      else Some (options WithInsecure))"

text \<open>A missing key of a Go map reads as the zero value.\<close>

definition slot_index :: "slot_map \<Rightarrow> uint64 \<Rightarrow> uint64" where
  "slot_index m k = (case m k of None \<Rightarrow> 0 | Some v \<Rightarrow> v)"

definition index_key :: "index_map \<Rightarrow> uint64 \<Rightarrow> string" where
  "index_key m k = (case m k of None \<Rightarrow> [] | Some v \<Rightarrow> v)"

text \<open>The keys are sorted as \<open>int\<close>; \<open>keys\<close> are those of the map in any order.\<close>

definition logProposerSchedule :: "uint64 list \<Rightarrow> index_map \<Rightarrow> slot_map \<Rightarrow> (uint64 \<times> string) list" where
  "logProposerSchedule keys proposerIndexToPubKey slotToProposerIndex =
     map (\<lambda>k. let slot = word_of_int k in (slot, ''0x'' @ index_key proposerIndexToPubKey (slot_index slotToProposerIndex slot)))
       (sort (map sint keys))"

text \<open>The first mismatch that is reported: slot, given and stored key, both cut to twelve characters.\<close>

definition cut12 :: "string \<Rightarrow> string outcome" where
  "cut12 t = (if length t < 12 then Panic SliceOutOfRange else Return (take 12 t))"

fun check_slots :: "Client \<Rightarrow> assignment \<Rightarrow> uint64 list \<Rightarrow> (uint64 \<times> string \<times> string) option outcome" where
  "check_slots c a [] = Return None"
| "check_slots c a (slot # slots) =
     (let stored = index_key (nextEpochProposerIndexToPubKey c) (slot_index (nextEpochSlotToProposerIndex c) slot) in
      if length stored > 0 \<and> slot_index (curEpochSlotToProposerIndex c) slot \<noteq> ValidatorIndex a then
        outcome_bind (cut12 (EncodeToString (PublicKey a))) (\<lambda>given.
          outcome_bind (cut12 stored) (\<lambda>stored. Return (Some (slot, ''0x'' @ given, ''0x'' @ stored))))
      else check_slots c a slots)"

fun checkCompatibility :: "Client \<Rightarrow> assignment list \<Rightarrow> (uint64 \<times> string \<times> string) option outcome" where
  "checkCompatibility c [] = Return None"
| "checkCompatibility c (a # as) =
     outcome_bind (check_slots c a (ProposerSlots a)) (\<lambda>r.
       case r of Some m \<Rightarrow> Return (Some m) | None \<Rightarrow> checkCompatibility c as)"

definition CanonicalHeadSlot :: "string + uint64 \<Rightarrow> Client \<Rightarrow> string option \<times> Client" where
  "CanonicalHeadSlot head c = (case head of Inl err \<Rightarrow> (Some err, c) | Inr headSlot \<Rightarrow> (None, c\<lparr>curSlot := headSlot\<rparr>))"

text \<open>
  One tick of \<open>runner\<close>: whether it goes on, the variable \<open>firsTime\<close> and the client afterwards. The node
  answers \<open>next_list\<close> for the next epoch and \<open>epoch_list e\<close> for the epoch \<open>e\<close>.
\<close>

definition refresh ::
  "string + assignment list \<Rightarrow> (uint64 \<Rightarrow> string + assignment list) \<Rightarrow> bool \<Rightarrow> Client \<Rightarrow> (bool \<times> bool \<times> Client) outcome" where
  "refresh next_list epoch_list firsTime c =
     (let c = c\<lparr>prevEpoch := curEpoch c\<rparr> in
      case next_list of
        Inl err \<Rightarrow> Return (False, firsTime, c)
      | Inr nextAssignments \<Rightarrow>
          let (idx, slots) = processNextEpochAssignments nextAssignments;
              c = c\<lparr>curEpochProposerIndexToPubKey := nextEpochProposerIndexToPubKey c,
                    curEpochSlotToProposerIndex := nextEpochSlotToProposerIndex c\<rparr>;
              c = c\<lparr>nextEpochProposerIndexToPubKey := idx, nextEpochSlotToProposerIndex := slots\<rparr> in
          case epoch_list (curEpoch c) of
            Inl err \<Rightarrow> Return (False, firsTime, c)
          | Inr curAssignments \<Rightarrow>
              let c = (if firsTime then
                         let (idx, slots) = processNextEpochAssignments curAssignments in
                         c\<lparr>curEpochProposerIndexToPubKey := idx, curEpochSlotToProposerIndex := slots\<rparr>
                       else c) in
              outcome_bind (checkCompatibility c curAssignments) (\<lambda>_. Return (True, False, c)))"

text \<open>\<open>DivSlot\<close> is the division of the package \<open>eth2-types\<close>.\<close>

definition tick ::
  "(uint64 \<Rightarrow> uint64 \<Rightarrow> uint64 outcome) \<Rightarrow> string + uint64 \<Rightarrow> string + assignment list \<Rightarrow> (uint64 \<Rightarrow> string + assignment list)
     \<Rightarrow> bool \<Rightarrow> Client \<Rightarrow> (bool \<times> bool \<times> Client) outcome" where
  "tick DivSlot head next_list epoch_list firsTime c =
     (case CanonicalHeadSlot head c of
        (Some err, c) \<Rightarrow> Return (True, firsTime, c)
      | (None, c) \<Rightarrow>
          outcome_bind (DivSlot (curSlot c) (SlotsPerEpoch c)) (\<lambda>e.
            let c = c\<lparr>curEpoch := e\<rparr> in
            if firsTime \<or> curEpoch c \<ge> prevEpoch c + 1 then refresh next_list epoch_list firsTime c
            else Return (True, firsTime, c)))"

text \<open>What \<open>runner\<close> selects on: a tick, with the answers the node gives in it, or the end of its context.\<close>

datatype event = Ticked "string + uint64" "string + assignment list" "uint64 \<Rightarrow> string + assignment list" | Done

fun runner :: "(uint64 \<Rightarrow> uint64 \<Rightarrow> uint64 outcome) \<Rightarrow> event list \<Rightarrow> bool \<Rightarrow> Client \<Rightarrow> (bool \<times> bool \<times> Client) outcome" where
  "runner DivSlot [] firsTime c = Return (True, firsTime, c)"
| "runner DivSlot (Done # events) firsTime c = Return (False, firsTime, c)"
| "runner DivSlot (Ticked head next_list epoch_list # events) firsTime c =
     outcome_bind (tick DivSlot head next_list epoch_list firsTime c) (\<lambda>(go, firsTime, c).
       if go then runner DivSlot events firsTime c else Return (False, firsTime, c))"

text \<open>\<open>main\<close> up to the dial, whose error ends it; the flags are its arguments.\<close>

definition start_client ::
  "(string \<Rightarrow> string + 'creds) \<Rightarrow> (string \<Rightarrow> 'creds DialOption list \<Rightarrow> string option) \<Rightarrow> string \<Rightarrow> uint64 \<Rightarrow> Client option" where
  "start_client tls DialContext vanguardRPCEndpoint slotsPerEpoch =
     (let c = NewClient vanguardRPCEndpoint slotsPerEpoch in
      case ConstructDialOptions tls (maxCallRecvMsgSize c) [] (grpcRetries c) (grpcRetryDelay c) [] of
        None \<Rightarrow> None
      | Some dialOpts \<Rightarrow> (case DialContext (endpoint c) dialOpts of Some err \<Rightarrow> None | None \<Rightarrow> Some c))"

definition epoch_main ::
  "(uint64 \<Rightarrow> uint64 \<Rightarrow> uint64 outcome) \<Rightarrow> (string \<Rightarrow> string + 'creds) \<Rightarrow> (string \<Rightarrow> 'creds DialOption list \<Rightarrow> string option)
     \<Rightarrow> string \<Rightarrow> uint64 \<Rightarrow> event list \<Rightarrow> (bool \<times> bool \<times> Client) option outcome" where
  "epoch_main DivSlot tls DialContext vanguardRPCEndpoint slotsPerEpoch events =
     (case start_client tls DialContext vanguardRPCEndpoint slotsPerEpoch of
        None \<Rightarrow> Return None
      | Some c \<Rightarrow> outcome_bind (runner DivSlot events True c) (\<lambda>r. Return (Some r)))"

section \<open>Schedules\<close>

text \<open>The proposer of a slot is the last assignment that names it.\<close>

definition proposer_of :: "assignment list \<Rightarrow> uint64 \<Rightarrow> uint64 option" where
  "proposer_of as slot =
     (case filter (\<lambda>a. slot \<in> set (ProposerSlots a)) as of [] \<Rightarrow> None | xs \<Rightarrow> Some (ValidatorIndex (last xs)))"

lemma set_slots_eq: "set_slots slots v m k = (if k \<in> set slots then Some v else m k)"
  by (induction slots arbitrary: m) auto

lemma process_assignments_slots:
  "snd (process_assignments as (I, M)) slot = (case proposer_of as slot of None \<Rightarrow> M slot | Some v \<Rightarrow> Some v)"
proof (induction as arbitrary: I M)
  case (Cons a as)
  show ?case
    by (simp add: Cons set_slots_eq proposer_of_def split: option.split list.split)
qed (simp add: proposer_of_def)

text \<open>A node that gives the same proposers for an epoch whenever it is asked, one validator per slot.\<close>

definition unique_proposers :: "assignment list \<Rightarrow> bool" where
  "unique_proposers as \<longleftrightarrow> (\<forall>a\<in>set as. \<forall>b\<in>set as. \<forall>slot. slot \<in> set (ProposerSlots a) \<and> slot \<in> set (ProposerSlots b)
     \<longrightarrow> ValidatorIndex a = ValidatorIndex b)"

definition node_event :: "(uint64 \<Rightarrow> assignment list) \<Rightarrow> uint64 \<Rightarrow> uint64 \<Rightarrow> event" where
  "node_event node n head = Ticked (Inr head) (Inr (node (head div n + 1))) (\<lambda>e. Inr (node e))"

definition node_tick ::
  "(uint64 \<Rightarrow> uint64 \<Rightarrow> uint64 outcome) \<Rightarrow> (uint64 \<Rightarrow> assignment list) \<Rightarrow> uint64 \<Rightarrow> bool \<Rightarrow> Client \<Rightarrow> (bool \<times> bool \<times> Client) outcome" where
  "node_tick DivSlot node head firsTime c =
     tick DivSlot (Inr head) (Inr (node (head div SlotsPerEpoch c + 1))) (\<lambda>e. Inr (node e)) firsTime c"

definition divides :: "(uint64 \<Rightarrow> uint64 \<Rightarrow> uint64 outcome) \<Rightarrow> bool" where
  "divides DivSlot \<longleftrightarrow> (\<forall>s n. n \<noteq> 0 \<longrightarrow> DivSlot s n = Return (s div n))"

text \<open>The client has the schedules of the epoch \<open>e\<close> and of the next.\<close>

definition has_schedule :: "(uint64 \<Rightarrow> assignment list) \<Rightarrow> uint64 \<Rightarrow> Client \<Rightarrow> bool" where
  "has_schedule node e c \<longleftrightarrow> prevEpoch c = e
     \<and> (curEpochProposerIndexToPubKey c, curEpochSlotToProposerIndex c) = processNextEpochAssignments (node e)
     \<and> (nextEpochProposerIndexToPubKey c, nextEpochSlotToProposerIndex c) = processNextEpochAssignments (node (e + 1))"

lemma slot_of_assignment:
  assumes "unique_proposers as" and "a \<in> set as" and "slot \<in> set (ProposerSlots a)"
  shows "slot_index (snd (processNextEpochAssignments as)) slot = ValidatorIndex a"
proof -
  let ?xs = "filter (\<lambda>b. slot \<in> set (ProposerSlots b)) as"
  have ne: "?xs \<noteq> []" using assms(2,3) by (auto simp: filter_empty_conv)
  then have "last ?xs \<in> set ?xs" by (rule last_in_set)
  then have "ValidatorIndex (last ?xs) = ValidatorIndex a" using assms by (auto simp: unique_proposers_def)
  moreover have "proposer_of as slot = Some (ValidatorIndex (last ?xs))"
    using ne by (simp add: proposer_of_def split: list.split)
  ultimately show ?thesis
    by (simp add: processNextEpochAssignments_def slot_index_def process_assignments_slots)
qed

lemma checkCompatibility_silent:
  assumes "\<forall>a\<in>set as. \<forall>slot\<in>set (ProposerSlots a). slot_index (curEpochSlotToProposerIndex c) slot = ValidatorIndex a
      \<or> index_key (nextEpochProposerIndexToPubKey c) (slot_index (nextEpochSlotToProposerIndex c) slot) = []"
  shows "checkCompatibility c as = Return None"
proof -
  have "check_slots c a slots = Return None"
    if "\<forall>slot\<in>set slots. slot_index (curEpochSlotToProposerIndex c) slot = ValidatorIndex a
      \<or> index_key (nextEpochProposerIndexToPubKey c) (slot_index (nextEpochSlotToProposerIndex c) slot) = []" for a slots
    using that by (induction slots) (auto simp: Let_def)
  then show ?thesis using assms by (induction as) auto
qed

lemma refresh_schedule:
  assumes "unique_proposers (node (curEpoch c))"
    and "firsTime \<or> (nextEpochProposerIndexToPubKey c, nextEpochSlotToProposerIndex c) = processNextEpochAssignments (node (curEpoch c))"
  shows "\<exists>c'. refresh (Inr (node (curEpoch c + 1))) (\<lambda>e. Inr (node e)) firsTime c = Return (True, False, c')
    \<and> has_schedule node (curEpoch c) c' \<and> SlotsPerEpoch c' = SlotsPerEpoch c"
proof -
  obtain ni ns where n: "processNextEpochAssignments (node (curEpoch c + 1)) = (ni, ns)" by (cases "processNextEpochAssignments (node (curEpoch c + 1))")
  obtain ci cs where cc: "processNextEpochAssignments (node (curEpoch c)) = (ci, cs)" by (cases "processNextEpochAssignments (node (curEpoch c))")
  have cs: "slot_index cs slot = ValidatorIndex a" if "a \<in> set (node (curEpoch c))" "slot \<in> set (ProposerSlots a)" for a slot
    using slot_of_assignment [OF assms(1) that] cc by simp
  have chk: "checkCompatibility c' (node (curEpoch c)) = Return None" if "curEpochSlotToProposerIndex c' = cs" for c'
    using cs that by (intro checkCompatibility_silent) simp
  show ?thesis
  proof (cases firsTime)
    case True
    then show ?thesis using chk n cc by (simp add: refresh_def has_schedule_def Let_def)
  next
    case False
    then have "nextEpochProposerIndexToPubKey c = ci" "nextEpochSlotToProposerIndex c = cs" using assms(2) cc by auto
    then show ?thesis using False chk n cc by (simp add: refresh_def has_schedule_def Let_def)
  qed
qed

lemma node_tick_eq:
  assumes "divides DivSlot" and "SlotsPerEpoch c = n" and "n \<noteq> 0"
  shows "node_tick DivSlot node h firsTime c =
      (let e = h div n; c = c\<lparr>curSlot := h, curEpoch := e\<rparr> in
       if firsTime \<or> e \<ge> prevEpoch c + 1 then refresh (Inr (node (e + 1))) (\<lambda>e. Inr (node e)) firsTime c
       else Return (True, firsTime, c))"
  using assms by (simp add: node_tick_def tick_def CanonicalHeadSlot_def divides_def Let_def)

lemma runner_node_event:
  assumes "node_tick DivSlot node h firsTime c = Return (True, False, c')" and "SlotsPerEpoch c = n"
  shows "runner DivSlot (node_event node n h # events) firsTime c = runner DivSlot events False c'"
  using assms by (simp add: node_event_def node_tick_def)

text \<open>Heads whose epochs never go back and never leave one out, after the epoch \<open>e\<close>.\<close>

fun steady :: "uint64 \<Rightarrow> uint64 \<Rightarrow> uint64 list \<Rightarrow> bool" where
  "steady n e [] = True"
| "steady n e (h # hs) = (e < e + 1 \<and> (h div n = e \<or> h div n = e + 1) \<and> steady n (h div n) hs)"

lemma runner_steady:
  assumes "divides DivSlot" and "SlotsPerEpoch c = n" and "n \<noteq> 0" and "\<forall>e. unique_proposers (node e)"
    and "has_schedule node e c" and "steady n e heads"
  shows "\<exists>c'. runner DivSlot (map (node_event node n) heads) False c = Return (True, False, c')
    \<and> has_schedule node (last (e # map (\<lambda>h. h div n) heads)) c'"
  using assms(2,5,6)
proof (induction heads arbitrary: e c)
  case (Cons h hs)
  let ?e = "h div n"
  let ?c = "c\<lparr>curSlot := h, curEpoch := ?e\<rparr>"
  have p: "prevEpoch c = e" using Cons.prems(2) by (simp add: has_schedule_def)
  have st: "node_tick DivSlot node h False c =
      (if ?e \<ge> e + 1 then refresh (Inr (node (?e + 1))) (\<lambda>e. Inr (node e)) False ?c else Return (True, False, ?c))"
    using node_tick_eq [OF assms(1) Cons.prems(1) assms(3), of node h False] p by (simp add: Let_def)
  have "\<exists>c1. node_tick DivSlot node h False c = Return (True, False, c1) \<and> has_schedule node ?e c1 \<and> SlotsPerEpoch c1 = n"
  proof (cases "?e = e")
    case True
    moreover have "\<not> e \<ge> e + 1" using Cons.prems(3) by (simp add: not_le)
    ultimately show ?thesis using st Cons.prems(1,2) by (simp add: has_schedule_def)
  next
    case False
    then have e1: "?e = e + 1" using Cons.prems(3) by auto
    have "(nextEpochProposerIndexToPubKey ?c, nextEpochSlotToProposerIndex ?c) = processNextEpochAssignments (node (curEpoch ?c))"
      using Cons.prems(2) e1 by (simp add: has_schedule_def)
    with refresh_schedule [of node ?c False] assms(4) show ?thesis using st e1 Cons.prems(1) by auto
  qed
  then obtain c1 where c1: "node_tick DivSlot node h False c = Return (True, False, c1)" "has_schedule node ?e c1" "SlotsPerEpoch c1 = n" by blast
  from Cons.IH [OF c1(3,2)] Cons.prems(3) runner_node_event [OF c1(1) Cons.prems(1)] show ?case by auto
qed simp


definition demo_node :: "uint64 \<Rightarrow> assignment list" where
  "demo_node e = [\<lparr>ValidatorIndex = e + 5, ProposerSlots = [2 * e, 2 * e + 1], PublicKey = [1, 2, 3, 4, 5, 6]\<rparr>]"

definition demo_div :: "uint64 \<Rightarrow> uint64 \<Rightarrow> uint64 outcome" where
  "demo_div s n = (if n = 0 then Panic (UserPanic ''divbyzero'') else Return (s div n))"

lemma divides_demo: "divides demo_div"
  by (simp add: divides_def demo_div_def)


text \<open>
  C40. When the head leaves an epoch out, the client stores the schedule of the epoch after its last one as that of the
  head's epoch, and \<open>checkCompatibility\<close>, which reads the stored key in the map of the next epoch, reports
  nothing as long as the two epochs share no slot and validator 0 does not propose in the next one.
\<close>

theorem skipped_epoch_unnoticed:
  assumes "divides DivSlot" and "SlotsPerEpoch c = n" and "n \<noteq> 0" and "has_schedule node e c" and "h div n \<ge> e + 1"
    and "\<forall>a\<in>set (node (h div n)). \<forall>slot\<in>set (ProposerSlots a). proposer_of (node (h div n + 1)) slot = None"
    and "fst (processNextEpochAssignments (node (h div n + 1))) 0 = None"
  shows "\<exists>c'. node_tick DivSlot node h False c = Return (True, False, c')
    \<and> curEpoch c' = h div n \<and> checkCompatibility c' (node (h div n)) = Return None
    \<and> (curEpochProposerIndexToPubKey c', curEpochSlotToProposerIndex c') = processNextEpochAssignments (node (e + 1))"
proof -
  let ?e = "h div n"
  obtain ni ns where n: "processNextEpochAssignments (node (?e + 1)) = (ni, ns)" by (cases "processNextEpochAssignments (node (?e + 1))")
  have ns: "slot_index ns slot = 0" if "proposer_of (node (?e + 1)) slot = None" for slot
    using process_assignments_slots [of "node (?e + 1)" Map.empty Map.empty slot] that n
    by (simp add: processNextEpochAssignments_def slot_index_def)
  have chk: "checkCompatibility c' (node ?e) = Return None"
    if "nextEpochProposerIndexToPubKey c' = ni" "nextEpochSlotToProposerIndex c' = ns" for c'
    using assms(6,7) ns n that by (intro checkCompatibility_silent) (simp add: index_key_def)
  have "prevEpoch c = e" using assms(4) by (simp add: has_schedule_def)
  then show ?thesis
    using node_tick_eq [OF assms(1-3), of node h False] assms(4,5) chk n by (simp add: refresh_def has_schedule_def Let_def)
qed

definition demo_epoch_client :: Client where
  "demo_epoch_client = (NewClient [] 2)\<lparr>
     nextEpochProposerIndexToPubKey := fst (processNextEpochAssignments (demo_node 1)),
     nextEpochSlotToProposerIndex := snd (processNextEpochAssignments (demo_node 1)),
     curEpochProposerIndexToPubKey := fst (processNextEpochAssignments (demo_node 0)),
     curEpochSlotToProposerIndex := snd (processNextEpochAssignments (demo_node 0))\<rparr>"

theorem skipped_epoch_unnoticed_witness:
  "\<exists>c'. node_tick demo_div demo_node 6 False demo_epoch_client = Return (True, False, c')
    \<and> curEpoch c' = 3 \<and> checkCompatibility c' (demo_node 3) = Return None
    \<and> (curEpochProposerIndexToPubKey c', curEpochSlotToProposerIndex c') = processNextEpochAssignments (demo_node 1)
    \<and> processNextEpochAssignments (demo_node 1) \<noteq> processNextEpochAssignments (demo_node 3)"
proof -
  have "SlotsPerEpoch demo_epoch_client = 2" "has_schedule demo_node 0 demo_epoch_client"
    by (simp_all add: demo_epoch_client_def NewClient_def has_schedule_def)
  moreover have "\<forall>a\<in>set (demo_node 3). \<forall>slot\<in>set (ProposerSlots a). proposer_of (demo_node 4) slot = None"
    "fst (processNextEpochAssignments (demo_node 4)) 0 = None"
    by (simp_all add: demo_node_def proposer_of_def processNextEpochAssignments_def)
  moreover have "snd (processNextEpochAssignments (demo_node 1)) 2 \<noteq> snd (processNextEpochAssignments (demo_node 3)) 2"
    by (simp add: processNextEpochAssignments_def demo_node_def)
  then have "processNextEpochAssignments (demo_node 1) \<noteq> processNextEpochAssignments (demo_node 3)" by metis
  ultimately show ?thesis
    using skipped_epoch_unnoticed [of demo_div demo_epoch_client 2 demo_node 0 6] divides_demo by simp
qed

end
