(* ===== verification/Orchestrator.thy ===== *)
theory Orchestrator
  imports Rpc_Server Rpc_Client Fileutil
begin

text \<open>
  The orchestrator (\<open>simple_rpc/main.go\<close>, \<open>simple_rpc/api\<close>, \<open>simple_rpc/ipc-client\<close> and
  \<open>simple_rpc/utils\<close>): the API it serves, the client that calls it, where the two meet in the file
  system, and how its command-line flags are parsed and grouped. What depends on the platform
  (\<open>runtime.GOOS\<close>, the directory for temporary files) is an argument.
\<close>

section \<open>The API\<close>

record ExtraData =
  ed_Slot :: uint64
  ed_Epoch :: uint64

text \<open>Hashes and addresses are arrays of 32 and 20 bytes.\<close>

record ShardInfo =
  ParentHash :: "byte list"
  Coinbase :: "byte list"
  Root :: "byte list"
  TxHash :: "byte list"
  ReceiptHash :: "byte list"
  Number :: int

record OrchestratorApi =
  orc_version :: uint64
  orc_name :: string

definition NewOrchestratorApi :: "uint64 \<Rightarrow> string \<Rightarrow> OrchestratorApi" where
  "NewOrchestratorApi version nam = \<lparr>orc_version = version, orc_name = nam\<rparr>"

definition ProduceCatalystBlock :: "OrchestratorApi \<Rightarrow> ExtraData \<Rightarrow> rpc_error + ShardInfo" where
  "ProduceCatalystBlock orcApi data =
     Inr \<lparr>ParentHash = replicate 32 0, Coinbase = replicate 20 0, Root = replicate 32 0, TxHash = replicate 32 0,
          ReceiptHash = replicate 32 0, Number = 45\<rparr>"

definition GetShardInfo :: "OrchestratorApi \<Rightarrow> rpc_error + ShardInfo" where
  "GetShardInfo orcApi =
     Inr \<lparr>ParentHash = replicate 32 0, Coinbase = replicate 20 0, Root = replicate 32 0, TxHash = replicate 32 0,
          ReceiptHash = replicate 32 0, Number = 45\<rparr>"

subsection \<open>Validation messages and transactions\<close>

record ValidationInfo =
  Typ :: string
  info_Message :: string

definition WARN :: string where "WARN = ''WARNING''"
definition CRIT :: string where "CRIT = ''CRITICAL''"
definition INFO :: string where "INFO = ''Info''"

type_synonym ValidationMessages = "ValidationInfo list"

definition vm_Crit :: "string \<Rightarrow> ValidationMessages \<Rightarrow> ValidationMessages" where
  "vm_Crit msg vs = vs @ [\<lparr>Typ = CRIT, info_Message = msg\<rparr>]"

definition vm_Warn :: "string \<Rightarrow> ValidationMessages \<Rightarrow> ValidationMessages" where
  "vm_Warn msg vs = vs @ [\<lparr>Typ = WARN, info_Message = msg\<rparr>]"

definition vm_Info :: "string \<Rightarrow> ValidationMessages \<Rightarrow> ValidationMessages" where
  "vm_Info msg vs = vs @ [\<lparr>Typ = INFO, info_Message = msg\<rparr>]"

definition getWarnings :: "ValidationMessages \<Rightarrow> string option" where
  "getWarnings v =
     (let messages = map info_Message (filter (\<lambda>msg. Typ msg = WARN \<or> Typ msg = CRIT) v) in
      if length messages > 0 then Some (''validation failed: '' @ join '','' messages) else None)"

text \<open>\<open>'addr\<close> is the type of mixed-case addresses, \<open>plain\<close> the address in one.\<close>

record 'addr SendTxArgs =
  tx_From :: 'addr
  tx_To :: "'addr option"
  tx_Gas :: uint64
  tx_GasPrice :: int
  tx_Value :: int
  tx_Nonce :: uint64
  tx_Data :: "byte list option"
  tx_Input :: "byte list option"

text \<open>The two constructors of the transaction package with their arguments.\<close>

datatype 'a transaction =
    NewContractCreation uint64 int uint64 int "byte list"
  | NewTransaction uint64 'a int uint64 int "byte list"

definition toTransaction :: "('addr \<Rightarrow> 'a) \<Rightarrow> 'addr SendTxArgs \<Rightarrow> 'a transaction" where
  "toTransaction plain args =
     (let input = (case tx_Data args of
                     Some d \<Rightarrow> d
                   | None \<Rightarrow> (case tx_Input args of Some i \<Rightarrow> i | None \<Rightarrow> [])) in
      case tx_To args of
        None \<Rightarrow> NewContractCreation (tx_Nonce args) (tx_Value args) (tx_Gas args) (tx_GasPrice args) input
      | Some a \<Rightarrow> NewTransaction (tx_Nonce args) (plain a) (tx_Value args) (tx_Gas args) (tx_GasPrice args) input)"

section \<open>Flags\<close>

definition utils_HomeDir :: "proc_env \<Rightarrow> string" where
  "utils_HomeDir env =
     (if Getenv env ''HOME'' \<noteq> [] then Getenv env ''HOME''
      else (case user_Current env of Some usr \<Rightarrow> usr | None \<Rightarrow> []))"

definition expandPath :: "proc_env \<Rightarrow> string \<Rightarrow> string" where
  "expandPath env p =
     (let p = (if HasPrefix p ''~/'' \<or> HasPrefix p [CHR ''~'', CHR 0x5C] then
                 (let home = utils_HomeDir env in if home \<noteq> [] then home @ drop 1 p else p)
               else p) in
      Clean (Expand (Getenv env) p))"

record DirectoryFlag =
  df_Name :: string
  df_Value :: string
  df_Usage :: string

definition DirectoryFlag_Set :: "proc_env \<Rightarrow> string \<Rightarrow> DirectoryFlag \<Rightarrow> DirectoryFlag" where
  "DirectoryFlag_Set env value f = f\<lparr>df_Value := expandPath env value\<rparr>"

fun split_comma :: "string \<Rightarrow> string list" where
  "split_comma [] = [[]]"
| "split_comma (c # s) = (if c = CHR '','' then [] # split_comma s else (c # hd (split_comma s)) # tl (split_comma s))"

definition Trim :: "string \<Rightarrow> string" where
  "Trim s = rev (dropWhile (\<lambda>c. c = CHR '' '') (rev (dropWhile (\<lambda>c. c = CHR '' '') s)))"

text \<open>The names that \<open>eachName\<close> calls its function with.\<close>

definition eachName :: "string \<Rightarrow> string list" where
  "eachName longName = map Trim (split_comma longName)"

text \<open>A flag set is known by the names defined in it; \<open>FlagSet.Var\<close> panics on a name it has.\<close>

definition FlagSet_Var :: "string \<Rightarrow> string list \<Rightarrow> string list outcome" where
  "FlagSet_Var nam set_names =
     (if nam \<in> set set_names then Panic (UserPanic (''flag redefined: '' @ nam)) else Return (set_names @ [nam]))"

fun apply_names :: "DirectoryFlag \<Rightarrow> string list \<Rightarrow> string list \<Rightarrow> string list outcome" where
  "apply_names f [] set_names = Return set_names"
| "apply_names f (nam # names) set_names = outcome_bind (FlagSet_Var (df_Name f) set_names) (apply_names f names)"

definition DirectoryFlag_Apply :: "DirectoryFlag \<Rightarrow> string list \<Rightarrow> string list outcome" where
  "DirectoryFlag_Apply f set_names = apply_names f (eachName (df_Name f)) set_names"

text \<open>\<open>home\<close> is the home directory as go-ethereum finds it; \<open>path_join\<close> joins in the platform's way.\<close>

definition DefaultConfigDir :: "(string list \<Rightarrow> string) \<Rightarrow> string \<Rightarrow> string \<Rightarrow> string \<Rightarrow> string" where
  "DefaultConfigDir path_join goos home appdata =
     (if home \<noteq> [] then
        (if goos = ''darwin'' then path_join [home, ''Library'', ''Orchestrator'']
         else if goos = ''windows'' then
           (if appdata \<noteq> [] then path_join [appdata, ''Orchestrator'']
            else path_join [home, ''AppData'', ''Roaming'', ''Orchestrator''])
         else path_join [home, ''.Orchestrator''])
      else [])"

subsection \<open>Groups of flags\<close>

record cli_flag =
  GetName :: string
  flag_String :: string

record FlagGroup =
  group_Name :: string
  group_Flags :: "cli_flag list"

fun FlagCategory :: "cli_flag \<Rightarrow> FlagGroup list \<Rightarrow> string" where
  "FlagCategory flag [] = ''MISC''"
| "FlagCategory flag (category # groups) =
     (if \<exists>flg\<in>set (group_Flags category). GetName flg = GetName flag then group_Name category
      else FlagCategory flag groups)"

text \<open>The loop of \<open>Less\<close> for one of the two names: the last position with that name.\<close>

fun group_index :: "string \<Rightarrow> FlagGroup list \<Rightarrow> nat \<Rightarrow> nat \<Rightarrow> nat" where
  "group_index cat [] i idx = idx"
| "group_index cat (grp # gs) i idx = group_index cat gs (Suc i) (if cat = group_Name grp then i else idx)"

definition ByCategory_Less :: "FlagGroup list \<Rightarrow> nat \<Rightarrow> nat \<Rightarrow> bool outcome" where
  "ByCategory_Less a i j =
     (if i \<ge> length a \<or> j \<ge> length a then Panic IndexOutOfRange
      else Return (group_index (group_Name (a ! i)) a 0 (length a) < group_index (group_Name (a ! j)) a 0 (length a)))"

definition ByCategory_Swap :: "FlagGroup list \<Rightarrow> nat \<Rightarrow> nat \<Rightarrow> FlagGroup list outcome" where
  "ByCategory_Swap a i j =
     (if i \<ge> length a \<or> j \<ge> length a then Panic IndexOutOfRange else Return (a[i := a ! j, j := a ! i]))"

text \<open>The flags of a command by category, as the help printer collects them.\<close>

fun categorize :: "FlagGroup list \<Rightarrow> cli_flag list \<Rightarrow> (string \<rightharpoonup> cli_flag list) \<Rightarrow> (string \<rightharpoonup> cli_flag list)" where
  "categorize groups [] categorized = categorized"
| "categorize groups (flag # flags) categorized =
     categorize groups flags
       (if categorized (flag_String flag) = None then
          (let cat = FlagCategory flag groups in
           categorized(cat \<mapsto> (case categorized cat of None \<Rightarrow> [] | Some fs \<Rightarrow> fs) @ [flag]))
        else categorized)"

section \<open>Server and client\<close>

text \<open>\<open>filepath.Base\<close>, on Unix.\<close>

definition Base :: "string \<Rightarrow> string" where
  "Base p =
     (if p = [] then ''.''
      else
        let q = rev (dropWhile (\<lambda>c. c = slash) (rev p)) in
        if q = [] then [slash] else last (split_path q))"

definition pipe_prefix :: string where
  "pipe_prefix = [CHR 0x5C, CHR 0x5C, CHR ''.'', CHR 0x5C] @ ''pipe'' @ [CHR 0x5C]"

definition ipcEndpoint :: "string \<Rightarrow> string \<Rightarrow> string \<Rightarrow> string \<Rightarrow> string" where
  "ipcEndpoint goos TempDir ipcPath datadir =
     (if goos = ''windows'' then (if HasPrefix ipcPath pipe_prefix then ipcPath else pipe_prefix @ ipcPath)
      else if Base ipcPath = ipcPath then (if datadir = [] then Join TempDir ipcPath else Join datadir ipcPath)
      else ipcPath)"

text \<open>The endpoint that \<open>startServer\<close> and \<open>client\<close> compute from the two flags.\<close>

definition ipcapiURL :: "string \<Rightarrow> string \<Rightarrow> string \<Rightarrow> string \<Rightarrow> string" where
  "ipcapiURL goos TempDir configDir givenPath = ipcEndpoint goos TempDir (Join givenPath ''orchestrator.ipc'') configDir"

datatype orc_fn = FnModules | FnProduceCatalystBlock | FnGetShardInfo

definition orc_type :: rtype where "orc_type = Ptr (Named ''api.OrchestratorApi'' False)"
definition extra_type :: rtype where "extra_type = Named ''api.ExtraData'' False"
definition shard_type :: rtype where "shard_type = Ptr (Named ''api.ShardInfo'' False)"

text \<open>The methods in the order of \<open>reflect\<close>, by name.\<close>

definition orc_methods :: "orc_fn gomethod list" where
  "orc_methods =
     [\<lparr>m_name = ''GetShardInfo'', m_pkgPath = [],
       m_func = \<lparr>fn_id = FnGetShardInfo, fn_in = [orc_type, ContextType], fn_out = [shard_type, ErrorType]\<rparr>\<rparr>,
      \<lparr>m_name = ''ProduceCatalystBlock'', m_pkgPath = [],
       m_func = \<lparr>fn_id = FnProduceCatalystBlock, fn_in = [orc_type, ContextType, extra_type], fn_out = [shard_type, ErrorType]\<rparr>\<rparr>]"

definition rpcAPI :: "orc_fn API list" where
  "rpcAPI =
     [\<lparr>Namespace = ''orchestrator'', Version = ''1.0'', Service_type = ''*api.OrchestratorApi'',
       Service_methods = orc_methods, Public = True\<rparr>]"

text \<open>\<open>startServer\<close> up to the wait for a signal; \<open>listen\<close> opens the endpoint.\<close>

definition startServer ::
  "string \<Rightarrow> string \<Rightarrow> (string \<Rightarrow> rpc_error + 'l) \<Rightarrow> string \<Rightarrow> string \<Rightarrow> rpc_error + (string \<times> 'l \<times> orc_fn server)" where
  "startServer goos TempDir listen configDir givenPath =
     (let url = ipcapiURL goos TempDir configDir givenPath in
      case StartIPCEndpoint FnModules rpcAPI (listen url) of
        Inl err \<Rightarrow> Inl err
      | Inr (listener, handler) \<Rightarrow> Inr (url, listener, handler))"

text \<open>Running the functions; the values of the model's calls are arguments and results.\<close>

datatype orc_value = OExtra ExtraData | OShard ShardInfo | OModules "string list"

definition orc_result :: "rpc_error + ShardInfo \<Rightarrow> orc_value rvalue list outcome" where
  "orc_result r =
     (case r of
        Inl err \<Rightarrow> Return [RVal (OModules []), RErr (Some err)]
      | Inr info \<Rightarrow> Return [RVal (OShard info), RErr None])"

definition orc_invoke :: "OrchestratorApi \<Rightarrow> string list \<Rightarrow> orc_fn \<Rightarrow> orc_value fullarg list \<Rightarrow> orc_value prog" where
  "orc_invoke api modules f args =
     Done (case f of
             FnModules \<Rightarrow> Return [RVal (OModules modules)]
           | FnGetShardInfo \<Rightarrow> orc_result (GetShardInfo api)
           | FnProduceCatalystBlock \<Rightarrow>
               (case args of
                  [ArgRcvr, ArgCtx, ArgVal (OExtra data)] \<Rightarrow> orc_result (ProduceCatalystBlock api data)
                | _ \<Rightarrow> Panic (UserPanic ''reflect: Call with wrong arguments'')))"

record IpcClient =
  isConnected :: bool
  isRunning :: bool
  ic_endpoint :: string
  ic_idCounter :: uint32

text \<open>Of the RPC client the counter of its request IDs is kept; \<open>Dial\<close> is an argument.\<close>

definition NewIpcClilent :: "(string \<Rightarrow> rpc_error option) \<Rightarrow> string \<Rightarrow> rpc_error + IpcClient" where
  "NewIpcClilent Dial url =
     (case Dial url of
        Some err \<Rightarrow> Inl err
      | None \<Rightarrow> Inr \<lparr>isConnected = True, isRunning = True, ic_endpoint = url, ic_idCounter = 0\<rparr>)"

text \<open>
  \<open>args\<close> is the encoded argument array, \<open>send\<close> writes the request, \<open>answer\<close> is what arrives for it, and \<open>unmarshal\<close>
  decodes the result.
\<close>

definition ipc_ProduceCatalystBlock ::
  "(ExtraData \<Rightarrow> rpc_error + string) \<Rightarrow> (requestOp \<Rightarrow> wire \<Rightarrow> rpc_error option) \<Rightarrow> jsonrpcMessage option \<times> rpc_error option
     \<Rightarrow> (string \<Rightarrow> rpc_error + ShardInfo) \<Rightarrow> ExtraData \<Rightarrow> IpcClient \<Rightarrow> (rpc_error + ShardInfo) outcome \<times> IpcClient" where
  "ipc_ProduceCatalystBlock marshal send answer unmarshal data c =
     (let (r, n) = Call True [] ''orchestrator_produceCatalystBlock'' (Some (marshal data)) send answer
            (\<lambda>raw. case unmarshal raw of Inl err \<Rightarrow> Some err | Inr _ \<Rightarrow> None) (ic_idCounter c) in
      (outcome_bind r (\<lambda>err.
         case err of
           Some err \<Rightarrow> Return (Inl err)
         | None \<Rightarrow>
             (case answer of
                (Some resp, None) \<Rightarrow> Return (unmarshal (raw_bytes (Result resp)))
              | _ \<Rightarrow> Panic NilDereference)),
       c\<lparr>ic_idCounter := n\<rparr>))"

section \<open>A call from client to server\<close>

lemma rpcAPI_registers:
  "\<exists>s. register_apis rpcAPI (NewServer FnModules) = (None, s)
     \<and> registry_callback (sv_services s) ''orchestrator_produceCatalystBlock'' =
         Some \<lparr>fn = \<lparr>fn_id = FnProduceCatalystBlock, fn_in = [orc_type, ContextType, extra_type], fn_out = [shard_type, ErrorType]\<rparr>,
              has_rcvr = True, argTypes = [extra_type], hasCtx = True, errPos = 1, cb_isSubscribe = False\<rparr>"
proof -
  have "fst (register_apis rpcAPI (NewServer FnModules)) = None" by code_simp
  moreover have "registry_callback (sv_services (snd (register_apis rpcAPI (NewServer FnModules)))) ''orchestrator_produceCatalystBlock'' =
         Some \<lparr>fn = \<lparr>fn_id = FnProduceCatalystBlock, fn_in = [orc_type, ContextType, extra_type], fn_out = [shard_type, ErrorType]\<rparr>,
              has_rcvr = True, argTypes = [extra_type], hasCtx = True, errPos = 1, cb_isSubscribe = False\<rparr>"
    by code_simp
  ultimately show ?thesis by (metis prod.collapse)
qed

definition produce_msg :: "string \<Rightarrow> string \<Rightarrow> jsonrpcMessage" where
  "produce_msg i params =
     zero_message\<lparr>jsonrpcMessage.Version := vsn, ID := Some i, Method := ''orchestrator_produceCatalystBlock'', Params := Some params\<rparr>"

lemma newMessage_produce:
  "newMessage ''orchestrator_produceCatalystBlock'' (Some (Inr params)) n = (Inr (produce_msg (dec_nat (unat (n + 1))) params), n + 1)"
  by (simp add: newMessage_def nextID_def produce_msg_def Let_def)

lemma produce_msg_call:
  "\<not> isSubscribe (produce_msg i params)" "\<not> isUnsubscribe (produce_msg i params)"
  "isCall (produce_msg (dec_nat k) params)" "\<not> isNotification (produce_msg i params)"
proof -
  show "\<not> isSubscribe (produce_msg i params)" "\<not> isUnsubscribe (produce_msg i params)" "\<not> isNotification (produce_msg i params)"
    by (simp_all add: produce_msg_def isSubscribe_def isUnsubscribe_def isNotification_def HasSuffix_def
        subscribeMethodSuffix_def unsubscribeMethodSuffix_def)
  obtain c t where ct: "dec_nat k = c # t" using dec_nat_nonempty [of k] by (cases "dec_nat k") auto
  have "is_digit c" using list_all_digit_dec_nat [of k] by (simp add: ct)
  then have "c \<noteq> CHR ''{''" "c \<noteq> CHR ''[''" by (auto simp: is_digit_def char_code_def)
  then show "isCall (produce_msg (dec_nat k) params)" by (simp add: isCall_def hasValidID_def produce_msg_def ct)
qed

lemma handleCall_produce:
  assumes "e_invoke E = orc_invoke api modules"
    and "is_value arg" and "e_dec E extra_type arg = Inr (OExtra data)"
    and "ProduceCatalystBlock api data = Inr info" and "e_marshal E (OShard info) = Inr enc"
    and "register_apis rpcAPI (NewServer FnModules) = (None, s)" and "h_reg h = sv_services s"
  shows "\<exists>h'. handleCallMsg E (produce_msg (dec_nat k) (encode_array [arg])) h [] =
    (Some (response (produce_msg (dec_nat k) (encode_array [arg])) (Inr enc)), h', [])"
proof -
  let ?msg = "produce_msg (dec_nat k) (encode_array [arg])"
  obtain cb where cb: "registry_callback (h_reg h) (Method ?msg) = Some cb"
      and f: "fn_id (fn cb) = FnProduceCatalystBlock" "has_rcvr cb" "hasCtx cb" "argTypes cb = [extra_type]" "errPos cb = 1"
    using rpcAPI_registers assms(6,7) by (auto simp: produce_msg_def)
  have p: "Params ?msg = Some (encode_array [arg])" by (simp add: produce_msg_def)
  have args: "parsePositionalArguments (e_dec E) (e_zero E) (Params ?msg) (argTypes cb) = Inr [OExtra data]"
    using assms(2,3) by (simp add: p f(4) parsePositionalArguments_array argval_IsNil_def)
  have run: "runMethod E None ?msg cb [OExtra data] h = (response ?msg (Inr enc), h)"
    using assms(1,4,5) f by (simp add: runMethod_def fullargs_def orc_invoke_def orc_result_def call_results_def marshal_result_def)
  show ?thesis
    using produce_msg_call(3,4) by (auto simp: handleCallMsg_def handleCall_def produce_msg_call(1,2) cb args run Let_def)
qed

text \<open>A connection that takes one message and refuses every other.\<close>

definition carries :: "jsonrpcMessage \<Rightarrow> requestOp \<Rightarrow> wire \<Rightarrow> rpc_error option" where
  "carries msg op w = (if w = WMsg msg then None else Some (PlainError ''not sent''))"


definition demo_shard :: ShardInfo where
  "demo_shard = \<lparr>ParentHash = replicate 32 0, Coinbase = replicate 20 0, Root = replicate 32 0, TxHash = replicate 32 0,
     ReceiptHash = replicate 32 0, Number = 45\<rparr>"

definition demo_extra :: ExtraData where "demo_extra = \<lparr>ed_Slot = 4998, ed_Epoch = 454\<rparr>"

definition demo_orc_env :: "(orc_fn, orc_value, unit, unit) env" where
  "demo_orc_env = \<lparr>e_dec = (\<lambda>t v. if v = ''4998'' then Inr (OExtra demo_extra) else Inl ''bad''), e_zero = (\<lambda>t. OModules []),
     e_marshal = (\<lambda>v. if v = OShard demo_shard then Inr ''45'' else Inl (PlainError ''unsupported'')),
     e_id = (\<lambda>v. []), e_invoke = orc_invoke (NewOrchestratorApi 1 ''orchestratorApi'') [],
     e_write = (\<lambda>w c. (None, c)), e_idgen = (\<lambda>g. ([], g))\<rparr>"


section \<open>Endpoints and flags\<close>

lemma Base_name: "is_name p \<Longrightarrow> Base p = p"
proof -
  assume n: "is_name p"
  then have "slash \<notin> set p" "p \<noteq> []" by (auto simp: is_name_def)
  moreover from this have "dropWhile (\<lambda>c. c = slash) (rev p) = rev p"
    by (cases "rev p") (auto simp: rev_eq_Cons_iff)
  ultimately show ?thesis by (simp add: Base_def split_path_name)
qed

lemma orchestrator_ipc: "is_name ''orchestrator.ipc''"
  by (simp add: is_name_def slash_def)

text \<open>
  Without a path the endpoint lies in the configuration directory, or in the one for temporary files.
  A plain name, which the flag's description places within the data directory, is taken for a
  directory of the working directory instead.
\<close>

theorem ipcapiURL_place:
  assumes "goos \<noteq> ''windows''"
  shows "ipcapiURL goos tmp cfg [] = Join (if cfg = [] then tmp else cfg) ''orchestrator.ipc''"
    and "is_name n \<Longrightarrow> ipcapiURL goos tmp cfg n = n @ ''/orchestrator.ipc''"
proof -
  have c: "Clean ''orchestrator.ipc'' = ''orchestrator.ipc''" by code_simp
  show "ipcapiURL goos tmp cfg [] = Join (if cfg = [] then tmp else cfg) ''orchestrator.ipc''"
    using assms by (simp add: ipcapiURL_def ipcEndpoint_def Join_def [of "[]"] c Base_name [OF orchestrator_ipc])
  assume n: "is_name n"
  let ?p = "n @ slash # ''orchestrator.ipc''"
  have ns: "slash \<notin> set n" "n \<noteq> []" "n \<noteq> ''.''" "n \<noteq> ''..''" using n by (auto simp: is_name_def)
  have sp: "split_path ?p = [n, ''orchestrator.ipc'']"
    by (simp only: split_path_append [OF ns(1)]) (simp add: split_path_name slash_def)
  have "\<not> IsAbs ?p" using ns(1,2) by (cases n) (auto simp: IsAbs_def)
  then have j: "Join n ''orchestrator.ipc'' = ?p"
    unfolding Join_def Clean_def Let_def sp using ns(2-) by (simp add: slash_def)
  have "rev (dropWhile (\<lambda>c. c = slash) (rev ?p)) = ?p" by (simp add: slash_def)
  then have "Base ?p = ''orchestrator.ipc''" using sp by (simp add: Base_def)
  then have "length (Base ?p) < length ?p" using ns(2) by simp
  then have "Base ?p \<noteq> ?p" by (metis less_irrefl)
  then show "ipcapiURL goos tmp cfg n = n @ ''/orchestrator.ipc''"
    using assms by (simp add: ipcapiURL_def ipcEndpoint_def j) (simp add: slash_def)
qed

lemma group_index_distinct:
  "distinct (map group_Name a) \<Longrightarrow> i < length a \<Longrightarrow> group_index (group_Name (a ! i)) a k d = k + i"
proof (induction a arbitrary: i k d)
  case (Cons g gs)
  have keep: "group_index cat xs k d = d" if "cat \<notin> group_Name ` set xs" for cat xs k d
    using that by (induction xs arbitrary: k) auto
  show ?case
  proof (cases i)
    case 0
    then show ?thesis using Cons.prems(1) by (simp add: keep)
  next
    case (Suc j)
    then show ?thesis using Cons.IH [of j] Cons.prems by simp
  qed
qed simp

text \<open>
  The groups have the names of a map's keys, so they are distinct, and then \<open>Less\<close> compares the
  positions in the slice itself: every order of the groups is sorted, and sorting changes nothing.
\<close>

theorem ByCategory_Less_positions:
  assumes "distinct (map group_Name a)" and "i < length a" and "j < length a"
  shows "ByCategory_Less a i j = Return (i < j)"
  using assms by (simp add: ByCategory_Less_def group_index_distinct)

lemma split_comma_nonempty: "split_comma s \<noteq> []"
  by (cases s) auto

lemma split_comma_two: "CHR '','' \<in> set s \<Longrightarrow> \<exists>a b r. split_comma s = a # b # r"
proof (induction s)
  case (Cons c s)
  then show ?case
  proof (cases "c = CHR '',''")
    case True
    then show ?thesis using split_comma_nonempty [of s] by (cases "split_comma s") auto
  next
    case False
    then show ?thesis using Cons by auto
  qed
qed simp

text \<open>Every alternative name registers the whole name again, so a flag with two names panics.\<close>

theorem DirectoryFlag_Apply_alias:
  assumes "CHR '','' \<in> set (df_Name f)"
  shows "DirectoryFlag_Apply f set_names = Panic (UserPanic (''flag redefined: '' @ df_Name f))"
proof -
  obtain a b r where "eachName (df_Name f) = a # b # r" using split_comma_two [OF assms] by (auto simp: eachName_def)
  then show ?thesis by (simp add: DirectoryFlag_Apply_def FlagSet_Var_def)
qed

text \<open>No flag is lost when the flags are grouped, as long as no flag's text is the name of a category.\<close>

lemma categorize_all:
  assumes "\<forall>flag\<in>set flags. flag_String flag \<notin> dom m \<and> (\<forall>f\<in>set flags. flag_String flag \<noteq> FlagCategory f groups)"
  shows "categorize groups flags m cat =
    (case filter (\<lambda>f. FlagCategory f groups = cat) flags of
       [] \<Rightarrow> m cat
     | fs \<Rightarrow> Some ((case m cat of None \<Rightarrow> [] | Some gs \<Rightarrow> gs) @ fs))"
  using assms
proof (induction flags arbitrary: m)
  case (Cons f flags)
  let ?c = "FlagCategory f groups"
  let ?m = "m(?c \<mapsto> (case m ?c of None \<Rightarrow> [] | Some fs \<Rightarrow> fs) @ [f])"
  have "m (flag_String f) = None" using Cons.prems by (auto simp: dom_def)
  moreover have "\<forall>flag\<in>set flags. flag_String flag \<notin> dom ?m \<and> (\<forall>f\<in>set flags. flag_String flag \<noteq> FlagCategory f groups)"
    using Cons.prems by auto
  ultimately have "categorize groups (f # flags) m cat = categorize groups flags ?m cat"
      and "categorize groups flags ?m cat = (case filter (\<lambda>f. FlagCategory f groups = cat) flags of
         [] \<Rightarrow> ?m cat | fs \<Rightarrow> Some ((case ?m cat of None \<Rightarrow> [] | Some gs \<Rightarrow> gs) @ fs))"
    by (simp add: Let_def, intro Cons.IH)
  then show ?case by (cases "?c = cat") (simp_all split: list.split option.split)
qed simp

end
