(* ===== verification/Rpc_Ipc.thy ===== *)
theory Rpc_Ipc
  imports Fileutil_Copy Orchestrator
begin

text \<open>
  The IPC endpoint on disk (\<open>simple_rpc/rpc/ipc_unix.go\<close> and its counterparts for other platforms): how a server takes its
  place in the file system of \<open>Fileutil\<close>, and how a client reaches it. A socket is a file with the mode bit
  of sockets and no contents; \<open>live\<close> are the sockets that a process listens on.
\<close>

section \<open>Sockets and system calls\<close>

definition ModeSocket :: uint32 where "ModeSocket = 0x1000000"

definition mode0751 :: uint32 where "mode0751 = 0x1E9"

text \<open>A name that starts with an at sign is abstract: it is not in the file system.\<close>

datatype listener = Abstract string | At path

text \<open>\<open>filepath.Dir\<close>.\<close>

definition path_Dir :: "string \<Rightarrow> string" where
  "path_Dir p = Clean (rev (dropWhile (\<lambda>c. c \<noteq> slash) (rev p)))"

text \<open>\<open>os.Remove\<close>: a file, or a directory without entries.\<close>

definition os_Remove :: "proc_env \<Rightarrow> string \<Rightarrow> fs \<Rightarrow> os_error option \<times> fs" where
  "os_Remove env p fs =
     (case resolve env fs p of
        Inl e \<Rightarrow> (Some e, fs)
      | Inr q \<Rightarrow>
          (case map_of fs q of
             None \<Rightarrow> (Some ENOENT, fs)
           | Some n \<Rightarrow>
               if deny env OpWrite q then (Some EACCES, fs)
               else if IsDir n \<and> (q = [] \<or> dir_names fs q \<noteq> []) then (Some EEXIST, fs)
               else (None, AList.delete q fs)))"

text \<open>\<open>net.Listen\<close> for the network \<open>unix\<close>: a path of 108 bytes or more does not fit into an address.\<close>

definition net_Listen :: "proc_env \<Rightarrow> string \<Rightarrow> fs \<Rightarrow> (rpc_error + listener) \<times> fs" where
  "net_Listen env p fs =
     (if p = [] \<or> hd p = CHR ''@'' then
        (if length p > 108 then (Inl (PlainError ''bind: invalid argument''), fs) else (Inr (Abstract p), fs))
      else if length p \<ge> 108 then (Inl (PlainError ''bind: invalid argument''), fs)
      else
        (case resolve env fs p of
           Inl e \<Rightarrow> (Inl (PlainError (''bind: '' @ strerror e)), fs)
         | Inr q \<Rightarrow>
             if map_of fs q \<noteq> None then (Inl (PlainError ''bind: address already in use''), fs)
             else if deny env OpWrite q then (Inl (PlainError (''bind: '' @ strerror EACCES)), fs)
             else (Inr (At q), AList.update q (File (ModeSocket OR (ModePerm AND NOT (umask env))) []) fs)))"

text \<open>\<open>os.Chmod\<close> by the owner of a file; type bits stay.\<close>

definition os_Chmod :: "proc_env \<Rightarrow> string \<Rightarrow> uint32 \<Rightarrow> fs \<Rightarrow> os_error option \<times> fs" where
  "os_Chmod env p perm fs =
     (case resolve env fs p of
        Inl e \<Rightarrow> (Some e, fs)
      | Inr q \<Rightarrow>
          (case map_of fs q of
             None \<Rightarrow> (Some ENOENT, fs)
           | Some (File m data) \<Rightarrow> (None, AList.update q (File ((m AND NOT ModePerm) OR perm) data) fs)
           | Some (Dir m) \<Rightarrow> (None, AList.update q (Dir ((m AND NOT ModePerm) OR perm)) fs)))"

section \<open>Listening and connecting\<close>

definition max_path_size :: nat where "max_path_size = 100"

text \<open>
  \<open>ipcListen\<close>: the result, whether it has warned, and the file system. \<open>os.MkdirAll\<close> works on the absolute path;
  the errors of \<open>os.Remove\<close> and \<open>os.Chmod\<close> are dropped.
\<close>

definition ipcListen :: "proc_env \<Rightarrow> string \<Rightarrow> fs \<Rightarrow> (rpc_error + listener) \<times> bool \<times> fs" where
  "ipcListen env endpoint fs =
     (let warned = (length endpoint > max_path_size) in
      case (case path_Abs env (path_Dir endpoint) of
              Inl e \<Rightarrow> (Some e, fs)
            | Inr dir \<Rightarrow> os_MkdirAll env mode0751 (path_names dir) fs) of
        (Some e, fs) \<Rightarrow> (Inl (PlainError (''mkdir: '' @ strerror e)), warned, fs)
      | (None, fs) \<Rightarrow>
          let fs = snd (os_Remove env endpoint fs) in
          (case net_Listen env endpoint fs of
             (Inl err, fs) \<Rightarrow> (Inl err, warned, fs)
           | (Inr l, fs) \<Rightarrow> (Inr l, warned, snd (os_Chmod env endpoint mode0600 fs))))"

definition newIPCConnection :: "proc_env \<Rightarrow> listener list \<Rightarrow> fs \<Rightarrow> string \<Rightarrow> rpc_error option" where
  "newIPCConnection env live fs endpoint =
     (if endpoint = [] \<or> hd endpoint = CHR ''@'' then
        (if Abstract endpoint \<in> set live then None else Some (PlainError ''connect: connection refused''))
      else if length endpoint \<ge> 108 then Some (PlainError ''connect: invalid argument'')
      else
        (case resolve env fs endpoint of
           Inl e \<Rightarrow> Some (PlainError (''connect: '' @ strerror e))
         | Inr q \<Rightarrow>
             if map_of fs q = None then Some (PlainError (''connect: '' @ strerror ENOENT))
             else if deny env OpWrite q then Some (PlainError (''connect: '' @ strerror EACCES))
             else if At q \<in> set live then None
             else Some (PlainError ''connect: connection refused'')))"

text \<open>Without sockets nothing is supported.\<close>

definition ipcListen_js :: "string \<Rightarrow> rpc_error + listener" where
  "ipcListen_js endpoint = Inl (PlainError ''rpc: not supported'')"

definition newIPCConnection_js :: "string \<Rightarrow> rpc_error option" where
  "newIPCConnection_js endpoint = Some (PlainError ''rpc: not supported'')"

text \<open>
  On Windows, where endpoints are named pipes: how long (in nanoseconds) a client waits, from the deadline
  of its context and the time.
\<close>

definition pipe_timeout :: "int option \<Rightarrow> int \<Rightarrow> int" where
  "pipe_timeout deadline now =
     (case deadline of
        None \<Rightarrow> 2 * 1000000000
      | Some d \<Rightarrow> (let timeout = d - now in if timeout < 0 then 0 else timeout))"

section \<open>Creating the directories\<close>

text \<open>\<open>os.MkdirAll\<close> succeeds as long as no file is in the way.\<close>

lemma os_MkdirAll_exists:
  assumes "list_all is_name es" and "permissive env" and "parent_dirs fs es" and "dir_at fs es"
  shows "os_MkdirAll env perm es fs = (None, fs)"
proof -
  obtain m where "Stat env fs (abs_path es) = Inr (Dir m)"
    using assms by (auto simp: Stat_abs_path dir_at_map permissive_def)
  then show ?thesis by (subst os_MkdirAll.simps) (simp add: IsDir_def)
qed

lemma os_MkdirAll_succeeds:
  assumes "list_all is_name es" and "permissive env" and "wf_fs fs" and "\<forall>k \<le> length es. map_of fs (take k es) = None \<or> dir_at fs (take k es)"
  shows "\<exists>fs'. os_MkdirAll env perm es fs = (None, fs') \<and> parent_dirs fs' es \<and> dir_at fs' es"
  using assms
proof (induction es rule: rev_induct)
  case Nil
  then show ?case using os_MkdirAll_exists [OF Nil.prems(1,2)] by (simp add: parent_dirs_def wf_fs_def)
next
  case (snoc e es)
  have "map_of fs (take k es) = None \<or> dir_at fs (take k es)" if "k \<le> length es" for k
    using snoc.prems(4) [rule_format, of k] that by simp
  then have es: "list_all is_name es" "\<forall>k \<le> length es. map_of fs (take k es) = None \<or> dir_at fs (take k es)"
    using snoc.prems(1) by simp_all
  from snoc.IH [OF es(1) snoc.prems(2,3) es(2)] obtain fs1 where
    fs1: "os_MkdirAll env perm es fs = (None, fs1)" "parent_dirs fs1 es" "dir_at fs1 es" by blast
  show ?case
  proof (cases "map_of fs (es @ [e])")
    case (Some n)
    then have "dir_at fs (es @ [e])" using snoc.prems(4) [rule_format, of "Suc (length es)"] by simp
    moreover have "parent_dirs fs (es @ [e])" using wf_fsD(3) [OF snoc.prems(3)] Some by blast
    ultimately show ?thesis using os_MkdirAll_exists [OF snoc.prems(1,2)] by blast
  next
    case None
    have gone: "Stat env fs (abs_path (es @ [e])) = Inr n \<longleftrightarrow> False" for n
      using None Stat_abs_path [OF snoc.prems(1)] by simp
    have up: "(if length (es @ [e]) > 1 then os_MkdirAll env perm (butlast (es @ [e])) fs else (None, fs)) = (None, fs1)"
      using fs1(1) os_MkdirAll_exists [of "[]" env fs perm] snoc.prems(2,3) by (auto simp: parent_dirs_def wf_fs_def)
    have par: "parent_dirs fs1 (es @ [e])" using fs1(2,3) by (auto simp: parent_dirs_def less_Suc_eq)
    have new: "map_of fs1 (es @ [e]) = None"
    proof -
      have "\<not> prefix (es @ [e]) es" using prefix_length_le by fastforce
      then show ?thesis using os_MkdirAll_grown [OF es(1) fs1(1)] None unfolding grown_def by metis
    qed
    have "Mkdir env (abs_path (es @ [e])) perm fs1 = (None, AList.update (es @ [e]) (Dir (perm AND NOT (umask env))) fs1)"
      unfolding Mkdir_abs_path [OF snoc.prems(1)] using par new snoc.prems(2) by (simp add: permissive_def)
    then have "os_MkdirAll env perm (es @ [e]) fs = (None, AList.update (es @ [e]) (Dir (perm AND NOT (umask env))) fs1)"
      using gone up by (subst os_MkdirAll.simps) (auto split: sum.split)
    moreover have "parent_dirs (AList.update (es @ [e]) (Dir (perm AND NOT (umask env))) fs1) (es @ [e])"
      using parent_dirs_update [OF par] new by blast
    ultimately show ?thesis by (auto simp: dir_at_map update_conv)
  qed
qed

section \<open>The endpoint of a server\<close>

lemma split_path_end_slash: "split_path (s @ [slash]) = split_path s @ [[]]"
proof (induction s)
  case (Cons c s)
  then show ?case by (cases "split_path s") auto
qed simp

lemma path_Dir_abs_path:
  assumes "list_all is_name D" and "is_name x"
  shows "path_Dir (abs_path (D @ [x])) = abs_path D"
proof -
  have x: "\<forall>c\<in>set (rev x). c \<noteq> slash" using assms(2) by (auto simp: is_name_def)
  have cut: "rev (dropWhile (\<lambda>c. c \<noteq> slash) (rev (p @ slash # x))) = p @ [slash]" for p
    using x by (simp add: dropWhile_append3 dropWhile_append1)
  show ?thesis
  proof (cases "D = []")
    case True
    then show ?thesis using cut [of "[]"] by (simp add: path_Dir_def abs_path_def) (simp add: Clean_def IsAbs_def)
  next
    case False
    have "abs_path (D @ [x]) = abs_path D @ slash # x" using False by (simp add: abs_path_def join_path_snoc)
    then have "path_Dir (abs_path (D @ [x])) = Clean (abs_path D @ [slash])" using cut by (simp add: path_Dir_def)
    also have "\<dots> = Clean (abs_path D)"
    proof -
      have "clean_elems r [] (split_path (abs_path D @ [slash])) = clean_elems r [] (split_path (abs_path D))" for r
        using clean_elems_filter [of r "[]" "split_path (abs_path D @ [slash])"] clean_elems_filter [of r "[]" "split_path (abs_path D)"]
        by (simp add: split_path_end_slash)
      then show ?thesis by (simp add: Clean_def IsAbs_def abs_path_def)
    qed
    finally show ?thesis using assms(1) by simp
  qed
qed

lemma socket_mode: "((ModeSocket OR (ModePerm AND u)) AND NOT ModePerm) OR mode0600 = ModeSocket OR mode0600"
proof -
  have "(ModePerm AND u) AND NOT ModePerm = 0" by (metis and.assoc and.commute and_zero_eq bit.conj_cancel_right)
  moreover have "ModeSocket AND NOT ModePerm = ModeSocket" by (simp add: ModeSocket_def ModePerm_def)
  ultimately show ?thesis by (simp add: bit.conj_disj_distrib2)
qed

lemma parent_dirs_delete: "parent_dirs fs es \<Longrightarrow> es \<noteq> [] \<Longrightarrow> parent_dirs (AList.delete es fs) es"
  by (auto simp: parent_dirs_def dir_at_def delete_conv take_prefix_cases)

text \<open>Binding and the change of the mode, on a path that is free.\<close>

lemma bind_socket:
  assumes "list_all is_name es" and "es \<noteq> []" and "parent_dirs fs es" and "map_of fs es = None" and "permissive env" and "length (abs_path es) < 108"
  shows "\<exists>fs1. net_Listen env (abs_path es) fs = (Inr (At es), fs1)
    \<and> (\<exists>fs2. os_Chmod env (abs_path es) mode0600 fs1 = (None, fs2) \<and> parent_dirs fs2 es
         \<and> map_of fs2 = (map_of fs)(es \<mapsto> File (ModeSocket OR mode0600) []))"
proof -
  let ?n = "File (ModeSocket OR (ModePerm AND NOT (umask env))) []"
  let ?fs1 = "AList.update es ?n fs"
  have at: "hd (abs_path es) \<noteq> CHR ''@''" "abs_path es \<noteq> []" by (simp_all add: abs_path_def slash_def)
  have r: "resolve env fs (abs_path es) = Inr es" using assms(1,3) by (simp add: resolve_abs_path)
  then have l: "net_Listen env (abs_path es) fs = (Inr (At es), ?fs1)"
    using assms(4-6) at by (simp add: net_Listen_def permissive_def)
  have p1: "parent_dirs ?fs1 es" using parent_dirs_update [OF assms(3)] assms(4) by blast
  then have r1: "resolve env ?fs1 (abs_path es) = Inr es" using assms(1) by (simp add: resolve_abs_path)
  let ?fs2 = "AList.update es (File (ModeSocket OR mode0600) []) ?fs1"
  have "os_Chmod env (abs_path es) mode0600 ?fs1 = (None, ?fs2)"
    using r1 by (simp add: os_Chmod_def update_conv socket_mode)
  moreover have "parent_dirs ?fs2 es" using parent_dirs_update [OF p1] by (simp add: update_conv)
  moreover have "map_of ?fs2 = (map_of fs)(es \<mapsto> File (ModeSocket OR mode0600) [])" by (auto simp: update_conv fun_eq_iff)
  ultimately show ?thesis using l by blast
qed

lemma remove_leftover:
  assumes "list_all is_name es" and "es \<noteq> []" and "parent_dirs fs es" and "permissive env"
    and "dir_at fs es \<longrightarrow> dir_names fs es = []"
  shows "\<exists>fs1. snd (os_Remove env (abs_path es) fs) = fs1 \<and> parent_dirs fs1 es \<and> map_of fs1 = (map_of fs)(es := None)"
proof -
  have r: "resolve env fs (abs_path es) = Inr es" using assms(1,3) by (simp add: resolve_abs_path)
  show ?thesis
  proof (cases "map_of fs es")
    case None
    then show ?thesis using r assms(3) by (auto simp: os_Remove_def fun_eq_iff)
  next
    case (Some n)
    have "\<not> (IsDir n \<and> (es = [] \<or> dir_names fs es \<noteq> []))"
      using assms(2,5) Some by (auto simp: IsDir_def dir_at_map split: inode.splits)
    then show ?thesis
      using r Some assms(4) parent_dirs_delete [OF assms(3,2)] by (auto simp: os_Remove_def permissive_def delete_conv fun_eq_iff)
  qed
qed

text \<open>
  Opening the endpoint at a short absolute path: the missing directories are created, whatever file was at the path is
  replaced by a socket that only its owner may use, nothing else in the file system changes, and a client can then connect.
  It works as long as no file is in the place of a directory, and no directory with entries in that of the socket.
\<close>

theorem ipcListen_endpoint:
  assumes "list_all is_name (D @ [x])" and "permissive env" and "wf_fs fs" and "length (abs_path (D @ [x])) < 108"
    and "\<forall>k \<le> length D. map_of fs (take k D) = None \<or> dir_at fs (take k D)"
    and "dir_at fs (D @ [x]) \<longrightarrow> dir_names fs (D @ [x]) = []"
  shows "\<exists>fs'. ipcListen env (abs_path (D @ [x])) fs = (Inr (At (D @ [x])), length (abs_path (D @ [x])) > 100, fs')
    \<and> map_of fs' (D @ [x]) = Some (File (ModeSocket OR mode0600) [])
    \<and> (\<forall>p. p \<noteq> D @ [x] \<longrightarrow> map_of fs' p = map_of fs p
         \<or> map_of fs p = None \<and> prefix p D \<and> map_of fs' p = Some (Dir (mode0751 AND NOT (umask env))))
    \<and> newIPCConnection env (At (D @ [x]) # live) fs' (abs_path (D @ [x])) = None"
proof -
  let ?es = "D @ [x]"
  have D: "list_all is_name D" "is_name x" using assms(1) by simp_all
  from os_MkdirAll_succeeds [OF D(1) assms(2,3,5), of mode0751] obtain fs1 where
    fs1: "os_MkdirAll env mode0751 D fs = (None, fs1)" "parent_dirs fs1 D" "dir_at fs1 D" by blast
  have g: "grown env mode0751 D fs fs1" using os_MkdirAll_grown [OF D(1) fs1(1)] by blast
  have same: "map_of fs1 (?es @ r) = map_of fs (?es @ r)" for r
  proof -
    have "\<not> prefix (?es @ r) D" using prefix_length_le [of "?es @ r" D] by auto
    then show ?thesis using g unfolding grown_def by metis
  qed
  have p1: "parent_dirs fs1 ?es" using fs1(2,3) by (auto simp: parent_dirs_def less_Suc_eq)
  have "dir_at fs1 ?es \<longrightarrow> dir_names fs1 ?es = []"
    using assms(6) same [of "[]"] same [of "[_]"] set_dir_names [of fs1 ?es] set_dir_names [of fs ?es]
    by (auto simp: dir_at_map)
  from remove_leftover [OF assms(1) _ p1 assms(2) this] obtain fs2 where
    fs2: "snd (os_Remove env (abs_path ?es) fs1) = fs2" "parent_dirs fs2 ?es" "map_of fs2 = (map_of fs1)(?es := None)" by blast
  have free: "map_of fs2 ?es = None" by (simp add: fs2(3))
  from bind_socket [OF assms(1) _ fs2(2) free assms(2,4)] obtain fs3 fs4 where
    fs3: "net_Listen env (abs_path ?es) fs2 = (Inr (At ?es), fs3)" "os_Chmod env (abs_path ?es) mode0600 fs3 = (None, fs4)"
    "parent_dirs fs4 ?es" "map_of fs4 = (map_of fs2)(?es \<mapsto> File (ModeSocket OR mode0600) [])" by blast
  have run: "ipcListen env (abs_path ?es) fs = (Inr (At ?es), length (abs_path ?es) > 100, fs4)"
    using fs1(1) fs2(1) fs3(1,2) D by (simp add: ipcListen_def max_path_size_def path_Dir_abs_path path_Abs_def)
  have others: "map_of fs4 p = map_of fs p \<or> map_of fs p = None \<and> prefix p D \<and> map_of fs4 p = Some (Dir (mode0751 AND NOT (umask env)))"
    if "p \<noteq> ?es" for p using g that unfolding grown_def fs3(4) fs2(3) by (metis fun_upd_apply)
  have "resolve env fs4 (abs_path ?es) = Inr ?es" using assms(1) fs3(3) by (simp add: resolve_abs_path)
  moreover have "hd (abs_path ?es) \<noteq> CHR ''@''" "abs_path ?es \<noteq> []" by (simp_all add: abs_path_def slash_def)
  ultimately have "newIPCConnection env (At ?es # live) fs4 (abs_path ?es) = None"
    using fs3(4) assms(2,4) by (simp add: newIPCConnection_def permissive_def)
  then show ?thesis using run others fs3(4) by auto
qed

section \<open>The orchestrator on its endpoint\<close>

lemma orchestrator_url:
  assumes "goos \<noteq> ''windows''" and "list_all is_name D"
  shows "ipcapiURL goos tmp (abs_path D) [] = abs_path (D @ [''orchestrator.ipc''])"
proof -
  have "abs_path D \<noteq> []" by (simp add: abs_path_def)
  then show ?thesis using ipcapiURL_place(1) [OF assms(1)] assms(2) orchestrator_ipc by simp
qed


text \<open>A file that was written to the path of the endpoint before the server starts is lost.\<close>

lemma ipcListen_replaces_file:
  assumes "list_all is_name (D @ [x])" and "permissive env" and "wf_fs fs" and "length (abs_path (D @ [x])) < 108"
    and "map_of fs (D @ [x]) = Some (File m data)"
  shows "\<exists>w fs'. ipcListen env (abs_path (D @ [x])) fs = (Inr (At (D @ [x])), w, fs') \<and> map_of fs' (D @ [x]) = Some (File (ModeSocket OR mode0600) [])"
proof -
  have p: "parent_dirs fs (D @ [x])" using wf_fsD(3) [OF assms(3)] assms(5) by blast
  have "dir_at fs (take k D)" if "k \<le> length D" for k
    using p that by (auto simp: parent_dirs_def dest!: spec [of _ k])
  moreover have "\<not> dir_at fs (D @ [x])" using assms(5) by (simp add: dir_at_map)
  ultimately show ?thesis using ipcListen_endpoint [OF assms(1-4), of "[]"] by blast
qed

section \<open>Examples\<close>

definition ipc_fs :: fs where
  "ipc_fs = [([], Dir 0x1ED), ([''home''], Dir 0x1ED), ([''home'', ''old''], File 0x180 [1, 2])]"

lemma ipc_fs_wf: "wf_fs ipc_fs"
  by (auto simp: wf_fs_def ipc_fs_def dir_at_def parent_dirs_def is_name_def slash_def no_dollar_def less_Suc_eq split: if_splits)

lemma demo_permissive: "permissive (demo_proc wd)"
  by (simp add: permissive_def demo_proc_def)

theorem ipcListen_endpoint_witness:
  "\<exists>fs'. ipcListen (demo_proc ''/'') (abs_path [''home'', ''old'']) ipc_fs = (Inr (At [''home'', ''old'']), False, fs')
     \<and> map_of fs' [''home'', ''old''] = Some (File (ModeSocket OR mode0600) [])"
proof -
  have a: "list_all is_name ([''home''] @ [''old''])" by (simp add: is_name_def slash_def)
  have b: "length (abs_path ([''home''] @ [''old''])) < 108" by (simp add: abs_path_def)
  have c: "\<forall>k \<le> length [''home'']. map_of ipc_fs (take k [''home'']) = None \<or> dir_at ipc_fs (take k [''home''])"
    by (auto simp: ipc_fs_def dir_at_def le_Suc_eq)
  have d: "dir_at ipc_fs ([''home''] @ [''old'']) \<longrightarrow> dir_names ipc_fs ([''home''] @ [''old'']) = []"
    by (simp add: ipc_fs_def dir_at_def)
  from ipcListen_endpoint [OF a demo_permissive ipc_fs_wf b c d, of "''/''"] show ?thesis by (auto simp: abs_path_def)
qed


end
