(* ===== verification/Orchestrator_Cli.thy ===== *)
theory Orchestrator_Cli
  imports Rpc_Ipc
begin

text \<open>
  The command line of the orchestrator (\<open>simple_rpc/main.go\<close>, \<open>simple_rpc/utils\<close>): its flags and commands, how a command
  hands its flags on, the help it prints, and the run of the client. What the package \<open>cli\<close> does is an argument: the
  text it makes of a flag (\<open>stringer\<close>), its printer, and its contexts.
\<close>

section \<open>Flags and commands\<close>

definition IPCPathFlag :: "(string \<Rightarrow> string) \<Rightarrow> cli_flag" where
  "IPCPathFlag stringer = \<lparr>GetName = ''ipcpath'', flag_String = stringer ''ipcpath''\<rparr>"

definition LogLevelFlag :: "(string \<Rightarrow> string) \<Rightarrow> cli_flag" where
  "LogLevelFlag stringer = \<lparr>GetName = ''loglevel'', flag_String = stringer ''loglevel''\<rparr>"

definition ConfigDirFlag :: "(string \<Rightarrow> string) \<Rightarrow> cli_flag" where
  "ConfigDirFlag stringer = \<lparr>GetName = ''cfgdir'', flag_String = stringer ''cfgdir''\<rparr>"

definition AppHelpFlagGroups :: "(string \<Rightarrow> string) \<Rightarrow> FlagGroup list" where
  "AppHelpFlagGroups stringer =
     [\<lparr>group_Name = ''IPC-FLAGS'', group_Flags = [IPCPathFlag stringer, ConfigDirFlag stringer]\<rparr>,
      \<lparr>group_Name = ''COMMON-FLAGS'', group_Flags = [LogLevelFlag stringer, ConfigDirFlag stringer]\<rparr>]"

record cli_command =
  cmd_Name :: string
  cmd_Usage :: string
  cmd_Flags :: "cli_flag list"

definition serverStartCommand :: "(string \<Rightarrow> string) \<Rightarrow> cli_command" where
  "serverStartCommand stringer =
     \<lparr>cmd_Name = ''start-server'', cmd_Usage = ''Start server'',
      cmd_Flags = [IPCPathFlag stringer, LogLevelFlag stringer, ConfigDirFlag stringer]\<rparr>"

definition clientStartCommand :: "(string \<Rightarrow> string) \<Rightarrow> cli_command" where
  "clientStartCommand stringer =
     \<lparr>cmd_Name = ''client'', cmd_Usage = ''Run client'',
      cmd_Flags = [IPCPathFlag stringer, LogLevelFlag stringer, ConfigDirFlag stringer]\<rparr>"

text \<open>The application that \<open>init\<close> sets up, and \<open>main\<close>: what it writes to the standard error and its exit code. \<open>Run\<close> is the package's.\<close>

record cli_app =
  app_Name :: string
  app_Usage :: string
  app_Flags :: "cli_flag list"
  app_Commands :: "cli_command list"

definition app :: "(string \<Rightarrow> string) \<Rightarrow> cli_app" where
  "app stringer =
     \<lparr>app_Name = ''Orchestrator'',
      app_Usage = ''Orchestrator client is the main consensus client for beaconchain and catalyst chain'',
      app_Flags = [IPCPathFlag stringer, LogLevelFlag stringer, ConfigDirFlag stringer],
      app_Commands = [serverStartCommand stringer, clientStartCommand stringer]\<rparr>"

definition orchestrator_main :: "(string \<Rightarrow> string) \<Rightarrow> (cli_app \<Rightarrow> string list \<Rightarrow> string option) \<Rightarrow> string list \<Rightarrow> string list \<times> nat" where
  "orchestrator_main stringer Run args =
     (case Run (app stringer) args of Some err \<Rightarrow> ([err], 1) | None \<Rightarrow> ([], 0))"

text \<open>
  \<open>MigrateFlags\<close>, over contexts \<open>'ctx\<close> of the package: the names of a context's flags, whether one was set, its text, and setting
  one of the global context.
\<close>

fun migrate_loop ::
  "('ctx \<Rightarrow> string \<Rightarrow> bool) \<Rightarrow> ('ctx \<Rightarrow> string \<Rightarrow> string) \<Rightarrow> (string \<Rightarrow> string \<Rightarrow> 'ctx \<Rightarrow> 'ctx) \<Rightarrow> string list \<Rightarrow> 'ctx \<Rightarrow> 'ctx" where
  "migrate_loop IsSet CtxString GlobalSet [] ctx = ctx"
| "migrate_loop IsSet CtxString GlobalSet (nam # names) ctx =
     migrate_loop IsSet CtxString GlobalSet names
       (if IsSet ctx nam then GlobalSet nam (CtxString ctx nam) ctx else ctx)"

definition MigrateFlags ::
  "('ctx \<Rightarrow> string list) \<Rightarrow> ('ctx \<Rightarrow> string \<Rightarrow> bool) \<Rightarrow> ('ctx \<Rightarrow> string \<Rightarrow> string) \<Rightarrow> (string \<Rightarrow> string \<Rightarrow> 'ctx \<Rightarrow> 'ctx)
     \<Rightarrow> ('ctx \<Rightarrow> 'r) \<Rightarrow> 'ctx \<Rightarrow> 'r" where
  "MigrateFlags FlagNames IsSet CtxString GlobalSet action ctx = action (migrate_loop IsSet CtxString GlobalSet (FlagNames ctx) ctx)"

section \<open>Help\<close>

definition CommandHelpTemplate :: string where
  \<open>CommandHelpTemplate =
     join [CHR 0x0A]
       [''{{.cmd.Name}}{{if .cmd.Subcommands}} command{{end}}{{if .cmd.Flags}} [command options]{{end}} [arguments...]'',
        ''{{if .cmd.Description}}{{.cmd.Description}}'',
        ''{{end}}{{if .cmd.Subcommands}}'',
        ''SUBCOMMANDS:'',
        ''  {{range .cmd.Subcommands}}{{.Name}}{{with .ShortName}}, {{.}}{{end}}{{ "'' @ CHR 0x5C # ''t" }}{{.Usage}}'',
        ''  {{end}}{{end}}{{if .categorizedFlags}}'',
        ''{{range $idx, $categorized := .categorizedFlags}}{{$categorized.Name}} OPTIONS:'',
        ''{{range $categorized.Flags}}{{"'' @ CHR 0x5C # ''t"}}{{.}}'',
        ''{{end}}'',
        ''{{end}}{{end}}'']\<close>

definition OrchestratorAppHelpTemplate :: string where
  \<open>OrchestratorAppHelpTemplate =
     join [CHR 0x0A]
       [''NAME:'',
        ''   {{.App.Name}} - {{.App.Usage}}'',
        [],
        ''   Copyright 2018-2021 The lukso Authors'',
        [],
        ''USAGE:'',
        ''   {{.App.HelpName}} [options]{{if .App.Commands}} command [command options]{{end}} {{if .App.ArgsUsage}}{{.App.ArgsUsage}}{{else}}[arguments...]{{end}}'',
        ''   {{if .App.Version}}'',
        ''COMMANDS:'',
        ''   {{range .App.Commands}}{{join .Names ", "}}{{ "'' @ CHR 0x5C # ''t" }}{{.Usage}}'',
        ''   {{end}}{{end}}{{if .FlagGroups}}'',
        ''{{range .FlagGroups}}{{.Name}} OPTIONS:'',
        ''  {{range .Flags}}{{.}}'',
        ''  {{end}}'',
        ''{{end}}{{end}}{{if .App.Copyright }}'',
        ''COPYRIGHT:'',
        ''   {{.App.Copyright}}'',
        ''   {{end}}'',
        []]\<close>

text \<open>What the original printer is called with.\<close>

datatype 'd help_data = HelpData 'd "FlagGroup list" | CommandData 'd "FlagGroup list" | PlainData 'd

text \<open>
  \<open>sort.Sort\<close> of up to eleven elements, which is an insertion sort, over the operations of \<open>ByCategory\<close>. There are
  at most three categories.
\<close>

fun sift_down :: "FlagGroup list \<Rightarrow> nat \<Rightarrow> FlagGroup list outcome" where
  "sift_down a 0 = Return a"
| "sift_down a (Suc j) =
     outcome_bind (ByCategory_Less a (Suc j) j) (\<lambda>less.
       if less then outcome_bind (ByCategory_Swap a (Suc j) j) (\<lambda>a. sift_down a j) else Return a)"

fun insertion_loop :: "FlagGroup list \<Rightarrow> nat list \<Rightarrow> FlagGroup list outcome" where
  "insertion_loop a [] = Return a"
| "insertion_loop a (i # is) = outcome_bind (sift_down a i) (\<lambda>a. insertion_loop a is)"

definition sort_Sort :: "FlagGroup list \<Rightarrow> FlagGroup list outcome" where
  "sort_Sort a = insertion_loop a [1..<length a]"

text \<open>
  The help printer: \<open>command_flags\<close> are the flags of the data if it is a command, \<open>iteration\<close> is the order in which the map of
  categories is walked through.
\<close>

definition HelpPrinter ::
  "(string \<Rightarrow> string) \<Rightarrow> ('d \<Rightarrow> cli_flag list option) \<Rightarrow> string list \<Rightarrow> string \<Rightarrow> 'd \<Rightarrow> 'd help_data outcome" where
  "HelpPrinter stringer command_flags iteration tmpl data =
     (if tmpl = OrchestratorAppHelpTemplate then Return (HelpData data (AppHelpFlagGroups stringer))
      else if tmpl = CommandHelpTemplate then
        (case command_flags data of
           None \<Rightarrow> Panic (UserPanic ''interface conversion'')
         | Some flags \<Rightarrow>
             (let categorized = categorize (AppHelpFlagGroups stringer) flags Map.empty;
                  unsorted = map (\<lambda>cat. \<lparr>group_Name = cat, group_Flags = the (categorized cat)\<rparr>) iteration in
              outcome_bind (sort_Sort unsorted) (\<lambda>sorted. Return (CommandData data sorted))))
      else Return (PlainData data))"

section \<open>The client\<close>

text \<open>The error it returns, and the parent hash and number it logs.\<close>

definition client_action ::
  "string \<Rightarrow> string \<Rightarrow> (string \<Rightarrow> rpc_error option) \<Rightarrow> (ExtraData \<Rightarrow> IpcClient \<Rightarrow> (rpc_error + ShardInfo) outcome)
     \<Rightarrow> string \<Rightarrow> string \<Rightarrow> (rpc_error + (byte list \<times> int)) outcome" where
  "client_action goos TempDir Dial produce configDir givenPath =
     (case NewIpcClilent Dial (ipcapiURL goos TempDir configDir givenPath) of
        Inl err \<Rightarrow> Return (Inl err)
      | Inr ipcClient \<Rightarrow>
          outcome_bind (produce \<lparr>ed_Slot = 4998, ed_Epoch = 454\<rparr> ipcClient) (\<lambda>r.
            Return (case r of
               Inl err \<Rightarrow> Inl err
             | Inr shardInfo \<Rightarrow> Inr (ParentHash shardInfo, Number shardInfo))))"

section \<open>Flags of a command\<close>

text \<open>What setting a flag to a text makes of it: a directory is expanded.\<close>

definition flag_parse :: "proc_env \<Rightarrow> string \<Rightarrow> string \<Rightarrow> string" where
  "flag_parse env nam v = (if nam = ''ipcpath'' then df_Value (DirectoryFlag_Set env v \<lparr>df_Name = nam, df_Value = [], df_Usage = []\<rparr>) else v)"

lemma flag_parse_eq: "flag_parse env nam v = (if nam = ''ipcpath'' then expandPath env v else v)"
  by (simp add: flag_parse_def DirectoryFlag_Set_def)

lemma migrate_loop_global:
  assumes "\<forall>nam v c m. GlobalString (GlobalSet nam v c) m = (if m = nam then flag_parse env nam v else GlobalString c m)"
    and "\<forall>nam v c m. IsSet (GlobalSet nam v c) m = IsSet c m \<and> CtxString (GlobalSet nam v c) m = CtxString c m"
  shows "GlobalString (migrate_loop IsSet CtxString GlobalSet names c) m
    = (if m \<in> set names \<and> IsSet c m then flag_parse env m (CtxString c m) else GlobalString c m)"
  using assms by (induction names arbitrary: c) auto

text \<open>A path that is absolute and has no variables left is expanded only once.\<close>

lemma expandPath_again:
  assumes "IsAbs (expandPath env p)" and "CHR ''$'' \<notin> set (expandPath env p)"
  shows "expandPath env (expandPath env p) = expandPath env p"
proof -
  let ?q = "expandPath env p"
  have "\<exists>r. ?q = Clean r" by (auto simp: expandPath_def Let_def)
  then obtain r where r: "?q = Clean r" by blast
  have "IsAbs r" using assms(1) r by simp
  then obtain es where es: "list_all is_name es" "?q = abs_path es" using Clean_abs r by (auto simp: clean_abs_def)
  have "\<not> HasPrefix ?q ''~/''" "\<not> HasPrefix ?q [CHR ''~'', CHR 0x5C]"
    using es(2) by (auto simp: abs_path_def HasPrefix_def slash_def)
  then have "expandPath env ?q = Clean (Expand (Getenv env) ?q)" by (simp add: expandPath_def [of env ?q])
  also have "\<dots> = ?q" using Expand_no_dollar [OF assms(2)] es by simp
  finally show ?thesis .
qed

text \<open>
  A command that is run through \<open>MigrateFlags\<close> reads its own flags where it looks for global ones: every flag that was given
  after the command is set globally too, the others keep their global values. The directory of the socket is expanded again on
  the way; that changes nothing if it is absolute and has no variables left.
\<close>

theorem MigrateFlags_global:
  assumes "\<forall>nam v c m. GlobalString (GlobalSet nam v c) m = (if m = nam then flag_parse env nam v else GlobalString c m)"
    and "\<forall>nam v c m. IsSet (GlobalSet nam v c) m = IsSet c m \<and> CtxString (GlobalSet nam v c) m = CtxString c m"
    and "\<forall>m. m \<in> set (FlagNames ctx) \<and> IsSet ctx m \<longrightarrow> CtxString ctx m = flag_parse env m (given m)"
    and "IsAbs (expandPath env (given ''ipcpath''))" and "CHR ''$'' \<notin> set (expandPath env (given ''ipcpath''))"
  shows "MigrateFlags FlagNames IsSet CtxString GlobalSet (\<lambda>c. GlobalString c m) ctx
    = (if m \<in> set (FlagNames ctx) \<and> IsSet ctx m then flag_parse env m (given m) else GlobalString ctx m)"
proof -
  have "flag_parse env m (flag_parse env m (given m)) = flag_parse env m (given m)"
    using expandPath_again [OF assms(4,5)] by (simp add: flag_parse_eq)
  then show ?thesis
    using migrate_loop_global [OF assms(1,2), of "FlagNames ctx" ctx m] assms(3) by (simp add: MigrateFlags_def)
qed

text \<open>Two flag sets, each with the values that were given.\<close>

record demo_ctx =
  local_flags :: "(string \<times> string) list"
  global_flags :: "(string \<times> string) list"

definition demo_GlobalSet :: "proc_env \<Rightarrow> string \<Rightarrow> string \<Rightarrow> demo_ctx \<Rightarrow> demo_ctx" where
  "demo_GlobalSet env nam v c = c\<lparr>global_flags := AList.update nam (flag_parse env nam v) (global_flags c)\<rparr>"

definition flag_or_empty :: "(string \<times> string) list \<Rightarrow> string \<Rightarrow> string" where
  "flag_or_empty fl nam = (case map_of fl nam of None \<Rightarrow> [] | Some v \<Rightarrow> v)"

theorem MigrateFlags_global_witness:
  "MigrateFlags (\<lambda>c. map fst (local_flags c)) (\<lambda>c m. map_of (local_flags c) m \<noteq> None) (\<lambda>c. flag_or_empty (local_flags c))
     (demo_GlobalSet (demo_proc ''/'')) (\<lambda>c. flag_or_empty (global_flags c) ''ipcpath'')
     \<lparr>local_flags = [(''ipcpath'', ''/home/u/x'')], global_flags = []\<rparr> = ''/home/u/x''"
proof -
  let ?c = "\<lparr>local_flags = [(''ipcpath'', ''/home/u/x'')], global_flags = []\<rparr> :: demo_ctx"
  let ?env = "demo_proc ''/''"
  have e: "expandPath ?env ''~/x'' = ''/home/u/x''" by code_simp
  have 1: "\<forall>nam v c m. flag_or_empty (global_flags (demo_GlobalSet ?env nam v c)) m
      = (if m = nam then flag_parse ?env nam v else flag_or_empty (global_flags c) m)"
    by (simp add: flag_or_empty_def demo_GlobalSet_def update_conv)
  have 2: "\<forall>nam v c m. (map_of (local_flags (demo_GlobalSet ?env nam v c)) m \<noteq> None) = (map_of (local_flags c) m \<noteq> None)
      \<and> flag_or_empty (local_flags (demo_GlobalSet ?env nam v c)) m = flag_or_empty (local_flags c) m"
    by (simp add: demo_GlobalSet_def)
  have 3: "\<forall>m. m \<in> set (map fst (local_flags ?c)) \<and> map_of (local_flags ?c) m \<noteq> None
      \<longrightarrow> flag_or_empty (local_flags ?c) m = flag_parse ?env m ((\<lambda>_. ''~/x'') m)"
    by (simp add: flag_or_empty_def flag_parse_eq e)
  have 4: "IsAbs (expandPath ?env ((\<lambda>_. ''~/x'') ''ipcpath''))" "CHR ''$'' \<notin> set (expandPath ?env ((\<lambda>_. ''~/x'') ''ipcpath''))"
    by (simp_all add: e IsAbs_def slash_def)
  from MigrateFlags_global [where GlobalString = "\<lambda>c. flag_or_empty (global_flags c)" and GlobalSet = "demo_GlobalSet ?env" and env = ?env
      and IsSet = "\<lambda>c m. map_of (local_flags c) m \<noteq> None" and CtxString = "\<lambda>c. flag_or_empty (local_flags c)"
      and FlagNames = "\<lambda>c. map fst (local_flags c)" and ctx = ?c and given = "\<lambda>_. ''~/x''" and m = "''ipcpath''", OF 1 2 3 4]
  show ?thesis by (simp add: flag_parse_eq e)
qed

text \<open>With a variable whose value names another one, the two expansions differ.\<close>

lemma flag_parse_twice_differs:
  "\<exists>env p. flag_parse env ''ipcpath'' (flag_parse env ''ipcpath'' p) \<noteq> flag_parse env ''ipcpath'' p"
proof -
  let ?env = "\<lparr>Getenv = (\<lambda>v. if v = ''A'' then ''$B'' else ''b''), user_Current = None, Getwd = Inr ''/'', umask = 0, deny = (\<lambda>_ _. False)\<rparr>"
  have "expandPath ?env ''/$A'' = ''/$B''" "expandPath ?env ''/$B'' = ''/b''" by code_simp+
  then have "flag_parse ?env ''ipcpath'' (flag_parse ?env ''ipcpath'' ''/$A'') \<noteq> flag_parse ?env ''ipcpath'' ''/$A''"
    by (simp add: flag_parse_eq)
  then show ?thesis by blast
qed

section \<open>The order of the help\<close>

lemma sift_down_positions:
  assumes "distinct (map group_Name a)" and "i < length a"
  shows "sift_down a i = Return a"
  using assms ByCategory_Less_positions [OF assms(1)] by (cases i) simp_all

lemma sort_Sort_positions: "distinct (map group_Name a) \<Longrightarrow> sort_Sort a = Return a"
proof -
  assume d: "distinct (map group_Name a)"
  have "\<forall>i\<in>set is. i < length a \<Longrightarrow> insertion_loop a is = Return a" for "is"
    by (induction "is") (simp_all add: sift_down_positions [OF d])
  then show ?thesis by (simp add: sort_Sort_def)
qed

lemma templates_differ: "CommandHelpTemplate \<noteq> OrchestratorAppHelpTemplate"
  by (simp add: CommandHelpTemplate_def OrchestratorAppHelpTemplate_def)

text \<open>
  The help of a command has every category once, with its flags, and in the order in which the map
  happens to be walked through: sorting the categories changes nothing, so the help of the same command can come out differently.
\<close>

theorem HelpPrinter_order:
  assumes "command_flags data = Some flags" and "distinct iteration"
    and "set iteration = dom (categorize (AppHelpFlagGroups stringer) flags Map.empty)"
  shows "HelpPrinter stringer command_flags iteration CommandHelpTemplate data
    = Return (CommandData data (map (\<lambda>cat. \<lparr>group_Name = cat,
        group_Flags = the (categorize (AppHelpFlagGroups stringer) flags Map.empty cat)\<rparr>) iteration))"
proof -
  have "distinct (map group_Name (map (\<lambda>cat. \<lparr>group_Name = cat,
      group_Flags = the (categorize (AppHelpFlagGroups stringer) flags Map.empty cat)\<rparr>) iteration))"
    using assms(2) by (simp add: comp_def)
  from sort_Sort_positions [OF this] show ?thesis
    using assms(1) templates_differ by (simp add: HelpPrinter_def Let_def)
qed

lemma start_server_categories:
  "categorize (AppHelpFlagGroups (\<lambda>s. CHR ''-'' # s)) (cmd_Flags (serverStartCommand (\<lambda>s. CHR ''-'' # s))) Map.empty
     = [''IPC-FLAGS'' \<mapsto> [IPCPathFlag (\<lambda>s. CHR ''-'' # s), ConfigDirFlag (\<lambda>s. CHR ''-'' # s)],
        ''COMMON-FLAGS'' \<mapsto> [LogLevelFlag (\<lambda>s. CHR ''-'' # s)]]"
  by (simp add: serverStartCommand_def AppHelpFlagGroups_def IPCPathFlag_def LogLevelFlag_def ConfigDirFlag_def Let_def fun_eq_iff)

theorem HelpPrinter_order_witness:
  "HelpPrinter (\<lambda>s. CHR ''-'' # s) (\<lambda>c. Some (cmd_Flags c)) [''IPC-FLAGS'', ''COMMON-FLAGS''] CommandHelpTemplate
       (serverStartCommand (\<lambda>s. CHR ''-'' # s))
   \<noteq> HelpPrinter (\<lambda>s. CHR ''-'' # s) (\<lambda>c. Some (cmd_Flags c)) [''COMMON-FLAGS'', ''IPC-FLAGS''] CommandHelpTemplate
       (serverStartCommand (\<lambda>s. CHR ''-'' # s))"
proof -
  let ?s = "\<lambda>s. CHR ''-'' # s"
  have "HelpPrinter ?s (\<lambda>c. Some (cmd_Flags c)) it CommandHelpTemplate (serverStartCommand ?s)
      = Return (CommandData (serverStartCommand ?s) (map (\<lambda>cat. \<lparr>group_Name = cat,
          group_Flags = the (categorize (AppHelpFlagGroups ?s) (cmd_Flags (serverStartCommand ?s)) Map.empty cat)\<rparr>) it))"
    if "distinct it" "set it = {''IPC-FLAGS'', ''COMMON-FLAGS''}" for it
    using that by (intro HelpPrinter_order) (auto simp: start_server_categories)
  from this [of "[''IPC-FLAGS'', ''COMMON-FLAGS'']"] this [of "[''COMMON-FLAGS'', ''IPC-FLAGS'']"] show ?thesis
    by (simp add: insert_commute)
qed

section \<open>The application\<close>

text \<open>
  Every flag of a command is a global flag too, so that \<open>MigrateFlags\<close> can set it there, and has a
  category of its own in the help.
\<close>

lemma command_flags_global:
  assumes "cmd \<in> set (app_Commands (app stringer))" and "flg \<in> set (cmd_Flags cmd)"
  shows "flg \<in> set (app_Flags (app stringer)) \<and> FlagCategory flg (AppHelpFlagGroups stringer) \<noteq> ''MISC''"
  using assms
  by (auto simp: app_def serverStartCommand_def clientStartCommand_def AppHelpFlagGroups_def
      IPCPathFlag_def LogLevelFlag_def ConfigDirFlag_def)

end
