(* ===== verification/Assertions.thy ===== *)
theory Assertions
  imports Prelude
begin

text \<open>
  The assertions of the tests (\<open>testutil/assertions\<close>) and the packages \<open>assert\<close> and \<open>require\<close> that report
  their failures with \<open>Errorf\<close> and \<open>Fatalf\<close>. An assertion returns what it passes to its logger, if anything.
  \<open>fmt.Sprintf\<close>, \<open>reflect.DeepEqual\<close>, the diff package and the position that \<open>runtime.Caller\<close> finds are arguments.
\<close>

section \<open>Values of interface type\<close>

datatype kind = Chan | Func | Interface | MapKind | PtrKind | Slice | UnsafePointer | OtherKind

text \<open>
  A value with its dynamic type. \<open>v_comparable\<close> is false for a value on which \<open>==\<close> panics (a slice, a map, a function, or a
  struct that holds one); \<open>v_text\<close> is its text if the type is \<open>string\<close>. A nil interface is \<open>None\<close>.
\<close>

record 'p gvalue =
  v_type :: string
  v_kind :: kind
  v_comparable :: bool
  v_nil :: bool
  v_text :: string
  v_payload :: 'p

type_synonym 'p iface = "'p gvalue option"

definition iface_eq :: "'p iface \<Rightarrow> 'p iface \<Rightarrow> bool outcome" where
  "iface_eq a b =
     (case (a, b) of
        (None, None) \<Rightarrow> Return True
      | (Some x, Some y) \<Rightarrow>
          if v_type x \<noteq> v_type y then Return False
          else if \<not> (v_comparable x \<and> v_comparable y) then Panic (UserPanic (''comparing uncomparable type '' @ v_type x))
          else Return (v_text x = v_text y \<and> v_nil x = v_nil y \<and> v_payload x = v_payload y)
      | _ \<Rightarrow> Return False)"

definition string_of :: "'p iface \<Rightarrow> string option" where
  "string_of v = (case v of None \<Rightarrow> None | Some x \<Rightarrow> if v_type x = ''string'' then Some (v_text x) else None)"

section \<open>Assertions\<close>

text \<open>The arguments of a call of the logger, after the format.\<close>

datatype 'p logarg = LStr string | LLine nat | LVal "'p iface" | LErr "string option" | LLogs "string list"

type_synonym 'p report = "string \<times> 'p logarg list"

definition parseMsg :: "(string \<Rightarrow> 'p iface list \<Rightarrow> string) \<Rightarrow> string \<Rightarrow> 'p iface list \<Rightarrow> string" where
  "parseMsg Sprintf defaultMsg msg =
     (case msg of
        m # rest \<Rightarrow> (case string_of m of None \<Rightarrow> defaultMsg | Some msgFormat \<Rightarrow> Sprintf msgFormat rest)
      | [] \<Rightarrow> defaultMsg)"

text \<open>What every assertion needs: formatting, deep equality, the diff, and the caller's file and line.\<close>

record 'p test_env =
  Sprintf :: "string \<Rightarrow> 'p iface list \<Rightarrow> string"
  reflect_DeepEqual :: "'p iface \<Rightarrow> 'p iface \<Rightarrow> bool"
  PrettyDiff :: "'p iface \<Rightarrow> 'p iface \<Rightarrow> string"
  caller_file :: string
  caller_line :: nat

definition Equal :: "'p test_env \<Rightarrow> 'p iface \<Rightarrow> 'p iface \<Rightarrow> 'p iface list \<Rightarrow> 'p report option outcome" where
  "Equal T expected actual msg =
     outcome_bind (iface_eq expected actual) (\<lambda>eq.
       Return (if \<not> eq then
         Some (''%s:%d %s, want: %[4]v (%[4]T), got: %[5]v (%[5]T)'',
           [LStr (caller_file T), LLine (caller_line T), LStr (parseMsg (Sprintf T) ''Values are not equal'' msg), LVal expected, LVal actual])
       else None))"

definition NotEqual :: "'p test_env \<Rightarrow> 'p iface \<Rightarrow> 'p iface \<Rightarrow> 'p iface list \<Rightarrow> 'p report option outcome" where
  "NotEqual T expected actual msg =
     outcome_bind (iface_eq expected actual) (\<lambda>eq.
       Return (if eq then
         Some (''%s:%d %s, both values are equal: %[4]v (%[4]T)'',
           [LStr (caller_file T), LLine (caller_line T), LStr (parseMsg (Sprintf T) ''Values are equal'' msg), LVal expected])
       else None))"

definition DeepEqual :: "'p test_env \<Rightarrow> 'p iface \<Rightarrow> 'p iface \<Rightarrow> 'p iface list \<Rightarrow> 'p report option" where
  "DeepEqual T expected actual msg =
     (if \<not> reflect_DeepEqual T expected actual then
        Some (''%s:%d %s, want: %#v, got: %#v, diff: %s'',
          [LStr (caller_file T), LLine (caller_line T), LStr (parseMsg (Sprintf T) ''Values are not equal'' msg), LVal expected, LVal actual,
           LStr (PrettyDiff T expected actual)])
      else None)"

definition DeepNotEqual :: "'p test_env \<Rightarrow> 'p iface \<Rightarrow> 'p iface \<Rightarrow> 'p iface list \<Rightarrow> 'p report option" where
  "DeepNotEqual T expected actual msg =
     (if reflect_DeepEqual T expected actual then
        Some (''%s:%d %s, want: %#v, got: %#v'',
          [LStr (caller_file T), LLine (caller_line T), LStr (parseMsg (Sprintf T) ''Values are equal'' msg), LVal expected, LVal actual])
      else None)"

text \<open>An error is its text.\<close>

definition NoError :: "'p test_env \<Rightarrow> string option \<Rightarrow> 'p iface list \<Rightarrow> 'p report option" where
  "NoError T err msg =
     (case err of
        None \<Rightarrow> None
      | Some e \<Rightarrow>
          Some (''%s:%d %s: %v'', [LStr (caller_file T), LLine (caller_line T), LStr (parseMsg (Sprintf T) ''Unexpected error'' msg), LErr err]))"

definition ErrorContains :: "'p test_env \<Rightarrow> string \<Rightarrow> string option \<Rightarrow> 'p iface list \<Rightarrow> 'p report option" where
  "ErrorContains T want err msg =
     (if (case err of None \<Rightarrow> True | Some e \<Rightarrow> \<not> Contains e want) then
        Some (''%s:%d %s, got: %v, want: %s'',
          [LStr (caller_file T), LLine (caller_line T), LStr (parseMsg (Sprintf T) ''Expected error not returned'' msg), LErr err, LStr want])
      else None)"

definition isNil :: "'p iface \<Rightarrow> bool" where
  "isNil obj =
     (case obj of
        None \<Rightarrow> True
      | Some x \<Rightarrow> if v_kind x \<in> {Chan, Func, Interface, MapKind, PtrKind, Slice, UnsafePointer} then v_nil x else False)"

definition NotNil :: "'p test_env \<Rightarrow> 'p iface \<Rightarrow> 'p iface list \<Rightarrow> 'p report option" where
  "NotNil T obj msg =
     (if isNil obj then
        Some (''%s:%d %s'', [LStr (caller_file T), LLine (caller_line T), LStr (parseMsg (Sprintf T) ''Unexpected nil value'' msg)])
      else None)"

text \<open>A log entry: its formatted text, or the error of formatting it, and its fields.\<close>

record 'p log_entry =
  entry_String :: "string + string"
  entry_Data :: "'p iface list"

definition entry_matches :: "string \<Rightarrow> string \<Rightarrow> 'p iface list \<Rightarrow> bool" where
  "entry_matches want text fs \<longleftrightarrow>
     Contains text want \<or> (\<exists>field\<in>set fs. case string_of field of None \<Rightarrow> False | Some s \<Rightarrow> Contains s want)"

fun search_logs :: "string \<Rightarrow> 'p log_entry list \<Rightarrow> bool \<Rightarrow> string list \<Rightarrow> string + (bool \<times> string list)" where
  "search_logs want [] matched logs = Inr (matched, logs)"
| "search_logs want (e # entries) matched logs =
     (case entry_String e of
        Inl err \<Rightarrow> Inl err
      | Inr text \<Rightarrow> search_logs want entries (matched \<or> entry_matches want text (entry_Data e)) (logs @ [text]))"

definition LogsContain :: "'p test_env \<Rightarrow> 'p log_entry list \<Rightarrow> string \<Rightarrow> bool \<Rightarrow> 'p iface list \<Rightarrow> 'p report option" where
  "LogsContain T entries want flag msg =
     (case search_logs want entries False [] of
        Inl err \<Rightarrow>
          Some (''%s:%d Failed to format log entry to string: %v'', [LStr (caller_file T), LLine (caller_line T), LErr (Some err)])
      | Inr (matched, logs) \<Rightarrow>
          let errMsg = (if flag \<and> \<not> matched then parseMsg (Sprintf T) ''Expected log not found'' msg
                        else if \<not> flag \<and> matched then parseMsg (Sprintf T) ''Unexpected log found'' msg
                        else []) in
          if errMsg \<noteq> [] then
            Some (''%s:%d %s: %v'' @ [CHR 0x0A] @ ''Searched logs:'' @ [CHR 0x0A] @ ''%v'',
              [LStr (caller_file T), LLine (caller_line T), LStr errMsg, LStr want, LLogs logs])
          else None)"

section \<open>Reporting\<close>

text \<open>The mock of \<open>testing.TB\<close>; \<open>render\<close> is \<open>fmt.Sprintf\<close> on the arguments of the logger.\<close>

record TBMock =
  ErrorfMsg :: string
  FatalfMsg :: string

definition TBMock_Errorf :: "('p report \<Rightarrow> string) \<Rightarrow> 'p report \<Rightarrow> TBMock \<Rightarrow> TBMock" where
  "TBMock_Errorf render r tb = tb\<lparr>ErrorfMsg := render r\<rparr>"

definition TBMock_Fatalf :: "('p report \<Rightarrow> string) \<Rightarrow> 'p report \<Rightarrow> TBMock \<Rightarrow> TBMock" where
  "TBMock_Fatalf render r tb = tb\<lparr>FatalfMsg := render r\<rparr>"

text \<open>\<open>assert.X\<close> and \<open>require.X\<close> pass the method of the test to the assertion.\<close>

definition run_logger :: "('p report \<Rightarrow> 'tb \<Rightarrow> 'tb) \<Rightarrow> 'p report option \<Rightarrow> 'tb \<Rightarrow> 'tb" where
  "run_logger loggerFn r tb = (case r of None \<Rightarrow> tb | Some rep \<Rightarrow> loggerFn rep tb)"

record ('p, 'tb) AssertionTestingTB =
  tb_Errorf :: "'p report \<Rightarrow> 'tb \<Rightarrow> 'tb"
  tb_Fatalf :: "'p report \<Rightarrow> 'tb \<Rightarrow> 'tb"

definition assert_Equal :: "('p, 'tb) AssertionTestingTB \<Rightarrow> 'p test_env \<Rightarrow> 'p iface \<Rightarrow> 'p iface \<Rightarrow> 'p iface list \<Rightarrow> 'tb \<Rightarrow> 'tb outcome" where
  "assert_Equal M T expected actual msg tb = outcome_bind (Equal T expected actual msg) (\<lambda>r. Return (run_logger (tb_Errorf M) r tb))"

definition assert_NotEqual :: "('p, 'tb) AssertionTestingTB \<Rightarrow> 'p test_env \<Rightarrow> 'p iface \<Rightarrow> 'p iface \<Rightarrow> 'p iface list \<Rightarrow> 'tb \<Rightarrow> 'tb outcome" where
  "assert_NotEqual M T expected actual msg tb = outcome_bind (NotEqual T expected actual msg) (\<lambda>r. Return (run_logger (tb_Errorf M) r tb))"

definition assert_DeepEqual :: "('p, 'tb) AssertionTestingTB \<Rightarrow> 'p test_env \<Rightarrow> 'p iface \<Rightarrow> 'p iface \<Rightarrow> 'p iface list \<Rightarrow> 'tb \<Rightarrow> 'tb" where
  "assert_DeepEqual M T expected actual msg tb = run_logger (tb_Errorf M) (DeepEqual T expected actual msg) tb"

definition assert_DeepNotEqual :: "('p, 'tb) AssertionTestingTB \<Rightarrow> 'p test_env \<Rightarrow> 'p iface \<Rightarrow> 'p iface \<Rightarrow> 'p iface list \<Rightarrow> 'tb \<Rightarrow> 'tb" where
  "assert_DeepNotEqual M T expected actual msg tb = run_logger (tb_Errorf M) (DeepNotEqual T expected actual msg) tb"

definition assert_NoError :: "('p, 'tb) AssertionTestingTB \<Rightarrow> 'p test_env \<Rightarrow> string option \<Rightarrow> 'p iface list \<Rightarrow> 'tb \<Rightarrow> 'tb" where
  "assert_NoError M T err msg tb = run_logger (tb_Errorf M) (NoError T err msg) tb"

definition assert_ErrorContains :: "('p, 'tb) AssertionTestingTB \<Rightarrow> 'p test_env \<Rightarrow> string \<Rightarrow> string option \<Rightarrow> 'p iface list \<Rightarrow> 'tb \<Rightarrow> 'tb" where
  "assert_ErrorContains M T want err msg tb = run_logger (tb_Errorf M) (ErrorContains T want err msg) tb"

definition assert_NotNil :: "('p, 'tb) AssertionTestingTB \<Rightarrow> 'p test_env \<Rightarrow> 'p iface \<Rightarrow> 'p iface list \<Rightarrow> 'tb \<Rightarrow> 'tb" where
  "assert_NotNil M T obj msg tb = run_logger (tb_Errorf M) (NotNil T obj msg) tb"

definition assert_LogsContain :: "('p, 'tb) AssertionTestingTB \<Rightarrow> 'p test_env \<Rightarrow> 'p log_entry list \<Rightarrow> string \<Rightarrow> 'p iface list \<Rightarrow> 'tb \<Rightarrow> 'tb" where
  "assert_LogsContain M T hook want msg tb = run_logger (tb_Errorf M) (LogsContain T hook want True msg) tb"

definition assert_LogsDoNotContain :: "('p, 'tb) AssertionTestingTB \<Rightarrow> 'p test_env \<Rightarrow> 'p log_entry list \<Rightarrow> string \<Rightarrow> 'p iface list \<Rightarrow> 'tb \<Rightarrow> 'tb" where
  "assert_LogsDoNotContain M T hook want msg tb = run_logger (tb_Errorf M) (LogsContain T hook want False msg) tb"

definition require_Equal :: "('p, 'tb) AssertionTestingTB \<Rightarrow> 'p test_env \<Rightarrow> 'p iface \<Rightarrow> 'p iface \<Rightarrow> 'p iface list \<Rightarrow> 'tb \<Rightarrow> 'tb outcome" where
  "require_Equal M T expected actual msg tb = outcome_bind (Equal T expected actual msg) (\<lambda>r. Return (run_logger (tb_Fatalf M) r tb))"

definition require_NotEqual :: "('p, 'tb) AssertionTestingTB \<Rightarrow> 'p test_env \<Rightarrow> 'p iface \<Rightarrow> 'p iface \<Rightarrow> 'p iface list \<Rightarrow> 'tb \<Rightarrow> 'tb outcome" where
  "require_NotEqual M T expected actual msg tb = outcome_bind (NotEqual T expected actual msg) (\<lambda>r. Return (run_logger (tb_Fatalf M) r tb))"

definition require_DeepEqual :: "('p, 'tb) AssertionTestingTB \<Rightarrow> 'p test_env \<Rightarrow> 'p iface \<Rightarrow> 'p iface \<Rightarrow> 'p iface list \<Rightarrow> 'tb \<Rightarrow> 'tb" where
  "require_DeepEqual M T expected actual msg tb = run_logger (tb_Fatalf M) (DeepEqual T expected actual msg) tb"

definition require_DeepNotEqual :: "('p, 'tb) AssertionTestingTB \<Rightarrow> 'p test_env \<Rightarrow> 'p iface \<Rightarrow> 'p iface \<Rightarrow> 'p iface list \<Rightarrow> 'tb \<Rightarrow> 'tb" where
  "require_DeepNotEqual M T expected actual msg tb = run_logger (tb_Fatalf M) (DeepNotEqual T expected actual msg) tb"

definition require_NoError :: "('p, 'tb) AssertionTestingTB \<Rightarrow> 'p test_env \<Rightarrow> string option \<Rightarrow> 'p iface list \<Rightarrow> 'tb \<Rightarrow> 'tb" where
  "require_NoError M T err msg tb = run_logger (tb_Fatalf M) (NoError T err msg) tb"

definition require_ErrorContains :: "('p, 'tb) AssertionTestingTB \<Rightarrow> 'p test_env \<Rightarrow> string \<Rightarrow> string option \<Rightarrow> 'p iface list \<Rightarrow> 'tb \<Rightarrow> 'tb" where
  "require_ErrorContains M T want err msg tb = run_logger (tb_Fatalf M) (ErrorContains T want err msg) tb"

definition require_NotNil :: "('p, 'tb) AssertionTestingTB \<Rightarrow> 'p test_env \<Rightarrow> 'p iface \<Rightarrow> 'p iface list \<Rightarrow> 'tb \<Rightarrow> 'tb" where
  "require_NotNil M T obj msg tb = run_logger (tb_Fatalf M) (NotNil T obj msg) tb"

definition require_LogsContain :: "('p, 'tb) AssertionTestingTB \<Rightarrow> 'p test_env \<Rightarrow> 'p log_entry list \<Rightarrow> string \<Rightarrow> 'p iface list \<Rightarrow> 'tb \<Rightarrow> 'tb" where
  "require_LogsContain M T hook want msg tb = run_logger (tb_Fatalf M) (LogsContain T hook want True msg) tb"

definition require_LogsDoNotContain :: "('p, 'tb) AssertionTestingTB \<Rightarrow> 'p test_env \<Rightarrow> 'p log_entry list \<Rightarrow> string \<Rightarrow> 'p iface list \<Rightarrow> 'tb \<Rightarrow> 'tb" where
  "require_LogsDoNotContain M T hook want msg tb = run_logger (tb_Fatalf M) (LogsContain T hook want False msg) tb"

section \<open>What the assertions report\<close>

text \<open>Exactly one of \<open>Equal\<close> and \<open>NotEqual\<close> fails, unless the comparison panics in both.\<close>

lemma Equal_xor_NotEqual:
  "(\<exists>e. iface_eq a b = Return e \<and> (\<exists>r. Equal T a b msg = Return (if e then None else Some r)) \<and> (\<exists>r. NotEqual T a b msg = Return (if e then Some r else None)))
   \<or> (\<exists>p. Equal T a b msg = Panic p \<and> NotEqual T a b msg = Panic p)"
  by (cases "iface_eq a b") (auto simp: Equal_def NotEqual_def)

lemma ErrorContains_not_NoError:
  "ErrorContains T want err msg = None \<Longrightarrow> NoError T err msg \<noteq> None"
  by (auto simp: ErrorContains_def NoError_def split: option.splits if_splits)

lemma search_logs_eq:
  "search_logs want entries matched logs =
     (case find (\<lambda>e. isl (entry_String e)) entries of
        Some e \<Rightarrow> Inl (projl (entry_String e))
      | None \<Rightarrow> Inr (matched \<or> (\<exists>e\<in>set entries. entry_matches want (projr (entry_String e)) (entry_Data e)),
                    logs @ map (projr \<circ> entry_String) entries))"
  by (induction entries arbitrary: matched logs) (auto split: sum.split option.split)

text \<open>
  The check of the logs: on entries that can be formatted it reports exactly when the outcome of the search is not the
  expected one and the message to print is not empty.
\<close>

lemma LogsContain_iff:
  assumes "\<forall>e\<in>set entries. \<not> isl (entry_String e)"
  shows "LogsContain T entries want flag msg \<noteq> None \<longleftrightarrow>
    (flag \<longleftrightarrow> \<not> (\<exists>e\<in>set entries. entry_matches want (projr (entry_String e)) (entry_Data e)))
    \<and> parseMsg (Sprintf T) (if flag then ''Expected log not found'' else ''Unexpected log found'') msg \<noteq> []"
proof -
  have "find (\<lambda>e. isl (entry_String e)) entries = None" using assms by (simp add: find_None_iff)
  then show ?thesis by (auto simp: LogsContain_def search_logs_eq Let_def)
qed

text \<open>An empty message of the caller's hides a failed check.\<close>

lemma LogsContain_empty_message:
  assumes "\<forall>e\<in>set entries. \<not> isl (entry_String e)" and "Sprintf T [] [] = []" and "string_of m = Some []"
  shows "LogsContain T entries want flag [m] = None"
  using LogsContain_iff [OF assms(1), of T want flag "[m]"] assms(2,3)
  by (cases "LogsContain T entries want flag [m]") (simp_all add: parseMsg_def)

text \<open>
  On the mock the two packages are told apart: \<open>assert\<close> leaves the message of \<open>Fatalf\<close> alone, \<open>require\<close> that of \<open>Errorf\<close>, and of
  the two checks of the logs exactly one changes the mock when the messages are not empty.
\<close>

definition mock_tb :: "('p report \<Rightarrow> string) \<Rightarrow> ('p, TBMock) AssertionTestingTB" where
  "mock_tb render = \<lparr>tb_Errorf = TBMock_Errorf render, tb_Fatalf = TBMock_Fatalf render\<rparr>"

lemma mock_logs_exclusive:
  assumes "\<forall>e\<in>set hook. \<not> isl (entry_String e)" and "msg = []" and "\<forall>r. render r \<noteq> []"
  shows "(ErrorfMsg (assert_LogsContain (mock_tb render) T hook want msg \<lparr>ErrorfMsg = [], FatalfMsg = []\<rparr>) = [])
      \<longleftrightarrow> (ErrorfMsg (assert_LogsDoNotContain (mock_tb render) T hook want msg \<lparr>ErrorfMsg = [], FatalfMsg = []\<rparr>) \<noteq> [])"
    and "FatalfMsg (assert_LogsContain (mock_tb render) T hook want msg tb) = FatalfMsg tb"
    and "ErrorfMsg (require_LogsContain (mock_tb render) T hook want msg tb) = ErrorfMsg tb"
proof -
  have reported: "LogsContain T hook want flag msg \<noteq> None
      \<longleftrightarrow> (flag \<longleftrightarrow> \<not> (\<exists>e\<in>set hook. entry_matches want (projr (entry_String e)) (entry_Data e)))" for flag
    using LogsContain_iff [OF assms(1), of T want flag msg] by (simp add: assms(2) parseMsg_def)
  have "LogsContain T hook want True msg = None \<longleftrightarrow> LogsContain T hook want False msg \<noteq> None"
    using reported [of True] reported [of False] by argo
  moreover have "ErrorfMsg (run_logger (TBMock_Errorf render) r \<lparr>ErrorfMsg = [], FatalfMsg = []\<rparr>) = [] \<longleftrightarrow> r = None" for r
    using assms(3) [rule_format, of "the r"] by (cases r) (simp_all add: run_logger_def TBMock_Errorf_def)
  ultimately show "(ErrorfMsg (assert_LogsContain (mock_tb render) T hook want msg \<lparr>ErrorfMsg = [], FatalfMsg = []\<rparr>) = [])
      \<longleftrightarrow> (ErrorfMsg (assert_LogsDoNotContain (mock_tb render) T hook want msg \<lparr>ErrorfMsg = [], FatalfMsg = []\<rparr>) \<noteq> [])"
    by (simp add: assert_LogsContain_def assert_LogsDoNotContain_def mock_tb_def)
qed (simp_all add: assert_LogsContain_def require_LogsContain_def mock_tb_def run_logger_def TBMock_Errorf_def TBMock_Fatalf_def split: option.split)

end
