(* ===== verification/Rpc_Inproc_Sub.thy ===== *)
theory Rpc_Inproc_Sub
  imports Rpc_Inproc
begin

text \<open>
  A subscription over an in-process connection, from \<open>Subscribe\<close> of the client through the handler of the server and the
  notifier back into the subscription of the client (\<open>client.go\<close>, \<open>handler.go\<close>, \<open>subscription.go\<close> together).
\<close>

section \<open>The service method\<close>

text \<open>
  A method that creates a subscription, notifies at once, as \<open>CreateSubscription\<close> allows, and returns the subscription.
\<close>

fun notifying :: "string \<Rightarrow> string list \<Rightarrow> 'v prog \<Rightarrow> 'v prog" where
  "notifying sid [] p = p"
| "notifying sid (d # ds) p = DoNotify sid (Inr d) (\<lambda>_. notifying sid ds p)"

definition subscribing :: "(string \<Rightarrow> 'v rvalue list) \<Rightarrow> string list \<Rightarrow> 'v prog" where
  "subscribing res ds = DoCreate (\<lambda>sid. notifying sid ds (Done (Return (res sid))))"

text \<open>Notifications after the call, from other goroutines of the service.\<close>

fun later_notes ::
  "('f, 'v, 'c, 'g) env \<Rightarrow> nat \<Rightarrow> string \<Rightarrow> string list \<Rightarrow> ('f, 'c, 'g) handler \<Rightarrow> ('f, 'c, 'g) handler outcome" where
  "later_notes E i sid [] h = Return h"
| "later_notes E i sid (d # ds) h =
     outcome_bind (Notify (e_write E) sid (Inr d) (notifiers h ! i) (h_conn h)) (\<lambda>(err, n, c).
       later_notes E i sid ds (h\<lparr>h_conn := c, notifiers := (notifiers h)[i := n]\<rparr>))"

text \<open>A client that reads one text after the other.\<close>

fun read_all :: "(nat \<Rightarrow> bool) \<Rightarrow> string list \<Rightarrow> ('f, 'g) client \<Rightarrow> ('f, 'g) client chan_step" where
  "read_all pick [] c = Proceed c"
| "read_all pick (t # ts) c = step_bind (dispatch (snd (client_read pick (Inr t))) c) (read_all pick ts)"

section \<open>The served end\<close>

lemma run_notifying:
  assumes "i < length (notifiers h)" and "n_sub (notifiers h ! i) = Some sub" and "\<not> activated (notifiers h ! i)"
  shows "run_prog (notifying (sub_ID sub) ds (Done r)) E (Some i) h
    = (r, h\<lparr>notifiers := (notifiers h)[i := (notifiers h ! i)\<lparr>n_buffer := n_buffer (notifiers h ! i) @ ds\<rparr>]\<rparr>)"
  using assms
proof (induction ds arbitrary: h)
  case Nil
  then show ?case by simp
next
  case (Cons d ds)
  let ?n = "(notifiers h ! i)\<lparr>n_buffer := n_buffer (notifiers h ! i) @ [d]\<rparr>"
  let ?h = "h\<lparr>notifiers := (notifiers h)[i := ?n]\<rparr>"
  have "Notify (e_write E) (sub_ID sub) (Inr d) (notifiers h ! i) (h_conn h) = Return (None, ?n, h_conn h)"
    using Cons.prems by (simp add: Notify_def)
  then have "run_prog (notifying (sub_ID sub) (d # ds) (Done r)) E (Some i) h = run_prog (notifying (sub_ID sub) ds (Done r)) E (Some i) ?h"
    by simp
  also have "\<dots> = (r, ?h\<lparr>notifiers := (notifiers ?h)[i := (notifiers ?h ! i)\<lparr>n_buffer := n_buffer (notifiers ?h ! i) @ ds\<rparr>]\<rparr>)"
    using Cons.prems by (intro Cons.IH) simp_all
  finally show ?case using Cons.prems by simp
qed

text \<open>The notifier of the call when its method has returned.\<close>

definition made :: "string \<Rightarrow> string \<Rightarrow> string list \<Rightarrow> notifier" where
  "made ns sid ds =
     \<lparr>n_namespace = ns, n_sub = Some \<lparr>sub_ID = sid, sub_namespace = ns, sub_err = make_chan 1\<rparr>, n_buffer = ds,
      callReturned = False, activated = False\<rparr>"

lemma run_subscribing:
  assumes "e_idgen E (h_idgen h) = (sid, g)" and "notifiers h = ns' @ [new_notifier ns]"
  shows "run_prog (subscribing res ds) E (Some (length ns')) h
    = (Return (res sid), h\<lparr>h_idgen := g, notifiers := ns' @ [made ns sid ds]\<rparr>)"
proof -
  let ?sub = "\<lparr>sub_ID = sid, sub_namespace = ns, sub_err = make_chan 1\<rparr>"
  let ?n = "(new_notifier ns)\<lparr>n_sub := Some ?sub\<rparr>"
  let ?h = "h\<lparr>h_idgen := g, notifiers := ns' @ [?n]\<rparr>"
  have "CreateSubscription (e_idgen E) (h_idgen h) (notifiers h ! length ns') = Return (?sub, ?n, g)"
    using assms by (simp add: CreateSubscription_def new_notifier_def Let_def)
  then have "run_prog (subscribing res ds) E (Some (length ns')) h
      = run_prog (notifying (sub_ID ?sub) ds (Done (Return (res sid)))) E (Some (length ns')) ?h"
    using assms(2) by (simp add: subscribing_def)
  also have "\<dots> = (Return (res sid), ?h\<lparr>notifiers := (notifiers ?h)[length ns' := (notifiers ?h ! length ns')\<lparr>n_buffer := n_buffer (notifiers ?h ! length ns') @ ds\<rparr>]\<rparr>)"
    by (rule run_notifying) (simp_all add: new_notifier_def)
  also have "\<dots> = (Return (res sid), h\<lparr>h_idgen := g, notifiers := ns' @ [made ns sid ds]\<rparr>)"
    by (simp add: made_def new_notifier_def)
  finally show ?thesis .
qed

lemma activate_loop_sends:
  assumes "n_sub n = Some sub" and "n_namespace n = ns" and "write = writeJSON (\<lambda>_. None) now dl"
  shows "\<exists>c'. activate_loop write n ds c = Return (None, c') \<and> written c' = written c @ note_msgs ns (map (Pair (sub_ID sub)) ds)"
proof (induction ds arbitrary: c)
  case Nil
  then show ?case by (simp add: note_msgs_def)
next
  case (Cons d ds)
  obtain c1 where c1: "notifier_send write n (sub_ID sub) d c = (None, c1)" "written c1 = written c @ [WMsg (notification ns (sub_ID sub) d)]"
    using assms(2,3) by (simp add: notifier_send_def writeJSON_def Let_def)
  from Cons.IH [of c1] c1 assms(1) show ?case by (auto simp: note_msgs_def)
qed

text \<open>A subscribe call from its message to the end of its process.\<close>

definition active :: "string \<Rightarrow> string \<Rightarrow> string list \<Rightarrow> notifier" where
  "active ns sid ds = (made ns sid ds)\<lparr>callReturned := True, activated := True\<rparr>"

lemma runProc_subscribes:
  assumes "isCall msg" and "\<not> isNotification msg" and "isSubscribe msg" and "namespace msg = ns" and "allowSubscribe h"
    and "parseSubscriptionName (Params msg) = Inr nam" and "registry_subscription (h_reg h) ns nam = Some callb"
    and "parsePositionalArguments (e_dec E) (e_zero E) (Params msg) (StringType # argTypes callb) = Inr args"
    and "e_invoke E (fn_id (fn callb)) (fullargs callb (tl args)) = subscribing res ds"
    and "e_idgen E (h_idgen h) = (sid, g)" and "call_results callb (Return (res sid)) = Inr v" and "marshal_result E v = Inr (json_quote sid)"
    and "e_write E = writeJSON (\<lambda>_. None) now dl"
  shows "\<exists>h'. runProc E False [msg] h = Return h'
    \<and> written (h_conn h') = written (h_conn h) @ WMsg (response msg (Inr (json_quote sid))) # note_msgs ns (map (Pair sid) ds)
    \<and> notifiers h' = notifiers h @ [active ns sid ds] \<and> map_of (serverSubs h') sid = Some (length (notifiers h))"
proof -
  let ?i = "length (notifiers h)" and ?ans = "response msg (Inr (json_quote sid))"
  let ?h0 = "h\<lparr>notifiers := notifiers h @ [new_notifier ns]\<rparr>"
  let ?h1 = "h\<lparr>h_idgen := g, notifiers := notifiers h @ [made ns sid ds]\<rparr>"
  have "run_prog (subscribing res ds) E (Some ?i) ?h0 = (Return (res sid), ?h0\<lparr>h_idgen := g, notifiers := notifiers h @ [made ns sid ds]\<rparr>)"
    by (rule run_subscribing) (simp_all add: assms(10))
  then have "runMethod E (Some ?i) msg callb (tl args) ?h0 = (?ans, ?h1)"
    using assms(9,11,12) by (simp add: runMethod_def)
  then have "handleSubscribe E msg h [] = (?ans, ?h1, [?i])"
    using assms(4-8) by (simp add: handleSubscribe_def Let_def)
  then have loop: "call_loop E [msg] [] h [] = ([?ans], ?h1, [?i])"
    using assms(1-3) by (simp add: handleCallMsg_def handleCall_def)
  let ?h2 = "?h1\<lparr>notifiers := notifiers h @ [(made ns sid ds)\<lparr>callReturned := True\<rparr>], serverSubs := AList.update sid ?i (serverSubs h)\<rparr>"
  have take: "addSubscriptions [?i] ?h1 = ?h2" by (simp add: takeSubscription_def made_def)
  obtain c2 where c2: "write_answers E False [?ans] ?h2 = ?h2\<lparr>h_conn := c2\<rparr>" "written c2 = written (h_conn h) @ [WMsg ?ans]"
    using assms(13) by (simp add: write_answers_def answer_wire_def writeJSON_def Let_def)
  let ?n = "(made ns sid ds)\<lparr>callReturned := True\<rparr>"
  obtain c3 where c3: "activate_loop (e_write E) ?n ds c2 = Return (None, c3)" "written c3 = written c2 @ note_msgs ns (map (Pair sid) ds)"
    using activate_loop_sends [OF _ _ assms(13), of ?n "\<lparr>sub_ID = sid, sub_namespace = ns, sub_err = make_chan 1\<rparr>" ns ds c2] by (auto simp: made_def)
  have "n_buffer ?n = ds" by (simp add: made_def)
  then have "activate_all E [?i] (?h2\<lparr>h_conn := c2\<rparr>) = Return (?h2\<lparr>h_conn := c3, notifiers := notifiers h @ [active ns sid ds]\<rparr>)"
    using c3(1) by (simp add: activate_notifier_def activate_def outcome_bind_def active_def)
  then have "runProc E False [msg] h = Return (?h2\<lparr>h_conn := c3, notifiers := notifiers h @ [active ns sid ds]\<rparr>)"
    unfolding runProc_def Let_def loop prod.case take c2(1) .
  then show ?thesis using c2(2) c3(2) by (simp add: update_conv)
qed

lemma later_notes_sends:
  assumes "i < length (notifiers h)" and "notifiers h ! i = active ns sid ds" and "e_write E = writeJSON (\<lambda>_. None) now dl"
  shows "\<exists>h'. later_notes E i sid later h = Return h' \<and> written (h_conn h') = written (h_conn h) @ note_msgs ns (map (Pair sid) later)
    \<and> notifiers h' = notifiers h \<and> serverSubs h' = serverSubs h"
  using assms(1,2)
proof (induction later arbitrary: h)
  case Nil
  then show ?case by (simp add: note_msgs_def)
next
  case (Cons d later)
  obtain c where c: "Notify (e_write E) sid (Inr d) (notifiers h ! i) (h_conn h) = Return (None, notifiers h ! i, c)"
      "written c = written (h_conn h) @ [WMsg (notification ns sid d)]"
    using Cons.prems(2) assms(3) by (simp add: Notify_def active_def made_def notifier_send_def writeJSON_def Let_def)
  have same: "(notifiers h)[i := notifiers h ! i] = notifiers h" by simp
  obtain h' where h': "later_notes E i sid later (h\<lparr>h_conn := c\<rparr>) = Return h'"
      "written (h_conn h') = written c @ note_msgs ns (map (Pair sid) later)" "notifiers h' = notifiers h" "serverSubs h' = serverSubs h"
    using Cons.IH [of "h\<lparr>h_conn := c\<rparr>"] Cons.prems by auto
  have "h\<lparr>h_conn := c, notifiers := notifiers h\<rparr> = h\<lparr>h_conn := c\<rparr>" by simp
  with c(1) have "later_notes E i sid (d # later) h = later_notes E i sid later (h\<lparr>h_conn := c\<rparr>)"
    by (simp add: outcome_bind_def same)
  with h' c(2) show ?case by (simp add: note_msgs_def)
qed

section \<open>The client\<close>

lemma decode_notification:
  assumes "ascii sid" and "is_value d" and "compact Outside d = d"
  shows "decode_subscriptionResult (Params (notification ns sid d)) = Some \<lparr>sr_ID = sid, sr_Result = Some d\<rparr>"
proof -
  let ?kvs = "(''subscription'', json_quote sid) # omit_raw ''result'' (Some d)"
  have raw: "omit_raw ''result'' (Some d) = [(''result'', d)]" using omit_raw_wf [of "Some d"] assms(2,3) by (simp add: wf_raw_def)
  have "\<forall>(k, v) \<in> set ?kvs. ascii k \<and> is_value v" using assms(1,2) by (simp add: raw)
  note enc = members_of_encode [OF this]
  have "\<not> is_null (json_quote sid)" by (simp add: is_null_def null_raw_def json_quote_def quote_char_def)
  then show ?thesis using enc assms(1)
    by (simp add: decode_subscriptionResult_def notification_def marshal_subscriptionResult_def raw subscriptionResult_member_def
        key_is_quote Let_def zero_message_def del: fold_key.simps)
qed

definition got :: "nat \<Rightarrow> string list \<Rightarrow> ('f, 'g) client \<Rightarrow> ('f, 'g) client" where
  "got s ds c =
     c\<lparr>c_handler := (c_handler c)\<lparr>csubs := (csubs (c_handler c))(s := (csubs (c_handler c) s)\<lparr>cs_in := cs_in (csubs (c_handler c) s) @ ds\<rparr>)\<rparr>\<rparr>"

lemma note_delivered:
  assumes "wf_message (notification ns sid d)" and "ascii sid" and "is_value d" and "compact Outside d = d"
    and "map_of (clientSubs (c_handler c)) sid = Some s" and "\<not> ch_closed (cs_quit (csubs (c_handler c) s))"
  shows "dispatch (snd (client_read pick (Inr (pipe_text (WMsg (notification ns sid d)))))) c = Proceed (got s [d] c)"
proof -
  have "isNotification (notification ns sid d)" "HasSuffix (Method (notification ns sid d)) notificationMethodSuffix"
    by (auto simp: notification_def isNotification_def zero_message_def notificationMethodSuffix_def HasSuffix_iff)
  then have "handleImmediate (pick 0) (notification ns sid d) (c_handler c) = Proceed (True, c_handler (got s [d] c))"
    using assms(5,6) decode_notification [OF assms(2-4), of ns]
    by (simp add: handleImmediate_def handleSubscriptionResult_def deliver_def raw_bytes_def got_def)
  then show ?thesis using read_pipe_text(1) [OF assms(1)] by (simp add: dispatch_def handleMsg_def add_proc_def got_def)
qed

lemma read_notes:
  assumes "\<forall>d \<in> set ds. wf_message (notification ns sid d) \<and> is_value d \<and> compact Outside d = d" and "ascii sid"
    and "map_of (clientSubs (c_handler c)) sid = Some s" and "\<not> ch_closed (cs_quit (csubs (c_handler c) s))"
  shows "read_all pick (map pipe_text (note_msgs ns (map (Pair sid) ds))) c = Proceed (got s ds c)"
  using assms
proof (induction ds arbitrary: c)
  case Nil
  then show ?case by (simp add: note_msgs_def got_def)
next
  case (Cons d ds)
  have "dispatch (snd (client_read pick (Inr (pipe_text (WMsg (notification ns sid d)))))) c = Proceed (got s [d] c)"
    using Cons.prems by (intro note_delivered) simp_all
  moreover have "read_all pick (map pipe_text (note_msgs ns (map (Pair sid) ds))) (got s [d] c) = Proceed (got s ds (got s [d] c))"
    using Cons.prems by (intro Cons.IH) (simp_all add: got_def)
  moreover have "got s ds (got s [d] c) = got s (d # ds) c" by (simp add: got_def)
  ultimately show ?case by (simp add: note_msgs_def)
qed

text \<open>The answer starts the subscription and closes the channel on which the caller waits.\<close>

lemma answer_subscribes:
  assumes "isCall msg" and "wf_message (response msg (Inr (json_quote sid)))" and "ascii sid"
    and "map_of (respWait (c_handler c)) (raw_bytes (ID msg)) = Some a" and "ops (c_handler c) a = subscribe_op (raw_bytes (ID msg)) s"
  shows "\<exists>c' op. dispatch (snd (client_read pick (Inr (pipe_text (WMsg (response msg (Inr (json_quote sid)))))))) c = Proceed c'
    \<and> op_wait (ops (c_handler c') a) = Proceed ((None, None), op) \<and> map_of (clientSubs (c_handler c')) sid = Some s
    \<and> csubs (c_handler c') = (csubs (c_handler c))(s := (csubs (c_handler c) s)\<lparr>cs_subid := sid, cs_started := True\<rparr>)
    \<and> map_of (respWait (c_handler c')) (raw_bytes (ID msg)) = None"
proof -
  let ?ans = "response msg (Inr (json_quote sid))" and ?i = "raw_bytes (ID msg)" and ?h = "c_handler c"
  let ?op = "(subscribe_op ?i s)\<lparr>op_err := None, op_resp := (make_chan 0)\<lparr>ch_closed := True\<rparr>\<rparr>"
  let ?h' = "?h\<lparr>respWait := AList.delete ?i (respWait ?h), csubs := (csubs ?h)(s := (csubs ?h s)\<lparr>cs_subid := sid, cs_started := True\<rparr>),
    clientSubs := AList.update sid s (clientSubs ?h), ops := (ops ?h)(a := ?op)\<rparr>"
  have "\<not> is_null (json_quote sid)" by (simp add: is_null_def null_raw_def json_quote_def quote_char_def)
  then have "handleResponse ?ans ?h = Proceed ?h'"
    using assms(3-5) by (simp add: handleResponse_def response_def zero_message_def unmarshal_string_def subscribe_op_def
        chan_close_def make_chan_def Let_def)
  moreover have "isResponse ?ans" "\<not> isNotification ?ans"
    using assms(1) by (auto simp: response_def zero_message_def isResponse_def isNotification_def isCall_def hasValidID_def split: option.splits list.splits)
  ultimately have "dispatch (snd (client_read pick (Inr (pipe_text (WMsg ?ans))))) c = Proceed (c\<lparr>c_handler := ?h'\<rparr>)"
    using read_pipe_text(1) [OF assms(2)] by (simp add: dispatch_def handleMsg_def handleImmediate_def add_proc_def)
  moreover have "op_wait ?op = Proceed ((None, None), ?op)"
    by (simp add: op_wait_def chan_recv_def subscribe_op_def make_chan_def)
  ultimately show ?thesis by (intro exI [of _ "c\<lparr>c_handler := ?h'\<rparr>"] exI [of _ ?op]) (simp add: update_conv delete_conv)
qed

section \<open>The whole subscription\<close>

text \<open>
  C12. A subscription over the pipe, step by step: the client's loop takes the request, the served end reads it and runs the
  method, which creates a subscription and notifies at once; the process writes the answer with the subscription's ID and only then
  the notifications, later ones follow. The client reads the answer, which ends the wait of \<open>Subscribe\<close> with the
  started subscription, and then every notification, and the subscription has received exactly the payloads, each once and in the
  order in which the service sent them; the server has the subscription under its ID.
\<close>

theorem inproc_subscription:
  assumes "\<not> c_locked c" and "newMessage (ns @ subscribeMethodSuffix) (Some (Inr params)) n = (Inr msg, n')"
    and "ops (c_handler c) a = subscribe_op (raw_bytes (ID msg)) s" and "csubs (c_handler c) s = newClientSubscription ns"
    and "ascii ns" and "serviceMethodSeparator \<notin> set ns" and "is_value params" and "compact Outside params = params"
    and "allowSubscribe (c_handler sv)" and "parseSubscriptionName (Some params) = Inr nam"
    and "registry_subscription (h_reg (c_handler sv)) ns nam = Some callb"
    and "parsePositionalArguments (e_dec E) (e_zero E) (Some params) (StringType # argTypes callb) = Inr args"
    and "e_invoke E (fn_id (fn callb)) (fullargs callb (tl args)) = subscribing res ds"
    and "e_idgen E (h_idgen (c_handler sv)) = (sid, g)" and "call_results callb (Return (res sid)) = Inr v"
    and "marshal_result E v = Inr (json_quote sid)" and "e_write E = writeJSON (\<lambda>_. None) now dl"
    and "ascii sid" and "wf_message (response msg (Inr (json_quote sid)))"
    and "\<forall>d \<in> set (ds @ later). wf_message (notification ns sid d) \<and> is_value d \<and> compact Outside d = d"
  shows "\<exists>c1 c2 c3 c4 sv1 h h' op. dispatch (EvReqInit a) c = Proceed c1 \<and> dispatch (EvReqSent None) c1 = Proceed c2
    \<and> dispatch (snd (client_read pick (Inr (pipe_text (WMsg msg))))) sv = Proceed sv1 \<and> c_procs sv1 = c_procs sv @ [startCallProc False [msg]]
    \<and> runProc E False [msg] (c_handler sv1) = Return h \<and> later_notes E (length (notifiers (c_handler sv))) sid later h = Return h'
    \<and> written (h_conn h') = written (h_conn (c_handler sv)) @ WMsg (response msg (Inr (json_quote sid))) # note_msgs ns (map (Pair sid) (ds @ later))
    \<and> map_of (serverSubs h') sid = Some (length (notifiers (c_handler sv)))
    \<and> dispatch (snd (client_read pick (Inr (pipe_text (WMsg (response msg (Inr (json_quote sid)))))))) c2 = Proceed c3
    \<and> op_wait (ops (c_handler c3) a) = Proceed ((None, None), op)
    \<and> Subscribe True False ns (Some (Inr params)) s (\<lambda>_ _. None) (None, None) n = (Return (Inr s), n')
    \<and> read_all pick (map pipe_text (note_msgs ns (map (Pair sid) (ds @ later)))) c3 = Proceed c4
    \<and> cs_started (csubs (c_handler c4) s) \<and> cs_subid (csubs (c_handler c4) s) = sid \<and> cs_in (csubs (c_handler c4) s) = ds @ later"
proof -
  have "ascii (ns @ subscribeMethodSuffix)" "ns @ subscribeMethodSuffix \<noteq> []"
    using assms(5) by (auto simp: subscribeMethodSuffix_def ascii_def char_code_def)
  note req = request_message [OF assms(2) this assms(7,8)]
  let ?i = "raw_bytes (ID msg)" and ?ans = "response msg (Inr (json_quote sid))" and ?k = "length (notifiers (c_handler sv))"
  let ?h1 = "(c_handler c)\<lparr>respWait := AList.update ?i a (respWait (c_handler c))\<rparr>"
  let ?c1 = "c\<lparr>c_locked := True, c_lastOp := Some a, c_handler := ?h1\<rparr>" and ?c2 = "c\<lparr>c_locked := False, c_lastOp := None, c_handler := ?h1\<rparr>"
  have out: "dispatch (EvReqInit a) c = Proceed ?c1" "dispatch (EvReqSent None) ?c1 = Proceed ?c2"
    using assms(1,3) by (simp_all add: dispatch_def addRequestOp_def subscribe_op_def)
  let ?sv = "add_proc (Some (startCallProc False [msg])) (c_handler sv) sv"
  have served: "dispatch (snd (client_read pick (Inr (pipe_text (WMsg msg))))) sv = Proceed ?sv"
    using read_pipe_text(1) [OF req(1)] req(3,4) by (simp add: dispatch_def handleMsg_def handleImmediate_def)
  have sub: "isSubscribe msg" using req(5) by (auto simp: isSubscribe_def HasSuffix_iff)
  have ns: "namespace msg = ns"
    using req(5) SplitN2_at_sep [OF assms(6), where b = "''subscribe''"] by (simp add: namespace_def subscribeMethodSuffix_def serviceMethodSeparator_def)
  obtain h where h: "runProc E False [msg] (c_handler sv) = Return h"
      "written (h_conn h) = written (h_conn (c_handler sv)) @ WMsg ?ans # note_msgs ns (map (Pair sid) ds)"
      "notifiers h = notifiers (c_handler sv) @ [active ns sid ds]" "map_of (serverSubs h) sid = Some ?k"
    using runProc_subscribes [OF req(2,3) sub ns assms(9) _ assms(11) _ assms(13-17)] assms(10,12) by (auto simp: req(6))
  obtain h' where h': "later_notes E ?k sid later h = Return h'"
      "written (h_conn h') = written (h_conn h) @ note_msgs ns (map (Pair sid) later)" "serverSubs h' = serverSubs h"
    using later_notes_sends [of ?k h ns sid ds, OF _ _ assms(17)] h(3) by auto
  have wait: "map_of (respWait (c_handler ?c2)) ?i = Some a" "ops (c_handler ?c2) a = subscribe_op ?i s"
    using assms(3) by (simp_all add: update_conv)
  from answer_subscribes [OF req(2) assms(19,18) wait, of pick] assms(4)
  obtain c3 op where c3: "dispatch (snd (client_read pick (Inr (pipe_text (WMsg ?ans))))) ?c2 = Proceed c3"
      "op_wait (ops (c_handler c3) a) = Proceed ((None, None), op)" "map_of (clientSubs (c_handler c3)) sid = Some s"
      "csubs (c_handler c3) s = (newClientSubscription ns)\<lparr>cs_subid := sid, cs_started := True\<rparr>"
    by (auto simp: fun_upd_def)
  have c4: "read_all pick (map pipe_text (note_msgs ns (map (Pair sid) (ds @ later)))) c3 = Proceed (got s (ds @ later) c3)"
    using c3(4) by (intro read_notes [OF assms(20,18) c3(3)]) (simp add: newClientSubscription_def make_chan_def)
  have all: "written (h_conn h') = written (h_conn (c_handler sv)) @ WMsg ?ans # note_msgs ns (map (Pair sid) (ds @ later))"
    using h(2) h'(2) by (simp add: note_msgs_def)
  have subscribed: "Subscribe True False ns (Some (Inr params)) s (\<lambda>_ _. None) (None, None) n = (Return (Inr s), n')"
    using assms(2) by (simp add: Subscribe_def)
  have seen: "cs_started (csubs (c_handler (got s (ds @ later) c3)) s)" "cs_subid (csubs (c_handler (got s (ds @ later) c3)) s) = sid"
      "cs_in (csubs (c_handler (got s (ds @ later) c3)) s) = ds @ later"
    using c3(4) by (simp_all add: got_def newClientSubscription_def)
  have "c_procs ?sv = c_procs sv @ [startCallProc False [msg]]" "c_handler ?sv = c_handler sv" by (simp_all add: add_proc_def)
  then show ?thesis using out served h(1,4) h'(1,3) all c3(1,2) subscribed c4 seen
    by (intro exI [of _ ?c1] exI [of _ ?c2] exI [of _ c3] exI [of _ "got s (ds @ later) c3"] exI [of _ ?sv] exI [of _ h] exI [of _ h'] exI [of _ op])
      simp
qed

section \<open>Example\<close>

definition feed_env :: "(nat, string, jsonCodec, unit) env" where
  "feed_env = demo_env\<lparr>e_invoke := (\<lambda>_ _. subscribing (\<lambda>sid. [RVal (json_quote sid), RErr None]) [''5'', ''[6]''])\<rparr>"

definition feed_client :: "nat serviceRegistry \<Rightarrow> (nat, unit) client" where
  "feed_client reg = initClient (NewFuncCodec None) () reg (\<lambda>_. subscribe_op ''1'' 0) (\<lambda>_. newClientSubscription ''eth'')"

definition feed_msg :: jsonrpcMessage where
  "feed_msg = \<lparr>jsonrpcMessage.Version = ''2.0'', ID = Some ''1'', Method = ''eth_subscribe'', Params = Some (encode_array [json_quote ''sub'']), Err = None, Result = None\<rparr>"

theorem inproc_subscription_witness:
  "\<exists>h h' (c3 :: (nat, unit) client) c4. runProc feed_env False [feed_msg] (c_handler (feed_client demo_registry)) = Return h
     \<and> later_notes feed_env 0 ''0x1'' [''7''] h = Return h' \<and> length (written (h_conn h')) = 4
     \<and> read_all (\<lambda>_. True) (map pipe_text (note_msgs ''eth'' (map (Pair ''0x1'') [''5'', ''[6]'', ''7'']))) c3 = Proceed c4
     \<and> cs_in (csubs (c_handler c4) 0) = [''5'', ''[6]'', ''7'']"
proof -
  let ?c = "feed_client Map.empty" and ?sv = "feed_client demo_registry" and ?params = "encode_array [json_quote ''sub'']"
  have 1: "\<not> c_locked ?c" "ops (c_handler ?c) 0 = subscribe_op (raw_bytes (ID feed_msg)) 0" "csubs (c_handler ?c) 0 = newClientSubscription ''eth''"
    by (simp_all add: feed_client_def initClient_def newHandler_def raw_bytes_def feed_msg_def)
  have 2: "newMessage (''eth'' @ subscribeMethodSuffix) (Some (Inr ?params)) 0 = (Inr feed_msg, 1)" by code_simp
  have 3: "ascii ''eth''" "serviceMethodSeparator \<notin> set ''eth''" "is_value ?params" "compact Outside ?params = ?params" by code_simp+
  have 4: "allowSubscribe (c_handler ?sv)" "h_reg (c_handler ?sv) = demo_registry" "notifiers (c_handler ?sv) = []" "written (h_conn (c_handler ?sv)) = []"
    by (simp_all add: feed_client_def initClient_def newHandler_def NewFuncCodec_def)
  have 5: "parseSubscriptionName (Some ?params) = Inr ''sub''" by code_simp
  have 6: "registry_subscription (h_reg (c_handler ?sv)) ''eth'' ''sub'' = Some demo_callback"
    unfolding 4(2) by (simp add: registry_subscription_def demo_registry_def)
  have 7: "parsePositionalArguments (e_dec feed_env) (e_zero feed_env) (Some ?params) (StringType # argTypes demo_callback) = Inr [json_quote ''sub'']"
    by code_simp
  have 8: "e_invoke feed_env (fn_id (fn demo_callback)) (fullargs demo_callback (tl [json_quote ''sub'']))
      = subscribing (\<lambda>sid. [RVal (json_quote sid), RErr None]) [''5'', ''[6]'']" by (simp add: feed_env_def)
  have 9: "e_idgen feed_env (h_idgen (c_handler ?sv)) = (''0x1'', ())" by (simp add: feed_env_def demo_env_def)
  have 10: "call_results demo_callback (Return [RVal (json_quote ''0x1''), RErr None]) = Inr (Some (RVal (json_quote ''0x1'')))"
    by (simp add: call_results_def demo_callback_def)
  have 11: "marshal_result feed_env (Some (RVal (json_quote ''0x1''))) = Inr (json_quote ''0x1'')" by (simp add: marshal_result_def feed_env_def demo_env_def)
  have 12: "e_write feed_env = writeJSON (\<lambda>_. None) 0 None" by (simp add: feed_env_def demo_env_def)
  have 13: "ascii ''0x1''" "wf_message (response feed_msg (Inr (json_quote ''0x1'')))" by code_simp+
  have 14: "\<forall>d \<in> set ([''5'', ''[6]''] @ [''7'']). wf_message (notification ''eth'' ''0x1'' d) \<and> is_value d \<and> compact Outside d = d" by code_simp
  from inproc_subscription [OF 1(1) 2 1(2,3) 3 4(1) 5 6 7 8 9 10 11 12 13 14, of "\<lambda>_. True"] obtain c3 c4 :: "(nat, unit) client" and sv1 h h' where
    r: "dispatch (snd (client_read (\<lambda>_. True) (Inr (pipe_text (WMsg feed_msg))))) ?sv = Proceed sv1" "c_procs sv1 = c_procs ?sv @ [startCallProc False [feed_msg]]"
      "runProc feed_env False [feed_msg] (c_handler sv1) = Return h" "later_notes feed_env (length (notifiers (c_handler ?sv))) ''0x1'' [''7''] h = Return h'"
      "written (h_conn h') = written (h_conn (c_handler ?sv)) @ WMsg (response feed_msg (Inr (json_quote ''0x1''))) # note_msgs ''eth'' (map (Pair ''0x1'') ([''5'', ''[6]''] @ [''7'']))"
      "read_all (\<lambda>_. True) (map pipe_text (note_msgs ''eth'' (map (Pair ''0x1'') ([''5'', ''[6]''] @ [''7''])))) c3 = Proceed c4"
      "cs_in (csubs (c_handler c4) 0) = [''5'', ''[6]''] @ [''7'']" by blast
  have "c_handler sv1 = c_handler ?sv"
  proof -
    have "wf_message feed_msg" "\<not> isNotification feed_msg" "\<not> isResponse feed_msg" by code_simp+
    then have "dispatch (snd (client_read (\<lambda>_. True) (Inr (pipe_text (WMsg feed_msg))))) ?sv = Proceed (add_proc (Some (startCallProc False [feed_msg])) (c_handler ?sv) ?sv)"
      using read_pipe_text(1) by (simp add: dispatch_def handleMsg_def handleImmediate_def)
    then show ?thesis using r(1) by (simp add: add_proc_def)
  qed
  then show ?thesis using r 4(3,4) by (auto simp: note_msgs_def)
qed

end
