(* ===== verification/Rpc_Context.thy ===== *)
theory Rpc_Context
  imports Rpc_Client
begin

text \<open>
  What a service method finds in its context (\<open>ClientFromContext\<close> of \<open>client.go\<close>, \<open>NotifierFromContext\<close> of
  \<open>subscription.go\<close>): the client of its connection and, in a subscribe call, the notifier of that call.
\<close>

section \<open>Contexts with values\<close>

text \<open>A context is the chain of its values, the innermost first; the keys are types of the package, so that they are all different.\<close>

datatype ctx_key = ClientContextKey | NotifierKey

datatype ctx_value = ClientValue nat | NotifierValue nat

type_synonym ctx = "(ctx_key \<times> ctx_value) list"

definition Background :: ctx where "Background = []"

definition WithValue :: "ctx \<Rightarrow> ctx_key \<Rightarrow> ctx_value \<Rightarrow> ctx" where
  "WithValue parent k v = (k, v) # parent"

fun ctx_Value :: "ctx \<Rightarrow> ctx_key \<Rightarrow> ctx_value option" where
  "ctx_Value [] key = None"
| "ctx_Value ((k, v) # parent) key = (if k = key then Some v else ctx_Value parent key)"

text \<open>The two accessors, whose type assertion gives no value for a missing or different one.\<close>

definition ClientFromContext :: "ctx \<Rightarrow> nat option" where
  "ClientFromContext ctx = (case ctx_Value ctx ClientContextKey of Some (ClientValue c) \<Rightarrow> Some c | _ \<Rightarrow> None)"

definition NotifierFromContext :: "ctx \<Rightarrow> nat option" where
  "NotifierFromContext ctx = (case ctx_Value ctx NotifierKey of Some (NotifierValue n) \<Rightarrow> Some n | _ \<Rightarrow> None)"

text \<open>
  \<open>newClientConn\<close>: the handler's root context knows the client, given by its address; every call process gets a context that is
  derived from it.
\<close>

definition newClientConn ::
  "nat \<Rightarrow> jsonCodec \<Rightarrow> 'g \<Rightarrow> 'f serviceRegistry \<Rightarrow> (nat \<Rightarrow> requestOp) \<Rightarrow> (nat \<Rightarrow> client_sub) \<Rightarrow> ctx \<times> jsonCodec \<times> ('f, jsonCodec, 'g) handler" where
  "newClientConn c conn idgen services os cs =
     (let ctx = WithValue Background ClientContextKey (ClientValue c) in (ctx, conn, newHandler conn idgen services os cs))"

text \<open>
  The context that \<open>handleCall\<close> and \<open>handleSubscribe\<close> pass to \<open>runMethod\<close>: the one of the call process, with the notifier that was
  just created if the call is a subscription.
\<close>

definition method_ctx :: "ctx \<Rightarrow> nat option \<Rightarrow> ctx" where
  "method_ctx cp_ctx notifier = (case notifier of None \<Rightarrow> cp_ctx | Some n \<Rightarrow> WithValue cp_ctx NotifierKey (NotifierValue n))"

section \<open>What a method finds\<close>

text \<open>
  A method called over a connection finds the client of the connection, whatever it is called for, and a notifier exactly if it was
  called to subscribe: the notifier of its own call, even if the context of the process had another one. The notifier that
  \<open>run_prog\<close> lets a method use is thus the one it can find.
\<close>

lemma method_finds:
  assumes "newClientConn c conn idgen services os cs = (root, codec, h)"
  shows "ClientFromContext (method_ctx root ni) = Some c \<and> NotifierFromContext (method_ctx root ni) = ni
    \<and> NotifierFromContext (method_ctx (method_ctx root nj) (Some i)) = Some i"
  using assms
  by (auto simp: newClientConn_def method_ctx_def ClientFromContext_def NotifierFromContext_def WithValue_def Background_def
      split: option.split)

end
