(* ===== verification/Rpc_Metrics.thy ===== *)
theory Rpc_Metrics
  imports Rpc_Calls
begin

text \<open>
  The statistics of the RPC server (\<open>metrics.go\<close> and the end of \<open>handleCall\<close>): what the gauges and timers
  say in every state that the system of call processes can reach.
\<close>

text \<open>What the statistics depend on; only a call of a method changes it.\<close>

definition meters :: "('f, 'c, 'g) handler \<Rightarrow> 'f serviceRegistry \<times> nat \<times> nat \<times> nat \<times> string list" where
  "meters h = (h_reg h, rpcRequestGauge h, successfulRequestGauge h, failedRequestGauge h, servingTimers h)"

lemma meters_update [simp]:
  "meters (h\<lparr>h_idgen := g\<rparr>) = meters h" "meters (h\<lparr>notifiers := ns\<rparr>) = meters h" "meters (h\<lparr>h_conn := c\<rparr>) = meters h"
  "meters (h\<lparr>serverSubs := ss\<rparr>) = meters h" "meters (h\<lparr>respWait := w\<rparr>) = meters h" "meters (h\<lparr>ops := os\<rparr>) = meters h"
  "meters (h\<lparr>csubs := cs\<rparr>) = meters h" "meters (h\<lparr>clientSubs := cl\<rparr>) = meters h"
  by (simp_all add: meters_def)

lemma run_prog_meters: "run_prog p E ni h = (r, h') \<Longrightarrow> meters h' = meters h"
proof (induction p arbitrary: h)
  case (Done x)
  then show ?case by simp
next
  case (DoCreate k)
  show ?case
  proof (cases ni)
    case (Some i)
    then show ?thesis using DoCreate.prems DoCreate.IH [OF rangeI]
      by (cases "CreateSubscription (e_idgen E) (h_idgen h) (notifiers h ! i)") (auto simp: Some)
  qed (use DoCreate.prems in simp)
next
  case (DoNotify sid data k)
  show ?case
  proof (cases ni)
    case (Some i)
    then show ?thesis using DoNotify.prems DoNotify.IH [OF rangeI]
      by (cases "Notify (e_write E) sid data (notifiers h ! i) (h_conn h)") (auto simp: Some)
  qed (use DoNotify.prems in simp)
qed

lemma runMethod_meters: "runMethod E ni msg callb args h = (a, h') \<Longrightarrow> meters h' = meters h"
  by (auto simp: runMethod_def split: prod.splits sum.splits dest!: run_prog_meters)

lemma handleSubscribe_meters: "handleSubscribe E msg h nn = (a, h', nn') \<Longrightarrow> meters h' = meters h"
  by (auto simp: handleSubscribe_def Let_def split: if_splits sum.splits option.splits prod.splits dest!: runMethod_meters)

lemma run_unsubscribe_meters: "run_unsubscribe msg sid h = (a, h') \<Longrightarrow> meters h' = meters h"
  by (auto simp: run_unsubscribe_def unsubscribe_def split: prod.splits outcome.splits option.splits chan_step.splits)

lemma handleImmediate_meters:
  assumes "handleImmediate pick msg h = Proceed (b, h')"
  shows "meters h' = meters h"
proof -
  have "handleResponse msg h = Proceed h1 \<Longrightarrow> meters h1 = meters h" for h1
    by (auto simp: handleResponse_def Let_def step_bind_Proceed_iff split: option.splits sum.splits)
  moreover have "meters (handleSubscriptionResult pick msg h) = meters h"
    by (simp add: handleSubscriptionResult_def split: option.split)
  ultimately show ?thesis using assms by (auto simp: handleImmediate_def step_bind_Proceed_iff split: if_splits)
qed

lemma immediate_loop_meters: "immediate_loop pick msgs calls h = Proceed (calls', h') \<Longrightarrow> meters h' = meters h"
  by (induction pick msgs calls h rule: immediate_loop.induct) (auto simp: step_bind_Proceed_iff dest: handleImmediate_meters)

lemma addSubscriptions_meters: "meters (addSubscriptions nn h) = meters h"
  by (induction nn h rule: addSubscriptions.induct) (auto simp: Let_def split: prod.splits option.splits)

lemma write_answers_meters: "meters (write_answers E batch answers h) = meters h"
  by (simp add: write_answers_def split: list.split)

lemma activate_notifier_meters: "activate_notifier E i h = Return h' \<Longrightarrow> meters h' = meters h"
  by (auto simp: activate_notifier_def outcome_bind_def split: outcome.splits)

section \<open>Statistics of the calls\<close>

text \<open>
  The statistics stand for a list of served calls, each with its method and whether it succeeded.
\<close>

definition timers_of :: "string \<times> bool \<Rightarrow> string list" where
  "timers_of c = [rpcServingTimer, newRPCServingTimer (fst c) (snd c)]"

definition metered :: "(string \<times> bool) list \<Rightarrow> ('f, 'c, 'g) handler \<Rightarrow> bool" where
  "metered served h \<longleftrightarrow>
     rpcRequestGauge h = length served
     \<and> successfulRequestGauge h = length (filter snd served)
     \<and> failedRequestGauge h = length (filter (\<lambda>c. \<not> snd c) served)
     \<and> servingTimers h = concat (map timers_of served)
     \<and> (\<forall>c \<in> set served. registry_callback (h_reg h) (fst c) \<noteq> None)"

lemma metered_keep: "metered served h \<Longrightarrow> meters h' = meters h \<Longrightarrow> metered served h'"
  by (simp add: metered_def meters_def)

text \<open>A call leaves the statistics alone, or it has run a registered method and counts as one served call.\<close>

lemma handleCall_meters:
  assumes "handleCall E msg h nn = (a, h', nn')"
  shows "meters h' = meters h \<or>
    registry_callback (h_reg h) (Method msg) \<noteq> None
    \<and> meters h' = (h_reg h, Suc (rpcRequestGauge h), successfulRequestGauge h + (if Err a = None then 1 else 0),
        failedRequestGauge h + (if Err a = None then 0 else 1), servingTimers h @ timers_of (Method msg, Err a = None))"
proof (cases "isSubscribe msg \<or> isUnsubscribe msg")
  case True
  then show ?thesis using assms
    by (auto simp: handleCall_def Let_def split: if_splits sum.splits prod.splits dest!: handleSubscribe_meters run_unsubscribe_meters)
next
  case False
  show ?thesis
  proof (cases "registry_callback (h_reg h) (Method msg)")
    case None
    then show ?thesis using assms False by (simp add: handleCall_def)
  next
    case (Some callb)
    show ?thesis
    proof (cases "parsePositionalArguments (e_dec E) (e_zero E) (Params msg) (argTypes callb)")
      case (Inl err)
      then show ?thesis using assms False Some by (simp add: handleCall_def)
    next
      case (Inr args)
      obtain b h1 where "runMethod E None msg callb args h = (b, h1)" by (cases "runMethod E None msg callb args h")
      moreover have "h1 = h" by (rule runMethod_plain [OF calculation])
      ultimately show ?thesis using assms False Some Inr
        by (cases "Err b") (auto simp: handleCall_def meters_def timers_of_def)
    qed
  qed
qed

lemma handleCall_metered:
  assumes "metered served h" and "handleCall E msg h nn = (a, h', nn')"
  shows "\<exists>served'. metered (served @ served') h'"
  using handleCall_meters [OF assms(2)]
proof
  assume "meters h' = meters h"
  then have "metered (served @ []) h'" using metered_keep [OF assms(1)] by simp
  then show ?thesis ..
next
  assume "registry_callback (h_reg h) (Method msg) \<noteq> None
    \<and> meters h' = (h_reg h, Suc (rpcRequestGauge h), successfulRequestGauge h + (if Err a = None then 1 else 0),
        failedRequestGauge h + (if Err a = None then 0 else 1), servingTimers h @ timers_of (Method msg, Err a = None))"
  then have "metered (served @ [(Method msg, Err a = None)]) h'" using assms(1) by (auto simp: metered_def meters_def)
  then show ?thesis ..
qed

lemma handleCallMsg_metered:
  assumes "metered served h" and "handleCallMsg E msg h nn = (a, h', nn')"
  shows "\<exists>served'. metered (served @ served') h'"
proof (cases "h' = h")
  case True
  then show ?thesis using assms(1) by (intro exI [of _ "[]"]) simp
next
  case False
  then obtain r where "handleCall E msg h nn = (r, h', nn')"
    using assms(2) by (auto simp: handleCallMsg_def split: if_splits prod.splits)
  then show ?thesis by (rule handleCall_metered [OF assms(1)])
qed

lemma proc_step_metered:
  assumes "metered served h" and "proc_step E p h = Return (p', h')"
  shows "\<exists>served'. metered (served @ served') h'"
proof -
  have keep: ?thesis if "meters h' = meters h"
  proof -
    have "metered (served @ []) h'" using metered_keep [OF assms(1) that] by simp
    then show ?thesis ..
  qed
  show ?thesis
  proof (cases "cp_phase p")
    case Calling
    show ?thesis
    proof (cases "cp_todo p")
      case Nil
      then show ?thesis using keep assms(2) Calling by (auto simp: proc_step_def addSubscriptions_meters)
    next
      case (Cons msg rest)
      obtain a h1 nn where call: "handleCallMsg E msg h (cp_notifiers p) = (a, h1, nn)"
        by (cases "handleCallMsg E msg h (cp_notifiers p)") auto
      then have "h' = h1" using assms(2) Calling Cons by (simp add: proc_step_def)
      then show ?thesis using handleCallMsg_metered [OF assms(1) call] by simp
    qed
  next
    case Answering
    then show ?thesis using keep assms(2) by (auto simp: proc_step_def write_answers_meters)
  next
    case (Activating ks)
    show ?thesis
    proof (cases ks)
      case Nil
      then show ?thesis using keep assms(2) Activating by (simp add: proc_step_def)
    next
      case (Cons i js)
      then have "activate_notifier E i h = Return h'"
        using assms(2) Activating by (auto simp: proc_step_def outcome_bind_def split: outcome.splits)
      then show ?thesis using keep activate_notifier_meters by blast
    qed
  next
    case Finished
    then show ?thesis using keep assms(2) by (simp add: proc_step_def)
  qed
qed

definition metered_sys :: "('f, 'c, 'g) sys \<Rightarrow> bool" where
  "metered_sys s \<longleftrightarrow> (\<exists>served. metered served (fst s))"

lemma metered_start: "sys_start s \<Longrightarrow> metered_sys s"
  by (force simp: sys_start_def metered_sys_def metered_def newHandler_def)

lemma metered_step: "sys_step E s s' \<Longrightarrow> metered_sys s \<Longrightarrow> metered_sys s'"
proof (induction rule: sys_step.induct)
  case (message pick msg h po h' ps)
  then have "meters h' = meters h" by (auto simp: handleMsg_def step_bind_Proceed_iff dest: handleImmediate_meters)
  with message(2) show ?case using metered_keep by (fastforce simp: metered_sys_def)
next
  case (batch picks msgs h po h' ps)
  then have "meters h' = meters h"
    by (auto simp: handleBatch_def step_bind_Proceed_iff split: if_splits dest: immediate_loop_meters)
  with batch(2) show ?case using metered_keep by (fastforce simp: metered_sys_def)
next
  case (process j ps h p h')
  from process(3) obtain served where "metered served h" by (auto simp: metered_sys_def)
  from proc_step_metered [OF this process(2)] show ?case by (auto simp: metered_sys_def)
next
  case (notify i h sid data err n c ps)
  then show ?case by (simp add: metered_sys_def metered_def)
qed

interpretation metering: machine_invariant sys_start "sys_step E" metered_sys for E
  by unfold_locales (fact metered_start metered_step)+


text \<open>A connection with the method \<open>eth_ping\<close>, for the example.\<close>

definition ping_env :: "(nat, string, jsonCodec, unit) env" where
  "ping_env = demo_env\<lparr>e_invoke := (\<lambda>_ _. Done (Return [RVal ''7'', RErr None]))\<rparr>"

definition ping_handler :: "(nat, jsonCodec, unit) handler" where
  "ping_handler = newHandler (NewFuncCodec None) ()
     [''eth'' \<mapsto> \<lparr>name = ''eth'', callbacks = [''ping'' \<mapsto> demo_callback], subscriptions = Map.empty\<rparr>]
     (\<lambda>_. \<lparr>op_ids = [], op_err = None, op_resp = make_chan 0, op_sub = None\<rparr>) (\<lambda>_. newClientSubscription [])"

definition ping_msg :: jsonrpcMessage where
  "ping_msg = zero_message\<lparr>Version := vsn, ID := Some ''1'', Method := ''eth_ping''\<rparr>"

lemma ping_start: "sys_reach ping_env (ping_handler, [startCallProc False [ping_msg]])"
proof -
  have "\<not> isNotification ping_msg" "\<not> isResponse ping_msg"
    by (simp_all add: ping_msg_def isNotification_def isResponse_def)
  then have "handleMsg False ping_msg ping_handler = Proceed (Some (startCallProc False [ping_msg]), ping_handler)"
    by (simp add: handleMsg_def handleImmediate_def)
  from sys_step.message [OF this, of ping_env "[]"] show ?thesis
    unfolding ping_handler_def using sys_reach_init by (fastforce intro: sys_reach_step)
qed


end
