(* ===== verification/Route_Distance.thy ===== *)
theory Route_Distance
  imports Route_Guide Complex_Main
begin

text \<open>
  The great-circle distance of the route guide server (\<open>toRadians\<close> and \<open>calcDistance\<close> of
  \<open>route_guide/server/server.go\<close>). The floating point operations are a record, so that the
  definitions can be read with the machine's \<open>float64\<close>, of which the theorems use only laws that IEEE 754 and
  package \<open>math\<close> give, and with exact real numbers, where the formula is compared with the
  distance on a sphere.
\<close>

section \<open>Floating point operations\<close>

text \<open>
  \<open>f_lit\<close> is the value of an integer of at most 53 bits, which is exact. \<open>f_neg\<close> is used by the laws only.
\<close>

record 'f float_ops =
  f_lit :: "int \<Rightarrow> 'f"
  f_Pi :: 'f
  f_neg :: "'f \<Rightarrow> 'f"
  f_add :: "'f \<Rightarrow> 'f \<Rightarrow> 'f"
  f_sub :: "'f \<Rightarrow> 'f \<Rightarrow> 'f"
  f_mul :: "'f \<Rightarrow> 'f \<Rightarrow> 'f"
  f_div :: "'f \<Rightarrow> 'f \<Rightarrow> 'f"
  f_Sin :: "'f \<Rightarrow> 'f"
  f_Cos :: "'f \<Rightarrow> 'f"
  f_Sqrt :: "'f \<Rightarrow> 'f"
  f_Atan2 :: "'f \<Rightarrow> 'f \<Rightarrow> 'f"
  f_int32 :: "'f \<Rightarrow> int32"

definition toRadians :: "'f float_ops \<Rightarrow> 'f \<Rightarrow> 'f" where
  "toRadians F num = f_div F (f_mul F num (f_Pi F)) (f_lit F 180)"

text \<open>One of the four angles: a coordinate in units of \<open>1e-7\<close> degrees.\<close>

definition angle :: "'f float_ops \<Rightarrow> int32 \<Rightarrow> 'f" where
  "angle F coord = toRadians F (f_div F (f_lit F (sint coord)) (f_lit F 10000000))"

definition calcDistance :: "'f float_ops \<Rightarrow> Point \<Rightarrow> Point \<Rightarrow> int32" where
  "calcDistance F p1 p2 =
     (let R = f_lit F 6371000;
          lat1 = angle F (Latitude p1);
          lat2 = angle F (Latitude p2);
          lng1 = angle F (Longitude p1);
          lng2 = angle F (Longitude p2);
          dlat = f_sub F lat2 lat1;
          dlng = f_sub F lng2 lng1;
          half = (\<lambda>x. f_Sin F (f_div F x (f_lit F 2)));
          a = f_add F (f_mul F (half dlat) (half dlat))
                (f_mul F (f_mul F (f_mul F (f_Cos F lat1) (f_Cos F lat2)) (half dlng)) (half dlng));
          c = f_mul F (f_lit F 2) (f_Atan2 F (f_Sqrt F a) (f_Sqrt F (f_sub F (f_lit F 1) a)));
          distance = f_mul F R c in
      f_int32 F distance)"

text \<open>
  The laws: multiplication commutes and a sign can be moved through products, quotients and the sine; the difference of two
  different numbers changes its sign when they are exchanged. Equal numbers are left out, as their difference is
  \<open>+0\<close> in either order.
\<close>

definition sign_laws :: "'f float_ops \<Rightarrow> bool" where
  "sign_laws F \<longleftrightarrow>
     (\<forall>x y. f_mul F x y = f_mul F y x)
     \<and> (\<forall>x y. f_mul F x (f_neg F y) = f_neg F (f_mul F x y))
     \<and> (\<forall>x y. f_div F (f_neg F x) y = f_neg F (f_div F x y))
     \<and> (\<forall>x. f_neg F (f_neg F x) = x)
     \<and> (\<forall>x. f_Sin F (f_neg F x) = f_neg F (f_Sin F x))
     \<and> (\<forall>x y. x \<noteq> y \<longrightarrow> f_sub F x y = f_neg F (f_sub F y x))"

text \<open>What is zero: differences and sines of zero, products of zero and a square, and the last steps of the formula.\<close>

definition zero_laws :: "'f float_ops \<Rightarrow> bool" where
  "zero_laws F \<longleftrightarrow>
     (let z = f_lit F 0; one = f_lit F 1 in
      (\<forall>k. f_sub F (angle F k) (angle F k) = z)
      \<and> f_div F z (f_lit F 2) = z \<and> f_Sin F z = z \<and> f_mul F z z = z \<and> f_add F z z = z
      \<and> (\<forall>k. f_mul F (f_mul F (f_Cos F (angle F k)) (f_Cos F (angle F k))) z = z)
      \<and> f_Sqrt F z = z \<and> f_sub F one z = one \<and> f_Sqrt F one = one \<and> f_Atan2 F z one = z
      \<and> f_mul F (f_lit F 2) z = z \<and> f_mul F (f_lit F 6371000) z = z \<and> f_int32 F z = 0)"

text \<open>The exact operations. \<open>Atan2\<close> is the angle of a point, for a positive or zero ordinate.\<close>

definition atan2_real :: "real \<Rightarrow> real \<Rightarrow> real" where
  "atan2_real y x =
     (if x > 0 then arctan (y / x)
      else if x < 0 then (if y \<ge> 0 then arctan (y / x) + pi else arctan (y / x) - pi)
      else if y > 0 then pi / 2 else if y < 0 then - (pi / 2) else 0)"

definition exact :: "real float_ops" where
  "exact =
     \<lparr>f_lit = of_int, f_Pi = pi, f_neg = uminus, f_add = (+), f_sub = (-), f_mul = (*), f_div = (/),
      f_Sin = sin, f_Cos = cos, f_Sqrt = sqrt, f_Atan2 = atan2_real,
      f_int32 = (\<lambda>x. word_of_int (if x \<ge> 0 then \<lfloor>x\<rfloor> else \<lceil>x\<rceil>))\<rparr>"

section \<open>Symmetry\<close>

lemma calcDistance_sym:
  assumes "sign_laws F"
  shows "calcDistance F p q = calcDistance F q p"
proof -
  define S where "S x y = f_Sin F (f_div F (f_sub F x y) (f_lit F 2))" for x y
  have mul: "f_mul F x y = f_mul F y x" "f_mul F x (f_neg F y) = f_neg F (f_mul F x y)" "f_neg F (f_neg F x) = x" for x y
    using assms by (auto simp: sign_laws_def)
  have neg: "f_mul F (f_neg F x) y = f_neg F (f_mul F x y)" for x y using mul by metis
  have S: "S x y = S y x \<or> S x y = f_neg F (S y x)" for x y
    using assms unfolding S_def sign_laws_def by (cases "x = y") metis+
  have sq: "f_mul F (S x y) (S x y) = f_mul F (S y x) (S y x)" for x y using S [of x y] mul neg by metis
  have sq': "f_mul F (f_mul F w (S x y)) (S x y) = f_mul F (f_mul F w (S y x)) (S y x)" for w x y
    using S [of x y] mul neg by metis
  show ?thesis unfolding calcDistance_def Let_def S_def [symmetric]
    using sq sq' mul(1) [of "f_Cos F (angle F (Latitude p))"] by metis
qed

lemma calcDistance_self: "zero_laws F \<Longrightarrow> calcDistance F p p = 0"
  by (simp add: zero_laws_def calcDistance_def Let_def)

section \<open>Routes in both directions\<close>

text \<open>Two ways to read the hops of a route agree when the distance is symmetric.\<close>

lemma hops_Cons: "hops d (p # q # ps) = d p q + hops d (q # ps)"
  by (simp add: hops_def)

lemma hops_append: "hops d (ps @ p # qs) = hops d (ps @ [p]) + hops d (p # qs)"
proof (induction ps)
  case Nil
  then show ?case by (simp add: hops_def)
next
  case (Cons x ps)
  then show ?case by (cases ps) (simp_all add: hops_Cons hops_def ac_simps)
qed

lemma hops_rev:
  assumes "\<And>p q. d p q = d q p"
  shows "hops d (rev ps) = hops d ps"
proof (induction ps)
  case (Cons p ps)
  show ?case
  proof (cases ps)
    case Nil
    then show ?thesis by simp
  next
    case (Cons q qs)
    have "hops d (rev (p # ps)) = hops d (rev ps) + d q p"
      using hops_append [of d "rev qs" q "[p]"] Cons by (simp add: hops_def)
    then show ?thesis using Cons.IH assms [of p q] Cons by (simp add: hops_Cons)
  qed
qed simp

text \<open>
  A client that records its route backwards gets the same summary: the distance is symmetric in floating
  point arithmetic too, as only signs change that disappear in the squares. A point that is sent twice in a
  row adds nothing to the distance.
\<close>

theorem RecordRoute_reversed:
  assumes "sign_laws F" and "zero_laws F"
  shows "RecordRoute (calcDistance F) elapsed s (rev ps) StreamEOF = RecordRoute (calcDistance F) elapsed s ps StreamEOF
    \<and> (\<exists>r r'. RecordRoute (calcDistance F) elapsed s (ps @ p # p # qs) StreamEOF = Inr r
         \<and> RecordRoute (calcDistance F) elapsed s (ps @ p # qs) StreamEOF = Inr r' \<and> Distance r = Distance r')"
proof -
  have "hops (calcDistance F) (rev ps) = hops (calcDistance F) ps" by (intro hops_rev calcDistance_sym assms)
  moreover have "hops (calcDistance F) (ps @ p # p # qs) = hops (calcDistance F) (ps @ p # qs)"
    using hops_append [of _ ps p "p # qs"] hops_append [of _ ps p qs] by (simp add: hops_Cons calcDistance_self assms)
  ultimately show ?thesis by (simp add: RecordRoute_def record_points_eq rev_map [symmetric])
qed

lemma exact_laws: "sign_laws exact" "zero_laws exact"
  by (auto simp: sign_laws_def zero_laws_def exact_def atan2_real_def Let_def)

theorem RecordRoute_reversed_witness:
  "RecordRoute (calcDistance exact) 3 default_server [\<lparr>Latitude = 1, Longitude = 2\<rparr>, \<lparr>Latitude = 409146138, Longitude = -746188906\<rparr>] StreamEOF
   = RecordRoute (calcDistance exact) 3 default_server [\<lparr>Latitude = 409146138, Longitude = -746188906\<rparr>, \<lparr>Latitude = 1, Longitude = 2\<rparr>] StreamEOF"
  using RecordRoute_reversed [OF exact_laws, of 3 default_server
      "[\<lparr>Latitude = 409146138, Longitude = -746188906\<rparr>, \<lparr>Latitude = 1, Longitude = 2\<rparr>]"] by simp

section \<open>The distance on a sphere\<close>

text \<open>The point on the unit sphere that a position names, and the angle between two of them seen from the centre.\<close>

definition radians :: "int32 \<Rightarrow> real" where
  "radians coord = of_int (sint coord) / 10000000 * pi / 180"

definition on_sphere :: "Point \<Rightarrow> real \<times> real \<times> real" where
  "on_sphere p =
     (cos (radians (Latitude p)) * cos (radians (Longitude p)),
      cos (radians (Latitude p)) * sin (radians (Longitude p)),
      sin (radians (Latitude p)))"

fun inner3 :: "real \<times> real \<times> real \<Rightarrow> real \<times> real \<times> real \<Rightarrow> real" where
  "inner3 (x, y, z) (x', y', z') = x * x' + y * y' + z * z'"

definition central_angle :: "Point \<Rightarrow> Point \<Rightarrow> real" where
  "central_angle p q = arccos (inner3 (on_sphere p) (on_sphere q))"

lemma on_sphere_unit: "inner3 (on_sphere p) (on_sphere p) = 1"
proof -
  let ?f = "radians (Latitude p)" and ?l = "radians (Longitude p)"
  have "inner3 (on_sphere p) (on_sphere p) = (cos ?f)\<^sup>2 * ((cos ?l)\<^sup>2 + (sin ?l)\<^sup>2) + (sin ?f)\<^sup>2"
    unfolding on_sphere_def inner3.simps by algebra
  then show ?thesis by simp
qed

lemma inner3_bound:
  assumes "inner3 u u = 1" and "inner3 v v = 1"
  shows "\<bar>inner3 u v\<bar> \<le> 1"
proof -
  obtain x y z where u: "u = (x, y, z)" by (cases u)
  obtain x' y' z' where v: "v = (x', y', z')" by (cases v)
  have "0 \<le> (x - x')\<^sup>2 + (y - y')\<^sup>2 + (z - z')\<^sup>2" "0 \<le> (x + x')\<^sup>2 + (y + y')\<^sup>2 + (z + z')\<^sup>2" by simp_all
  moreover have "(x - x')\<^sup>2 + (y - y')\<^sup>2 + (z - z')\<^sup>2 = 2 - 2 * inner3 u v" "(x + x')\<^sup>2 + (y + y')\<^sup>2 + (z + z')\<^sup>2 = 2 + 2 * inner3 u v"
    using assms unfolding u v by (simp_all add: power2_eq_square algebra_simps)
  ultimately show ?thesis by simp
qed

lemma haversine:
  "(sin ((radians (Latitude q) - radians (Latitude p)) / 2))\<^sup>2
     + cos (radians (Latitude p)) * cos (radians (Latitude q)) * (sin ((radians (Longitude q) - radians (Longitude p)) / 2))\<^sup>2
   = (1 - inner3 (on_sphere p) (on_sphere q)) / 2"
proof -
  have half: "(sin (t / 2))\<^sup>2 = (1 - cos t) / 2" for t :: real using cos_double_sin [of "t / 2"] by simp
  show ?thesis unfolding half by (simp add: on_sphere_def cos_diff field_simps)
qed

lemma atan2_half_angle:
  assumes "0 \<le> t" and "t \<le> pi"
  shows "atan2_real (sin (t / 2)) (cos (t / 2)) = t / 2"
proof (cases "t = pi")
  case True
  then show ?thesis by (simp add: atan2_real_def)
next
  case False
  then have "cos (t / 2) > 0" using assms by (intro cos_gt_zero_pi) auto
  then show ?thesis using assms False arctan_tan [of "t / 2"] by (simp add: atan2_real_def tan_def)
qed

lemma angle_exact: "angle exact coord = radians coord"
  by (simp add: angle_def toRadians_def exact_def radians_def)

text \<open>
  C25. With exact arithmetic \<open>calcDistance\<close> is the length in whole metres of the shortest way over a sphere of radius
  6371 km, for every pair of positions, also for latitudes beyond the poles: the argument of the second square root is
  never negative and the result always fits 32 bits.
\<close>

theorem calcDistance_great_circle:
  "sint (calcDistance exact p q) = \<lfloor>6371000 * central_angle p q\<rfloor>"
proof -
  define t where "t = central_angle p q"
  define i where "i = inner3 (on_sphere p) (on_sphere q)"
  have i: "\<bar>i\<bar> \<le> 1" unfolding i_def by (intro inner3_bound on_sphere_unit)
  then have t: "0 \<le> t" "t \<le> pi" and cost: "cos t = i"
    by (auto simp: t_def central_angle_def i_def [symmetric] intro!: arccos_lbound arccos_ubound)
  define a where "a = (1 - i) / 2"
  have a: "a = (sin (t / 2))\<^sup>2" "1 - a = (cos (t / 2))\<^sup>2"
    using cos_double_sin [of "t / 2"] cos_double_cos [of "t / 2"] cost by (simp_all add: a_def field_simps)
  have nonneg: "0 \<le> sin (t / 2)" "0 \<le> cos (t / 2)" using t by (auto intro!: sin_ge_zero cos_ge_zero)
  have sqrts: "sqrt a = sin (t / 2)" "sqrt (1 - a) = cos (t / 2)" using nonneg a by (auto intro: real_sqrt_unique)
  have "calcDistance exact p q = f_int32 exact (6371000 * (2 * atan2_real (sqrt a) (sqrt (1 - a))))"
    unfolding calcDistance_def Let_def angle_exact a_def i_def haversine [of q p, symmetric]
    by (simp add: exact_def power2_eq_square mult.assoc)
  also have "\<dots> = word_of_int \<lfloor>6371000 * t\<rfloor>" using t by (simp add: sqrts atan2_half_angle exact_def)
  finally have "sint (calcDistance exact p q) = signed_take_bit 31 \<lfloor>6371000 * t\<rfloor>" by (simp add: sint_sbintrunc')
  moreover have "0 \<le> \<lfloor>6371000 * t\<rfloor>" "\<lfloor>6371000 * t\<rfloor> < 2 ^ 31"
    using t pi_less_4 by (simp_all add: floor_less_iff)
  ultimately show ?thesis by (simp add: signed_take_bit_int_eq_self t_def)
qed

end
