(* ===== verification/Go_Exercises.thy ===== *)
theory Go_Exercises
  imports Json State_Machine "HOL-Library.Multiset" "HOL-Library.Sublist"
begin

text \<open>
  The language exercises under \<open>golang_test\<close>: deferred calls and panics, a scanner over bytes, a wait group, a
  generator that is stopped by a context, and a service that starts a goroutine. The concurrent ones are step
  relations that interpret \<open>machine_progress\<close> of \<open>State_Machine\<close>. What is printed is a list of lines.
\<close>

section \<open>Deferred calls, panics and recovery\<close>

text \<open>
  What a call prints and how it ends. The arguments of a deferred call are evaluated at the \<open>defer\<close>; the call runs
  when the function ends, by returning or by a panic.
\<close>

type_synonym 'a printed = "string list \<times> 'a outcome"

function g :: "int \<Rightarrow> unit printed" where
  "g i =
     (if i > 3 then ([''Panicking''], Panic (UserPanic (dec_int i)))
      else let (out, r) = g (i + 1) in
        ((''Printing in g '' @ dec_int i) # out @ [''Defer in g '' @ dec_int i], r))"
  by pat_completeness auto

termination
  by (relation "measure (\<lambda>i. nat (4 - i))") auto

declare g.simps [simp del]

definition panic_text :: "panic \<Rightarrow> string" where
  "panic_text p = (case p of UserPanic s \<Rightarrow> s | _ \<Rightarrow> ''runtime error'')"

definition f :: "unit printed" where
  "f = (let (out, r) = g 0 in
        case r of
          Return u \<Rightarrow> (''Calling g.'' # out @ [''Returned normally from g.''], Return u)
        | Panic p \<Rightarrow> (''Calling g.'' # out @ [''Recovered in f: '' @ panic_text p], Return ()))"

definition panic_main :: "unit printed" where
  "panic_main =
     (let (out, r) = f in
      case r of
        Return u \<Rightarrow> (out @ [''Returned normally from f.''], Return u)
      | Panic p \<Rightarrow> (out, Panic p))"

text \<open>Every level that was entered is left through its deferred call, in reverse order, before the panic goes on.\<close>

lemma g_unwinds:
  "i \<le> 4 \<Longrightarrow> g i = (map (\<lambda>k. ''Printing in g '' @ dec_int k) [i..3] @ ''Panicking'' # map (\<lambda>k. ''Defer in g '' @ dec_int k) (rev [i..3]),
                   Panic (UserPanic ''4''))"
proof (induction i rule: g.induct)
  case (1 i)
  show ?case
  proof (cases "i > 3")
    case True
    then have "i = 4" using 1(2) by simp
    then show ?thesis by (simp add: g.simps) code_simp
  next
    case False
    then have "[i..3] = i # [i + 1..3]" by (simp add: upto_rec1)
    then show ?thesis using 1(1) False by (subst g.simps) (simp add: Let_def)
  qed
qed

lemma panic_main_output:
  "panic_main =
     (''Calling g.'' # map (\<lambda>k. ''Printing in g '' @ dec_int k) [0..3] @ ''Panicking'' # map (\<lambda>k. ''Defer in g '' @ dec_int k) [3, 2, 1, 0]
        @ [''Recovered in f: 4'', ''Returned normally from f.''], Return ())"
  by (simp add: panic_main_def f_def g_unwinds panic_text_def Let_def upto_rec1)

section \<open>Scanning bytes\<close>

text \<open>
  The scanner of \<open>bufio\<close> over a reader that holds all its data. A split function sees the data that is left and
  whether the input has ended; it returns how far to advance and perhaps a token.
\<close>

definition ScanBytes :: "byte list \<Rightarrow> bool \<Rightarrow> nat \<times> byte list option" where
  "ScanBytes data atEOF = (if atEOF \<and> data = [] then (0, None) else (1, Some (take 1 data)))"

definition Scan :: "(byte list \<Rightarrow> bool \<Rightarrow> nat \<times> byte list option) \<Rightarrow> byte list \<Rightarrow> (byte list \<times> byte list) option" where
  "Scan split data =
     (case split data (data = []) of
        (advance, Some tok) \<Rightarrow> Some (tok, drop advance data)
      | (_, None) \<Rightarrow> None)"

lemma Scan_ScanBytes: "Scan ScanBytes data = (case data of [] \<Rightarrow> None | d # ds \<Rightarrow> Some ([d], ds))"
  by (simp add: Scan_def ScanBytes_def split: list.splits)

text \<open>
  The loop over the tokens of one test, and over the tests. The messages, with their quoted bytes, are built by the
  arguments; \<open>test[i]\<close> past the end panics.
\<close>

function scan_loop :: "(nat \<Rightarrow> nat \<Rightarrow> byte list \<Rightarrow> byte list \<Rightarrow> string) \<Rightarrow> nat \<Rightarrow> byte list \<Rightarrow> nat \<Rightarrow> byte list \<Rightarrow> (string list \<times> nat) outcome" where
  "scan_loop expected n test i data =
     (case Scan ScanBytes data of
        None \<Rightarrow> Return ([], i)
      | Some (b, data) \<Rightarrow>
          if length b = 1 \<and> i \<ge> length test then Panic IndexOutOfRange
          else outcome_bind (scan_loop expected n test (i + 1) data) (\<lambda>(out, k).
                 Return ((if length b \<noteq> 1 \<or> b ! 0 \<noteq> test ! i then [expected n i test b] else []) @ out, k)))"
  by pat_completeness auto

termination
  by (relation "measure (\<lambda>(_, _, _, _, data). length data)") (auto simp: Scan_ScanBytes split: list.splits)

declare scan_loop.simps [simp del]

fun ScanByte ::
  "(nat \<Rightarrow> nat \<Rightarrow> byte list \<Rightarrow> byte list \<Rightarrow> string) \<Rightarrow> (nat \<Rightarrow> nat \<Rightarrow> nat \<Rightarrow> string) \<Rightarrow> nat \<Rightarrow> byte list list \<Rightarrow> string list outcome" where
  "ScanByte expected termination_at n [] = Return []"
| "ScanByte expected termination_at n (test # tests) =
     outcome_bind (scan_loop expected n test 0 test) (\<lambda>(out, i).
       outcome_bind (ScanByte expected termination_at (n + 1) tests) (\<lambda>rest.
         Return (out @ (if i \<noteq> length test then [termination_at n (length test) i] else []) @ rest)))"

text \<open>The bytes of the tests, in UTF-8 where they are text.\<close>

definition scanTests :: "byte list list" where
  "scanTests =
     [[], [0x61], [0xC2, 0xBC], [0xE2, 0x98, 0xB9], [0x81], [0xEF, 0xBF, 0xBD],
      [0x61, 0x62, 0x63, 0x64, 0x65, 0x66, 0x67, 0x68],
      [0x61, 0x62, 0x63, 0x20, 0x64, 0x65, 0x66, 0x0A, 0x09, 0x09, 0x67, 0x68, 0x20, 0x20, 0x20, 0x20],
      [0x61, 0x62, 0x63, 0xC2, 0xBC, 0xE2, 0x98, 0xB9, 0x81, 0xEF, 0xBF, 0xBD, 0xE6, 0x97, 0xA5, 0xE6, 0x9C, 0xAC, 0xE8, 0xAA, 0x9E,
       0x82, 0x61, 0x62, 0x63]]"

text \<open>Scanning bytes gives back every text byte by byte, whatever it encodes: nothing is printed.\<close>

lemma scan_loop_all: "scan_loop expected n (done_part @ data) (length done_part) data = Return ([], length (done_part @ data))"
proof (induction data arbitrary: done_part)
  case Nil
  then show ?case by (simp add: scan_loop.simps Scan_ScanBytes)
next
  case (Cons d data)
  then show ?case using Cons [of "done_part @ [d]"]
    by (subst scan_loop.simps) (simp add: Scan_ScanBytes outcome_bind_def nth_append)
qed

lemma ScanByte_silent: "ScanByte expected termination_at n tests = Return []"
  using scan_loop_all [of expected _ "[]"] by (induction tests arbitrary: n) (simp_all add: outcome_bind_def)

section \<open>A wait group\<close>

text \<open>
  The counter of a \<open>sync.WaitGroup\<close>: \<open>Add\<close> panics below zero, \<open>Wait\<close> goes on at zero.
\<close>

definition wg_Add :: "int \<Rightarrow> int \<Rightarrow> int outcome" where
  "wg_Add delta n = (if n + delta < 0 then Panic (UserPanic ''sync: negative WaitGroup counter'') else Return (n + delta))"

definition wg_Done :: "int \<Rightarrow> int outcome" where
  "wg_Done n = wg_Add (- 1) n"

text \<open>
  \<open>work\<close> prints, sleeps, prints, and calls \<open>Done\<close> when it ends; the loop of \<open>WaitForWorker\<close> adds one and starts a
  worker five times, then waits. A worker is its number and where it is.
\<close>

datatype worker_pc = Created | Sleeping | Leaving | Ended

datatype waiter_pc = Adding int | Spawning int | Waiting | WaiterDone

record wait_state =
  w_count :: int
  w_main :: waiter_pc
  w_workers :: "(int \<times> worker_pc) list"
  w_out :: "string list"
  w_panic :: bool

definition starting :: "int \<Rightarrow> string" where
  "starting i = ''Worker '' @ dec_int i @ '' starting''"

definition finishing :: "int \<Rightarrow> string" where
  "finishing i = ''Worker '' @ dec_int i @ '' done''"

fun work :: "int \<Rightarrow> worker_pc \<Rightarrow> int \<Rightarrow> (worker_pc \<times> string list \<times> int) outcome" where
  "work i Created n = Return (Sleeping, [starting i], n)"
| "work i Sleeping n = Return (Leaving, [finishing i], n)"
| "work i Leaving n = outcome_bind (wg_Done n) (\<lambda>n. Return (Ended, [], n))"
| "work i Ended n = Return (Ended, [], n)"

definition wait_start :: "wait_state \<Rightarrow> bool" where
  "wait_start s \<longleftrightarrow> s = \<lparr>w_count = 0, w_main = Adding 1, w_workers = [], w_out = [], w_panic = False\<rparr>"

inductive WaitForWorker :: "wait_state \<Rightarrow> wait_state \<Rightarrow> bool" where
  add: "w_main s = Adding i \<Longrightarrow> i \<le> 5 \<Longrightarrow> \<not> w_panic s \<Longrightarrow> wg_Add 1 (w_count s) = Return n
     \<Longrightarrow> WaitForWorker s (s\<lparr>w_count := n, w_main := Spawning i\<rparr>)"
| spawn: "w_main s = Spawning i \<Longrightarrow> \<not> w_panic s
     \<Longrightarrow> WaitForWorker s (s\<lparr>w_main := Adding (i + 1), w_workers := w_workers s @ [(i, Created)]\<rparr>)"
| loop_end: "w_main s = Adding i \<Longrightarrow> i > 5 \<Longrightarrow> \<not> w_panic s \<Longrightarrow> WaitForWorker s (s\<lparr>w_main := Waiting\<rparr>)"
| wait: "w_main s = Waiting \<Longrightarrow> \<not> w_panic s \<Longrightarrow> w_count s = 0 \<Longrightarrow> WaitForWorker s (s\<lparr>w_main := WaiterDone\<rparr>)"
| worker: "k < length (w_workers s) \<Longrightarrow> w_workers s ! k = (i, pc) \<Longrightarrow> pc \<noteq> Ended \<Longrightarrow> w_main s \<noteq> WaiterDone \<Longrightarrow> \<not> w_panic s
     \<Longrightarrow> work i pc (w_count s) = Return (pc', out, n)
     \<Longrightarrow> WaitForWorker s (s\<lparr>w_count := n, w_workers := (w_workers s)[k := (i, pc')], w_out := w_out s @ out\<rparr>)"
| worker_panic: "k < length (w_workers s) \<Longrightarrow> w_workers s ! k = (i, pc) \<Longrightarrow> w_main s \<noteq> WaiterDone \<Longrightarrow> \<not> w_panic s
     \<Longrightarrow> work i pc (w_count s) = Panic p \<Longrightarrow> WaitForWorker s (s\<lparr>w_panic := True\<rparr>)"

text \<open>What a worker has printed, how much it still has to do, and how many workers have not ended.\<close>

fun worker_lines :: "int \<times> worker_pc \<Rightarrow> string list" where
  "worker_lines (i, Created) = []"
| "worker_lines (i, Sleeping) = [starting i]"
| "worker_lines (i, _) = [starting i, finishing i]"

fun worker_left :: "int \<times> worker_pc \<Rightarrow> nat" where
  "worker_left (i, Created) = 3"
| "worker_left (i, Sleeping) = 2"
| "worker_left (i, Leaving) = 1"
| "worker_left (i, Ended) = 0"

definition working :: "(int \<times> worker_pc) list \<Rightarrow> nat" where
  "working ws = length (filter (\<lambda>(i, pc). pc \<noteq> Ended) ws)"

fun next_worker :: "waiter_pc \<Rightarrow> int" where
  "next_worker (Adding i) = i"
| "next_worker (Spawning i) = i"
| "next_worker _ = 6"

fun waiter_left :: "waiter_pc \<Rightarrow> nat" where
  "waiter_left (Adding i) = 5 * nat (6 - i) + 2"
| "waiter_left (Spawning i) = 5 * nat (6 - i) + 1"
| "waiter_left Waiting = 1"
| "waiter_left WaiterDone = 0"

definition wait_inv :: "wait_state \<Rightarrow> bool" where
  "wait_inv s \<longleftrightarrow>
     \<not> w_panic s
     \<and> map fst (w_workers s) = [1..next_worker (w_main s) - 1] \<and> 1 \<le> next_worker (w_main s) \<and> next_worker (w_main s) \<le> 6
     \<and> (\<forall>i. w_main s = Spawning i \<longrightarrow> i \<le> 5)
     \<and> w_count s = int (working (w_workers s)) + (case w_main s of Spawning _ \<Rightarrow> 1 | _ \<Rightarrow> 0)
     \<and> (w_main s = WaiterDone \<longrightarrow> w_count s = 0)
     \<and> mset (w_out s) = mset (concat (map worker_lines (w_workers s)))
     \<and> (\<forall>w \<in> set (w_workers s). subseq (worker_lines w) (w_out s))"

text \<open>Facts on the worker that takes a step.\<close>

lemma worker_split:
  assumes "k < length ws"
  shows "ws = take k ws @ ws ! k # drop (Suc k) ws" "ws[k := w] = take k ws @ w # drop (Suc k) ws"
  using assms by (auto simp: id_take_nth_drop upd_conv_take_nth_drop)

lemma work_lines: "work i pc n = Return (pc', out, n') \<Longrightarrow> worker_lines (i, pc') = worker_lines (i, pc) @ out"
  by (cases pc) (auto simp: wg_Done_def wg_Add_def outcome_bind_def split: if_splits)

lemma work_left: "work i pc n = Return (pc', out, n') \<Longrightarrow> pc \<noteq> Ended \<Longrightarrow> worker_left (i, pc') < worker_left (i, pc)"
  by (cases pc) (auto simp: wg_Done_def wg_Add_def outcome_bind_def split: if_splits)

lemma work_count:
  "work i pc n = Return (pc', out, n') \<Longrightarrow> pc \<noteq> Ended \<Longrightarrow> n' = n - (if pc' = Ended then 1 else 0)"
  by (cases pc) (auto simp: wg_Done_def wg_Add_def outcome_bind_def split: if_splits)

lemma work_returns: "work i pc n = Panic p \<Longrightarrow> pc = Leaving \<and> n < 1"
  by (cases pc) (auto simp: wg_Done_def wg_Add_def outcome_bind_def split: if_splits)

lemma working_update:
  assumes "k < length ws" and "ws ! k = (i, pc)" and "pc \<noteq> Ended"
  shows "int (working (ws[k := (i, pc')])) = int (working ws) - (if pc' = Ended then 1 else 0)"
  using assms(2,3) by (subst (2) worker_split(1) [OF assms(1)]) (simp add: working_def worker_split(2) [OF assms(1)])

lemma working_pos: "k < length ws \<Longrightarrow> ws ! k = (i, pc) \<Longrightarrow> pc \<noteq> Ended \<Longrightarrow> working ws > 0"
  by (force simp: working_def in_set_conv_nth filter_empty_conv)

lemma lines_update:
  assumes "k < length ws" and "worker_lines w = worker_lines (ws ! k) @ out"
  shows "mset (concat (map worker_lines (ws[k := w]))) = mset (concat (map worker_lines ws)) + mset out"
  using assms(2) by (subst (2) worker_split(1) [OF assms(1)]) (simp add: worker_split(2) [OF assms(1)])

lemma left_update:
  assumes "k < length ws" and "worker_left w < worker_left (ws ! k)"
  shows "sum_list (map worker_left (ws[k := w])) < sum_list (map worker_left ws)"
  using assms(2) by (subst (2) worker_split(1) [OF assms(1)]) (simp add: worker_split(2) [OF assms(1)])

lemma wait_start_inv: "wait_start s \<Longrightarrow> wait_inv s"
  by (auto simp: wait_start_def wait_inv_def working_def)

lemma wait_step_inv: "WaitForWorker s s' \<Longrightarrow> wait_inv s \<Longrightarrow> wait_inv s'"
proof (induction rule: WaitForWorker.induct)
  case (add s i n)
  then show ?case by (auto simp: wait_inv_def wg_Add_def split: if_splits)
next
  case (spawn s i)
  then show ?case by (auto simp: wait_inv_def working_def upto_rec2)
next
  case (loop_end s i)
  then have "i = 6" by (auto simp: wait_inv_def)
  with loop_end show ?case by (auto simp: wait_inv_def)
next
  case (wait s)
  then show ?case by (auto simp: wait_inv_def)
next
  case (worker k s i pc pc' out n)
  let ?ws = "(w_workers s)[k := (i, pc')]"
  have lines: "worker_lines (i, pc') = worker_lines (w_workers s ! k) @ out" using worker(2) work_lines [OF worker(6)] by simp
  have k: "worker_lines (w_workers s ! k) \<in> worker_lines ` set (w_workers s)" using worker(1) by simp
  have "map fst ?ws = map fst (w_workers s)" using worker(1,2) by (simp add: map_update list_update_same_conv)
  moreover have "int (working ?ws) = int (working (w_workers s)) - (w_count s - n)"
    using working_update [OF worker(1,2,3)] work_count [OF worker(6,3)] by simp
  moreover have "mset (concat (map worker_lines ?ws)) = mset (concat (map worker_lines (w_workers s))) + mset out"
    by (rule lines_update [OF worker(1) lines])
  moreover have "subseq (worker_lines w) (w_out s @ out)" if "w \<in> set ?ws" for w
  proof -
    have old: "subseq (worker_lines v) (w_out s)" if "v \<in> set (w_workers s)" for v
      using worker(7) that by (simp add: wait_inv_def)
    from that set_update_subset_insert consider "w = (i, pc')" | "w \<in> set (w_workers s)" by fastforce
    then show ?thesis
    proof cases
      case 1
      then show ?thesis using lines old [OF nth_mem [OF worker(1)]] by (simp add: list_emb_append_mono)
    next
      case 2
      then show ?thesis using old by (simp add: list_emb_prefix)
    qed
  qed
  ultimately show ?case using worker(4,7) by (auto simp: wait_inv_def split: waiter_pc.splits)
next
  case (worker_panic k s i pc p)
  then have "pc = Leaving" "w_count s < 1" using work_returns by blast+
  then show ?case using worker_panic(1,2,6) working_pos [OF worker_panic(1,2)] by (auto simp: wait_inv_def split: waiter_pc.splits)
qed

definition wait_left :: "wait_state \<Rightarrow> nat" where
  "wait_left s = waiter_left (w_main s) + sum_list (map worker_left (w_workers s))"

lemma wait_step_left: "WaitForWorker s s' \<Longrightarrow> wait_inv s \<Longrightarrow> wait_left s' < wait_left s"
proof (induction rule: WaitForWorker.induct)
  case (spawn s i)
  then have "i \<le> 5" by (simp add: wait_inv_def)
  with spawn show ?case by (auto simp: wait_left_def)
next
  case (worker k s i pc pc' out n)
  then show ?case using left_update [OF worker(1)] work_left by (simp add: wait_left_def)
next
  case (worker_panic k s i pc p)
  then have "wait_inv (s\<lparr>w_panic := True\<rparr>)" by (intro wait_step_inv [OF WaitForWorker.worker_panic])
  then show ?case by (simp add: wait_inv_def)
qed (auto simp: wait_left_def)

lemma wait_progress:
  assumes "wait_inv s" and "w_main s \<noteq> WaiterDone"
  shows "\<exists>s'. WaitForWorker s s'"
proof (cases "w_main s")
  case (Adding i)
  have "wg_Add 1 (w_count s) = Return (w_count s + 1)" using assms by (auto simp: wait_inv_def wg_Add_def split: waiter_pc.splits)
  then show ?thesis using Adding assms(1) add [of s i] loop_end [of s i]
    by (cases "i \<le> 5") (auto simp: wait_inv_def)
next
  case (Spawning i)
  then show ?thesis using assms(1) spawn [of s i] by (auto simp: wait_inv_def)
next
  case Waiting
  show ?thesis
  proof (cases "working (w_workers s) = 0")
    case True
    then show ?thesis using Waiting assms(1) wait [of s] by (auto simp: wait_inv_def)
  next
    case False
    then obtain w where "w \<in> set (w_workers s)" "snd w \<noteq> Ended" by (auto simp: working_def filter_empty_conv)
    then obtain k i pc where k: "k < length (w_workers s)" "w_workers s ! k = (i, pc)" "pc \<noteq> Ended"
      by (metis in_set_conv_nth prod.collapse)
    then show ?thesis using worker [OF k] worker_panic [OF k(1,2)] assms
      by (cases "work i pc (w_count s)") (auto simp: wait_inv_def)
  qed
qed (use assms in simp)

interpretation waiting: machine_progress wait_start WaitForWorker wait_inv "\<lambda>s. w_main s = WaiterDone" wait_left
  by unfold_locales (fact wait_start_inv wait_step_inv wait_progress wait_step_left)+

text \<open>
  \<open>WaitForWorker\<close> always returns, and then the five workers have printed both of their lines, each in its order;
  the counter never falls below zero.
\<close>

theorem WaitForWorker_waits:
  "\<not> (wait_start (r 0) \<and> (\<forall>i. WaitForWorker (r i) (r (Suc i))))"
  "reach wait_start WaitForWorker s \<Longrightarrow> \<not> w_panic s \<and> (w_main s = WaiterDone \<or> (\<exists>s'. WaitForWorker s s'))"
  "reach wait_start WaitForWorker s \<Longrightarrow> w_main s = WaiterDone \<Longrightarrow>
     mset (w_out s) = mset (concat (map (\<lambda>i. [starting i, finishing i]) [1..5]))
     \<and> (\<forall>i \<in> {1..5}. subseq [starting i, finishing i] (w_out s))"
proof -
  show "\<not> (wait_start (r 0) \<and> (\<forall>i. WaitForWorker (r i) (r (Suc i))))" by (rule waiting.runs_end)
  show "\<not> w_panic s \<and> (w_main s = WaiterDone \<or> (\<exists>s'. WaitForWorker s s'))" if "reach wait_start WaitForWorker s"
    using waiting.reach_inv [OF that] waiting.progress by (auto simp: wait_inv_def)
  assume r: "reach wait_start WaitForWorker s" and d: "w_main s = WaiterDone"
  have inv: "wait_inv s" by (rule waiting.reach_inv [OF r])
  then have ids: "map fst (w_workers s) = [1..5]" and "working (w_workers s) = 0" using d by (auto simp: wait_inv_def)
  then have ended: "snd w = Ended" if "w \<in> set (w_workers s)" for w using that by (auto simp: working_def filter_empty_conv)
  have lines: "map worker_lines (w_workers s) = map (\<lambda>i. [starting i, finishing i]) [1..5]"
    unfolding ids [symmetric] map_map
  proof (rule map_cong [OF refl])
    fix w assume "w \<in> set (w_workers s)"
    then have "w = (fst w, Ended)" using ended by (metis prod.collapse)
    then have "worker_lines w = worker_lines (fst w, Ended)" by simp
    then show "worker_lines w = ((\<lambda>i. [starting i, finishing i]) \<circ> fst) w" by simp
  qed
  have "subseq [starting i, finishing i] (w_out s)" if "i \<in> {1..5}" for i
  proof -
    have "i \<in> set (map fst (w_workers s))" using that ids by simp
    then obtain w where "w \<in> set (w_workers s)" "fst w = i" by auto
    with ended have "(i, Ended) \<in> set (w_workers s)" by (metis prod.collapse)
    then show ?thesis using inv by (force simp: wait_inv_def)
  qed
  then show "mset (w_out s) = mset (concat (map (\<lambda>i. [starting i, finishing i]) [1..5]))
     \<and> (\<forall>i \<in> {1..5}. subseq [starting i, finishing i] (w_out s))"
    using inv lines by (simp add: wait_inv_def)
qed

section \<open>A generator stopped by its context\<close>

text \<open>
  \<open>ContextWithCancel\<close>: the goroutine of \<open>gen\<close> offers numbers on a channel without buffer until the context is
  done; the loop takes them until it has seen 500, and the deferred \<open>cancel\<close> runs when the function ends. A value is
  handed over when the goroutine is in its \<open>select\<close> and the loop is receiving.
\<close>

datatype gen_pc = Selecting | Sent | GenDone

datatype range_pc = Receiving | Got int | Breaking | RangeReturned

record gen_state =
  g_n :: int
  g_pc :: gen_pc
  g_out :: "string list"
  c_pc :: range_pc
  c_got :: "int list"
  ctx_done :: bool

definition incrementing :: "int \<Rightarrow> string" where
  "incrementing n = ''incrementing:  '' @ dec_int n"

definition gen_start :: "gen_state \<Rightarrow> bool" where
  "gen_start s \<longleftrightarrow> s = \<lparr>g_n = 1, g_pc = Selecting, g_out = [], c_pc = Receiving, c_got = [], ctx_done = False\<rparr>"

inductive ContextWithCancel :: "gen_state \<Rightarrow> gen_state \<Rightarrow> bool" where
  hand_over: "g_pc s = Selecting \<Longrightarrow> c_pc s = Receiving
     \<Longrightarrow> ContextWithCancel s (s\<lparr>g_pc := Sent, c_pc := Got (g_n s), c_got := c_got s @ [g_n s]\<rparr>)"
| increment: "g_pc s = Sent
     \<Longrightarrow> ContextWithCancel s (s\<lparr>g_n := g_n s + 1, g_pc := Selecting, g_out := g_out s @ [incrementing (g_n s + 1)]\<rparr>)"
| gen_done: "g_pc s = Selecting \<Longrightarrow> ctx_done s \<Longrightarrow> ContextWithCancel s (s\<lparr>g_pc := GenDone, g_out := g_out s @ [''done!'']\<rparr>)"
| check: "c_pc s = Got n \<Longrightarrow> ContextWithCancel s (s\<lparr>c_pc := if n = 500 then Breaking else Receiving\<rparr>)"
| cancel: "c_pc s = Breaking \<Longrightarrow> ContextWithCancel s (s\<lparr>ctx_done := True, c_pc := RangeReturned\<rparr>)"

text \<open>The number of the last value handed over, and what is left to do.\<close>

definition handed :: "gen_state \<Rightarrow> int" where
  "handed s = (if g_pc s = Sent then g_n s else g_n s - 1)"

definition gen_inv :: "gen_state \<Rightarrow> bool" where
  "gen_inv s \<longleftrightarrow>
     1 \<le> g_n s \<and> handed s \<le> 500 \<and> c_got s = [1..handed s]
     \<and> (case c_pc s of Receiving \<Rightarrow> handed s < 500 | Got n \<Rightarrow> n = handed s | _ \<Rightarrow> handed s = 500)
     \<and> (ctx_done s \<longleftrightarrow> c_pc s = RangeReturned) \<and> (g_pc s = GenDone \<longrightarrow> ctx_done s)
     \<and> g_out s = map incrementing [2..g_n s] @ (if g_pc s = GenDone then [''done!''] else [])"

definition gen_left :: "gen_state \<Rightarrow> nat" where
  "gen_left s =
     3 * nat (500 - handed s) + (case g_pc s of Sent \<Rightarrow> 2 | Selecting \<Rightarrow> 1 | GenDone \<Rightarrow> 0)
       + (case c_pc s of Got _ \<Rightarrow> 2 | Receiving \<Rightarrow> 1 | Breaking \<Rightarrow> 1 | RangeReturned \<Rightarrow> 0)"

definition gen_final :: "gen_state \<Rightarrow> bool" where
  "gen_final s \<longleftrightarrow> c_pc s = RangeReturned \<and> g_pc s = GenDone"

lemma gen_start_inv: "gen_start s \<Longrightarrow> gen_inv s"
  by (auto simp: gen_start_def gen_inv_def handed_def)

lemma gen_step_inv: "ContextWithCancel s s' \<Longrightarrow> gen_inv s \<Longrightarrow> gen_inv s'"
proof (induction rule: ContextWithCancel.induct)
  case (hand_over s)
  then have "[1..g_n s] = [1..g_n s - 1] @ [g_n s]" by (intro upto_rec2) (simp add: gen_inv_def handed_def)
  with hand_over show ?case by (auto simp: gen_inv_def handed_def)
next
  case (increment s)
  then have "g_n s \<ge> 1" by (auto simp: gen_inv_def handed_def)
  then have "[2..g_n s + 1] = [2..g_n s] @ [g_n s + 1]" using upto_rec2 [of 2 "g_n s + 1"] by simp
  with increment show ?case by (auto simp: gen_inv_def handed_def split: range_pc.splits)
qed (auto simp: gen_inv_def handed_def split: range_pc.splits if_splits)

lemma gen_step_left: "ContextWithCancel s s' \<Longrightarrow> gen_inv s \<Longrightarrow> gen_left s' < gen_left s"
  by (induction rule: ContextWithCancel.induct) (auto simp: gen_left_def gen_inv_def handed_def nat_diff_distrib' split: if_splits)

lemma gen_progress: "gen_inv s \<Longrightarrow> \<not> gen_final s \<Longrightarrow> \<exists>s'. ContextWithCancel s s'"
  by (cases "g_pc s"; cases "c_pc s")
    (auto simp: gen_inv_def gen_final_def intro: ContextWithCancel.intros)

interpretation generator: machine_progress gen_start ContextWithCancel gen_inv gen_final gen_left
  by unfold_locales (fact gen_start_inv gen_step_inv gen_progress gen_step_left)+

text \<open>
  Whatever the interleaving, the function ends after a bounded number of steps and leaves no goroutine behind: a run that
  cannot go on has returned and its goroutine has ended, the loop has seen exactly the numbers from 1 to 500 in order,
  and the goroutine has printed its 500 increments and then that it is done.
\<close>

theorem ContextWithCancel_ends:
  "\<not> (gen_start (r 0) \<and> (\<forall>i. ContextWithCancel (r i) (r (Suc i))))
   \<and> (reach gen_start ContextWithCancel s \<and> (\<nexists>s'. ContextWithCancel s s') \<longrightarrow>
        c_pc s = RangeReturned \<and> g_pc s = GenDone \<and> c_got s = [1..500]
        \<and> g_out s = map incrementing [2..501] @ [''done!''])"
  using generator.runs_end generator.stuck_final [of s] generator.reach_inv [of s]
  by (auto simp: gen_inv_def gen_final_def handed_def)

section \<open>A service that starts a goroutine\<close>

text \<open>
  \<open>Start\<close> adds one to the wait group, starts a goroutine and waits. The goroutine calls \<open>Done\<close> only if the service
  is not connected, and its error goes nowhere: a \<open>go\<close> statement discards results.
\<close>

record Service =
  connected :: bool
  isRunning :: bool
  sv_wg :: int

definition NewService :: Service where
  "NewService = \<lparr>connected = False, isRunning = False, sv_wg = 0\<rparr>"

datatype start_pc = StartAdd | StartGo | StartWait | StartReturned "string option"

datatype starter_pc = NotStarted | GoRunning | GoSlept | GoReturned "string option"

record start_state =
  st_svc :: Service
  st_main :: start_pc
  st_go :: starter_pc

definition start_of :: "Service \<Rightarrow> start_state \<Rightarrow> bool" where
  "start_of sv s \<longleftrightarrow> s = \<lparr>st_svc = sv, st_main = StartAdd, st_go = NotStarted\<rparr>"

inductive Start :: "start_state \<Rightarrow> start_state \<Rightarrow> bool" where
  add: "st_main s = StartAdd \<Longrightarrow> wg_Add 1 (sv_wg (st_svc s)) = Return n
     \<Longrightarrow> Start s (s\<lparr>st_svc := (st_svc s)\<lparr>sv_wg := n\<rparr>, st_main := StartGo\<rparr>)"
| go: "st_main s = StartGo \<Longrightarrow> Start s (s\<lparr>st_main := StartWait, st_go := GoRunning\<rparr>)"
| running: "st_go s = GoRunning \<Longrightarrow> Start s (s\<lparr>st_svc := (st_svc s)\<lparr>isRunning := True\<rparr>, st_go := GoSlept\<rparr>)"
| refused: "st_go s = GoSlept \<Longrightarrow> \<not> connected (st_svc s) \<Longrightarrow> wg_Done (sv_wg (st_svc s)) = Return n
     \<Longrightarrow> Start s (s\<lparr>st_svc := (st_svc s)\<lparr>sv_wg := n\<rparr>, st_go := GoReturned (Some ''cannot start service!'')\<rparr>)"
| accepted: "st_go s = GoSlept \<Longrightarrow> connected (st_svc s) \<Longrightarrow> Start s (s\<lparr>st_go := GoReturned None\<rparr>)"
| return: "st_main s = StartWait \<Longrightarrow> sv_wg (st_svc s) = 0 \<Longrightarrow> Start s (s\<lparr>st_main := StartReturned None\<rparr>)"

text \<open>Where the two activities are, with the counter of the wait group.\<close>

definition start_inv :: "bool \<Rightarrow> start_state \<Rightarrow> bool" where
  "start_inv c s \<longleftrightarrow>
     connected (st_svc s) = c
     \<and> (case (st_main s, st_go s) of
          (StartAdd, NotStarted) \<Rightarrow> sv_wg (st_svc s) = 0
        | (StartGo, NotStarted) \<Rightarrow> sv_wg (st_svc s) = 1
        | (StartWait, GoRunning) \<Rightarrow> sv_wg (st_svc s) = 1
        | (StartWait, GoSlept) \<Rightarrow> sv_wg (st_svc s) = 1 \<and> isRunning (st_svc s)
        | (StartWait, GoReturned r) \<Rightarrow> sv_wg (st_svc s) = (if c then 1 else 0) \<and> isRunning (st_svc s) \<and> r = (if c then None else Some ''cannot start service!'')
        | (StartReturned e, GoReturned (Some r)) \<Rightarrow> \<not> c \<and> e = None \<and> r = ''cannot start service!'' \<and> sv_wg (st_svc s) = 0 \<and> isRunning (st_svc s)
        | _ \<Rightarrow> False)"

lemma start_of_inv: "start_of \<lparr>connected = c, isRunning = b, sv_wg = 0\<rparr> s \<Longrightarrow> start_inv c s"
  by (auto simp: start_of_def start_inv_def)

lemma start_step_inv: "Start s s' \<Longrightarrow> start_inv c s \<Longrightarrow> start_inv c s'"
  by (induction rule: Start.induct)
    (auto simp: start_inv_def wg_Add_def wg_Done_def split: start_pc.splits starter_pc.splits option.splits if_splits)

definition start_left :: "start_state \<Rightarrow> nat" where
  "start_left s =
     (case st_main s of StartAdd \<Rightarrow> 6 | StartGo \<Rightarrow> 5 | StartWait \<Rightarrow> 1 | StartReturned _ \<Rightarrow> 0)
       + (case st_go s of GoRunning \<Rightarrow> 2 | GoSlept \<Rightarrow> 1 | _ \<Rightarrow> 0)"

lemma start_step_left: "Start s s' \<Longrightarrow> start_inv c s \<Longrightarrow> start_left s' < start_left s"
  by (induction rule: Start.induct) (auto simp: start_left_def start_inv_def split: start_pc.splits starter_pc.splits)

text \<open>Where \<open>Start\<close> ends: returned if the service is not connected, and waiting with the goroutine gone if it is.\<close>

definition start_final :: "bool \<Rightarrow> start_state \<Rightarrow> bool" where
  "start_final c s \<longleftrightarrow> (if c then st_main s = StartWait \<and> st_go s = GoReturned None else st_main s = StartReturned None)"

lemma start_progress: "start_inv c s \<Longrightarrow> \<not> start_final c s \<Longrightarrow> \<exists>s'. Start s s'"
  by (cases "st_main s"; cases "st_go s")
    (auto simp: start_inv_def start_final_def wg_Add_def wg_Done_def split: if_splits option.splits intro!: Start.intros exI)

lemma start_final_stuck: "start_inv True s \<Longrightarrow> start_final True s \<Longrightarrow> \<not> Start s s'"
  by (auto simp: start_inv_def start_final_def elim!: Start.cases)

interpretation starting_up: machine_progress "start_of NewService" Start "start_inv False" "start_final False" start_left
  by unfold_locales
    (auto simp: NewService_def start_of_inv intro: start_step_inv start_progress start_step_left)

interpretation starting_connected:
  machine_progress "start_of \<lparr>connected = True, isRunning = False, sv_wg = 0\<rparr>" Start "start_inv True" "start_final True" start_left
  by unfold_locales (auto simp: start_of_inv intro: start_step_inv start_progress start_step_left)

text \<open>
  \<open>Start\<close> of a new service always returns, without an error, although its goroutine has failed with one; for a
  connected service it never returns: every run ends in the wait, with no step left.
\<close>

theorem Start_loses_error:
  "(reach (start_of NewService) Start s \<and> (\<nexists>s'. Start s s') \<longrightarrow>
      st_main s = StartReturned None \<and> st_go s = GoReturned (Some ''cannot start service!''))
   \<and> (reach (start_of \<lparr>connected = True, isRunning = False, sv_wg = 0\<rparr>) Start t \<longrightarrow>
      (\<forall>e. st_main t \<noteq> StartReturned e) \<and> ((\<nexists>t'. Start t t') \<longleftrightarrow> st_main t = StartWait \<and> st_go t = GoReturned None))"
proof (intro conjI impI)
  assume s: "reach (start_of NewService) Start s \<and> (\<nexists>s'. Start s s')"
  then have "start_final False s" "start_inv False s" using starting_up.stuck_final starting_up.reach_inv by blast+
  then show "st_main s = StartReturned None" "st_go s = GoReturned (Some ''cannot start service!'')"
    by (auto simp: start_final_def start_inv_def split: starter_pc.splits option.splits)
next
  assume "reach (start_of \<lparr>connected = True, isRunning = False, sv_wg = 0\<rparr>) Start t"
  then have t: "start_inv True t" by (rule starting_connected.reach_inv)
  then show "\<forall>e. st_main t \<noteq> StartReturned e" by (auto simp: start_inv_def split: starter_pc.splits option.splits)
  show "(\<nexists>t'. Start t t') \<longleftrightarrow> st_main t = StartWait \<and> st_go t = GoReturned None"
    using start_progress [OF t] start_final_stuck [OF t] by (auto simp: start_final_def)
qed

end
