(* ===== verification/Spec2Isabelle.thy ===== *)
theory Spec2Isabelle
  imports Bytesutil Rpc_Requests Rpc_Inproc Rpc_Types Fileutil_Hash Account_Example Route_Client Epoch_Extractor Orchestrator_Cli Assertions
    Rpc_Inproc_Sub Rpc_Context Rpc_Metrics Route_Distance Go_Exercises
begin

text \<open>
  A model of the Go packages under \<open>src/\<close> and the theorems that make them correct.

  \<^bold>\<open>The program.\<close> The repository holds a JSON-RPC 2.0 library with subscriptions
  (\<open>simple_rpc/rpc\<close>), the orchestrator that serves and calls an API over it (\<open>simple_rpc\<close>), a
  validator wallet with its BLS keys (\<open>wallet\<close>, \<open>bls\<close>, \<open>rand\<close>), utilities for bytes and files (\<open>bytesutil\<close>,
  \<open>fileutil\<close>), a client that extracts proposer schedules from a beacon node (\<open>epoch-extractor\<close>), a gRPC
  service (\<open>route_guide\<close>), and exercises of the language (\<open>golang_test\<close>). A server reads messages through a codec and hands them to a handler; the
  handler looks methods up in the service registry, runs calls in processes of their own, and keeps the
  subscriptions of both sides. A client runs one dispatch loop that owns a handler and hands responses to the
  callers through channels. The wallet finds its directory with the file utilities, the key
  manager loads keys from it and signs with the BLS wrapper.

  \<^bold>\<open>Conventions.\<close> A Go function that may panic returns an \<open>outcome\<close> (\<open>Return\<close> or \<open>Panic\<close> with the
  reason); an error is the left side of a sum or an option; a blocking operation returns a \<open>chan_step\<close>. Machine
  integers are words where they wrap and integers where the code bounds them; strings are lists of bytes.
  Structs are records with the names of their fields. Mutable objects that are shared (backing arrays, request
  objects, public keys) live in stores, so that aliasing can be seen. Goroutines interleave at the steps of
  inductive relations; what a mutex protects is one step. Code that is not in the repository, the
  answers of the network, the clock and the random numbers are arguments, and a theorem states as hypotheses
  what it needs of them.

  \<^bold>\<open>Theories.\<close>

  \<^item> \<open>Prelude\<close>: outcomes, results, slices over a store of arrays, strings and hexadecimal digits.
  \<^item> \<open>State_Machine\<close>: reachability under a step relation, and the locale \<open>machine_invariant\<close> (a property of the start that every
    step keeps holds everywhere); the call processes with their statistics, the dispatch loop and the server interpret it.
    \<open>machine_progress\<close> extends it by progress and a measure: every run ends, and only in a final state; the concurrent
    exercises interpret it.
  \<^item> \<open>Go_Channel\<close>: channels with buffer, closing, sending and receiving; closing twice panics.
  \<^item> \<open>Json\<close>: JSON texts, quoting, decimal numbers and the tokens of a decoder.
  \<^item> \<open>Bytesutil\<close> (\<open>bytesutil/bytes.go\<close>): encodings, padding and bit lists. Shown: the encodings are inverse to each
    other, bit lists refine sets of positions (an interpretation of the locale \<open>bit_set\<close>), the searches for
    the highest bit are correct; \<open>FromBytes4\<close> overwrites the caller's array.
  \<^item> \<open>Rpc_Message\<close> (\<open>errors.go\<close>, \<open>json.go\<close>): messages, errors, the codec and positional arguments. Shown: parsing
    inverts encoding for single messages and batches, and arguments parse exactly when they fit.
  \<^item> \<open>Rpc_Service\<close> (\<open>service.go\<close>): the registry. Shown: lookup after registration, and the results of a call.
    The locale \<open>service_directory\<close> states what the server relies on; the registry interprets it.
  \<^item> \<open>Rpc_Subscription\<close> (\<open>subscription.go\<close>): notifiers and client subscriptions. Shown: notifications keep their
    order and wait for activation (over the locale \<open>json_writer\<close>, interpreted by the codec), the forwarding loop
    is a bounded queue, and ending a subscription is safe under every interleaving.
  \<^item> \<open>Rpc_Handler\<close>, \<open>Rpc_Calls\<close> (\<open>handler.go\<close>): handling of messages and batches, and the system of call processes
    with its invariant. Shown: batches are answered completely and in order, processes end, and no notification
    overtakes the answer of its subscription.
  \<^item> \<open>Rpc_Metrics\<close> (\<open>metrics.go\<close>): the statistics of the calls. Shown: in every reachable state they describe one list of
    served calls of registered methods.
  \<^item> \<open>Rpc_Client\<close>, \<open>Rpc_Requests\<close> (\<open>client.go\<close>): sending, waiting, batches, and the dispatch loop with the invariant that
    ties request objects to the tables of the handler. Shown: the loop never panics and never blocks on a
    response channel, batch responses find their elements, and a call can be lost.
  \<^item> \<open>Rpc_Context\<close> (\<open>client.go\<close>, \<open>subscription.go\<close>): the values of contexts. Shown: which client and which notifier a method finds.
  \<^item> \<open>Rpc_Server\<close> (\<open>server.go\<close>, \<open>endpoints.go\<close>, \<open>ipc.go\<close>): stopping, single requests and endpoints. Shown: what \<open>Stop\<close>
    closes and what it can miss, and that a started endpoint serves the methods of its APIs.
  \<^item> \<open>Rpc_Inproc\<close> (\<open>inproc.go\<close>): a client and a served end joined by a pipe. Shown: calls and batches go from the caller through both sides
    and back, and the caller gets what the methods gave. \<open>Rpc_Inproc_Sub\<close>: the same for subscriptions: the notifications of the
    service arrive in the subscription of the client, all of them and in order.
  \<^item> \<open>Rpc_Types\<close> (\<open>types.go\<close>): block numbers and hashes, with their ranges.
  \<^item> \<open>Orchestrator\<close> (\<open>simple_rpc/main.go\<close>, \<open>api\<close>, \<open>ipc-client\<close>, \<open>utils\<close>): the API, endpoints and flags. Shown: the
    call of the client is answered by the server started with the same flags.
  \<^item> \<open>Rpc_Ipc\<close> (\<open>ipc_unix.go\<close>, \<open>ipc_windows.go\<close>, \<open>ipc_js.go\<close>): the endpoint as a socket in the file system. Shown: the server takes its
    place there without touching anything else, and clients reach it while it runs.
  \<^item> \<open>Orchestrator_Cli\<close> (\<open>simple_rpc/main.go\<close>, \<open>utils\<close>): flags, commands and help. Shown: a command finds its flags among the
    global ones, and the order of the help is that of a map iteration.
  \<^item> \<open>Go_Path\<close>, \<open>Fileutil\<close>, \<open>Fileutil_Copy\<close>, \<open>Fileutil_Hash\<close> (\<open>fileutil/fileutil.go\<close>): paths and a file system. Shown:
    path expansion, guarded writing, the creation of directories, the copy of a tree (with its termination),
    and when two directories count as equal.
  \<^item> \<open>Rand\<close> (\<open>rand/rand.go\<close>) and \<open>Bls_Herumi\<close> (\<open>bls/herumi\<close>, \<open>bls/signature_set.go\<close>): the random source and the
    wrapper of the BLS library. Shown: the cache of public keys is transparent. The locale \<open>public_key_interface\<close> states
    what clients of \<open>bls/interface.go\<close> rely on; the wrapper interprets it.
  \<^item> \<open>Wallet\<close>, \<open>Keymanager\<close> (\<open>wallet\<close>): wallet directories, key stores, signing. Shown: which directories open, that
    what is signed verifies, and that a signature holds for every slot.
  \<^item> \<open>Account_Example\<close> (\<open>main.go\<close>): the program that opens a wallet, signs with one key and verifies with another. Shown: how it
    ends, with two keys and with none.
  \<^item> \<open>Route_Guide\<close> (\<open>route_guide/server\<close>, \<open>route_guide/data\<close>): the built-in features, lookups, routes and the chat.
  \<^item> \<open>Route_Distance\<close> (\<open>route_guide/server\<close>): the distance of two positions, over a record of floating point operations. Shown:
    with exact arithmetic it is the distance on a sphere, and in floating point it is symmetric, so that a route and
    its reverse have the same summary.
  \<^item> \<open>Route_Client\<close> (\<open>route_guide/client\<close>): the client, and its session with the server. Shown: what the session logs, and that
    random routes stay on the globe.
  \<^item> \<open>Assertions\<close> (\<open>testutil\<close>): the assertions of the tests. Shown: when a check of the logs reports.
  \<^item> \<open>Epoch_Extractor\<close> (\<open>epoch-extractor/main.go\<close>): schedules, ticks and the loop. Shown: the schedules follow the
    head as long as it leaves no epoch out, and what happens when it does.
  \<^item> \<open>Go_Exercises\<close> (\<open>golang_test\<close>): deferred calls and recovery, scanning, a wait group, a generator with a context, and a
    service. Shown: what they print, that the concurrent ones end under every interleaving without leaving a goroutine
    behind, and that the service loses its error.

  \<^bold>\<open>Bounds.\<close> \<open>CopyDir\<close> and \<open>DecodeRLP\<close> recurse with a bound on the depth of calls. For \<open>CopyDir\<close> it is proved that the
    depth of the copied tree is enough; for \<open>DecodeRLP\<close>, that no bound is. Loops over
  channels, connections and ticks run over the list of the events they receive, of any length. Sizes that
  the code adds without a check (bit indices) are bounded by hypotheses below \<open>2 ^ 62\<close>.

  \<^bold>\<open>Not modelled.\<close> Logging and locks as such; cancellation by contexts, except where it is an event; file
  systems with symbolic links; the rounding of floating point operations, of which only laws are used; named pipes, the
  parsing of command lines and the rendering of help templates; JSON decoding of the key stores and of structs, the RLP encoder, the BLS
  library, its cache's policy, hashing and decryption, which are arguments; generated code,
  the registry of the metrics and the initialisation of loggers.
\<close>

end
